(* ===== verification/Prelude.thy ===== *)
theory Prelude
  imports Main "HOL-Library.Word"
begin

text \<open>
  Shared vocabulary of the development: the machine types of the C sources (fixed-width
  words, byte-addressed memory), the counted loops, little-endian loads and stores with
  their frame laws, and the generic lemmas the components use.

  \<^item> \<open>uint8_t .. uint64_t\<close> and \<open>size_t\<close> are \<open>8 word .. 64 word\<close>; pointers are \<open>64 word\<close>.
  \<^item> RAM is a function from addresses to bytes; the kernel runs on an identity mapping, so
    an address is a physical address.
  \<^item> Addresses wrap, as pointer arithmetic does on the machine. Two byte ranges are \<open>apart\<close>
    when they share no address, also modulo \<open>2 ^ 64\<close>.
\<close>

unbundle bit_operations_syntax

section \<open>Machine types\<close>

type_synonym u8 = "8 word"
type_synonym u16 = "16 word"
type_synonym u32 = "32 word"
type_synonym u64 = "64 word"

type_synonym mem = "u64 \<Rightarrow> u8"

abbreviation NULL :: u64 where
  "NULL \<equiv> 0"

named_theorems frame_simps \<open>loads and calls that a write elsewhere does not change\<close>

section \<open>Words and naturals\<close>

lemma unat_lt_u64 [simp]: "unat (x::u64) < 18446744073709551616"
  using unsigned_less [of x, where ?'a = nat] by simp

lemma unat_lt_u32 [simp]: "unat (x::u32) < 4294967296"
  using unsigned_less [of x, where ?'a = nat] by simp

lemma unat_lt_u8 [simp]: "unat (x::u8) < 256"
  using unsigned_less [of x, where ?'a = nat] by simp

lemma unat_of_nat_u64: "n < 18446744073709551616 \<Longrightarrow> unat (of_nat n :: u64) = n"
  by (simp add: unat_of_nat take_bit_eq_mod)

lemma unat_of_nat_u32: "n < 4294967296 \<Longrightarrow> unat (of_nat n :: u32) = n"
  by (simp add: unat_of_nat take_bit_eq_mod)

lemma unat_of_nat_u8: "n < 256 \<Longrightarrow> unat (of_nat n :: u8) = n"
  by (simp add: unat_of_nat take_bit_eq_mod)

lemma of_nat_unat_u64 [simp]: "(of_nat (unat x) :: u64) = x"
  by simp

lemma of_nat_eq_u64: "m < 18446744073709551616 \<Longrightarrow> n < 18446744073709551616 \<Longrightarrow>
    ((of_nat m :: u64) = of_nat n) = (m = n)"
  by (metis unat_of_nat_u64)

lemma unat_inc_u64: "i < (n::u64) \<Longrightarrow> unat (i + 1) = Suc (unat i)"
  using unat_lt_u64 [of n] by (simp add: unat_word_ariths word_less_nat_alt del: unat_lt_u64)

lemma unat_sub_u64: "(b::u64) \<le> a \<Longrightarrow> unat (a - b) = unat a - unat b"
  by (simp add: unat_sub)

lemma unat_add_u64: "unat a + unat b < 18446744073709551616 \<Longrightarrow> unat (a + b :: u64) = unat a + unat b"
  by (simp add: unat_word_ariths)

lemma unat_mult_u64: "unat a * unat b < 18446744073709551616 \<Longrightarrow> unat (a * b :: u64) = unat a * unat b"
  by (simp add: unat_word_ariths)

lemma uint_inj_u8 [simp]: "uint (x::u8) = uint y \<longleftrightarrow> x = y"
  by (simp add: word_uint_eq_iff)

lemma of_nat_wrap_u64: "(of_nat (18446744073709551616 + k) :: u64) = of_nat k"
proof -
  have "(of_nat 18446744073709551616 :: u64) = 0" by simp
  then show ?thesis by (simp only: of_nat_add add_0)
qed

lemma unat_ucast_u32 [simp]: "unat (ucast (x::u32) :: u64) = unat x"
proof -
  have "unat x < 18446744073709551616" using unat_lt_u32 [of x] by linarith
  then show ?thesis by (simp add: unsigned_ucast_eq take_bit_eq_mod)
qed

text \<open>A difference of words, read as naturals, in the two cases of a wrapping subtraction.\<close>

lemma unat_diff_u64:
  "unat ((a::u64) - b) =
    (if unat b \<le> unat a then unat a - unat b else unat a + 18446744073709551616 - unat b)"
  using unat_sub_if_size [of a b] by (simp add: word_size)

lemma take_take_append: "take n (take n xs @ ys) = take n (xs @ ys)"
  by (simp add: min_def)

section \<open>Counted loops\<close>

text \<open>
  \<open>for (uint64_t i = lo; i < hi; i++) body\<close>. The counter is a word; it never wraps,
  because the body runs only while \<open>i < hi\<close>.
\<close>

function for_u64 :: "u64 \<Rightarrow> u64 \<Rightarrow> (u64 \<Rightarrow> 's \<Rightarrow> 's) \<Rightarrow> 's \<Rightarrow> 's" where
  "for_u64 i hi body s = (if i < hi then for_u64 (i + 1) hi body (body i s) else s)"
  by pat_completeness auto
termination
  by (relation "measure (\<lambda>(i, hi, body, s). unat hi - unat i)")
    (auto simp: unat_inc_u64 word_less_nat_alt)

declare for_u64.simps [simp del]

lemma for_u64_done: "\<not> i < hi \<Longrightarrow> for_u64 i hi body s = s"
  by (subst for_u64.simps) simp

lemma for_u64_step: "i < hi \<Longrightarrow> for_u64 i hi body s = for_u64 (i + 1) hi body (body i s)"
  by (subst for_u64.simps) simp

text \<open>The loop is a fold over the counter's values.\<close>

lemma for_u64_fold:
  "for_u64 i hi body s = fold (\<lambda>k. body (of_nat k)) [unat i..<unat hi] s"
proof (induction i hi body s rule: for_u64.induct)
  case (1 i hi body s)
  show ?case
  proof (cases "i < hi")
    case True
    then have "[unat i..<unat hi] = unat i # [unat (i + 1)..<unat hi]"
      by (simp add: unat_inc_u64 word_less_nat_alt upt_conv_Cons)
    with True 1 show ?thesis by (simp add: for_u64_step)
  next
    case False
    then show ?thesis by (simp add: for_u64_done word_less_nat_alt)
  qed
qed

text \<open>The invariant rule for the loop: \<open>P k s\<close> holds with the counter at \<open>k\<close>.\<close>

lemma for_u64_inv:
  assumes "unat lo \<le> unat hi" and "P (unat lo) s"
    and "\<And>k s. unat lo \<le> k \<Longrightarrow> k < unat hi \<Longrightarrow> P k s \<Longrightarrow> P (Suc k) (body (of_nat k) s)"
  shows "P (unat hi) (for_u64 lo hi body s)"
proof -
  have "P (n + unat lo) (fold (\<lambda>k. body (of_nat k)) [unat lo..<n + unat lo] s)"
    if "n + unat lo \<le> unat hi" for n
    using that assms(2) by (induction n) (auto intro!: assms(3) [of "_ + unat lo", simplified])
  from this [of "unat hi - unat lo"] assms(1) show ?thesis
    by (simp add: for_u64_fold)
qed

text \<open>A loop whose states are known: \<open>R k\<close> is the state with the counter at \<open>k\<close>.\<close>

lemma for_u64_states:
  assumes "unat lo \<le> unat hi" and "\<And>k. unat lo \<le> k \<Longrightarrow> k < unat hi \<Longrightarrow> body (of_nat k) (R k) = R (Suc k)"
  shows "for_u64 lo hi body (R (unat lo)) = R (unat hi)"
  using assms(2) by (intro for_u64_inv [OF assms(1), where P = "\<lambda>k s. s = R k"]) auto

lemma for_u64_preserves: "(\<And>k s. P s \<Longrightarrow> P (body k s)) \<Longrightarrow> P s \<Longrightarrow> P (for_u64 lo hi body s)"
  unfolding for_u64_fold by (rule fold_invariant [where Q = "\<lambda>_. True"]) simp_all

text \<open>\<open>for (size_t i = n; i > 0; i--) body\<close>, and its invariant rule.\<close>

function down_u64 :: "u64 \<Rightarrow> (u64 \<Rightarrow> 's \<Rightarrow> 's) \<Rightarrow> 's \<Rightarrow> 's" where
  "down_u64 i body s = (if 0 < i then down_u64 (i - 1) body (body i s) else s)"
  by pat_completeness auto
termination
  by (relation "measure (\<lambda>(i, body, s). unat i)") (auto simp: unat_diff_u64 word_less_nat_alt)

declare down_u64.simps [simp del]

lemma down_u64_inv:
  assumes "P (unat n) s"
    and "\<And>k s. Suc k \<le> unat n \<Longrightarrow> P (Suc k) s \<Longrightarrow> P k (body (of_nat (Suc k)) s)"
  shows "P 0 (down_u64 n body s)"
proof -
  have "P 0 (down_u64 (of_nat k) body s)" if "k \<le> unat n" and "P k s" for k s
    using that
  proof (induction k arbitrary: s)
    case 0
    then show ?case by (subst down_u64.simps) simp
  next
    case (Suc k)
    have "unat (of_nat (Suc k) :: u64) = Suc k"
      using Suc.prems(1) unat_lt_u64 [of n] by (intro unat_of_nat_u64) linarith
    then have "0 < (of_nat (Suc k) :: u64)"
      by (simp only: word_less_nat_alt) simp
    moreover have "P k (body (of_nat (Suc k)) s)"
      using assms(2) Suc.prems by blast
    moreover from this have "P 0 (down_u64 (of_nat k) body (body (of_nat (Suc k)) s))"
      using Suc by simp
    ultimately show ?case by (subst down_u64.simps) simp
  qed
  from this [of "unat n"] show ?thesis using assms(1) by simp
qed

section \<open>Address ranges\<close>

text \<open>The range of \<open>n\<close> bytes at \<open>a\<close> and the range of \<open>k\<close> bytes at \<open>b\<close> share no address.\<close>

definition apart :: "u64 \<Rightarrow> nat \<Rightarrow> u64 \<Rightarrow> nat \<Rightarrow> bool" where
  "apart a n b k \<longleftrightarrow> n \<le> unat (b - a) \<and> k \<le> unat (a - b)"

lemma apart_sym: "apart a n b k \<Longrightarrow> apart b k a n"
  by (simp add: apart_def)

text \<open>An address inside a range is one whose distance from the start is below its length.\<close>

lemma apart_outside:
  assumes "apart a n b k" and "i < k" and "k \<le> 18446744073709551616"
  shows "n \<le> unat (b + of_nat i - a)"
proof (rule ccontr)
  assume "\<not> n \<le> unat (b + of_nat i - a)"
  then have lt: "unat (b + of_nat i - a) < n" by simp
  define j where "j = unat (b + of_nat i - a)"
  have i: "unat (of_nat i :: u64) = i"
    using assms(2,3) by (intro unat_of_nat_u64) simp
  have eq: "b - a = of_nat j - (of_nat i :: u64)"
    by (simp add: j_def)
  have eq': "a - b = of_nat i - (of_nat j :: u64)"
    by (simp add: j_def)
  have j: "unat (of_nat j :: u64) = j" by (simp add: j_def)
  show False
  proof (cases "i \<le> j")
    case True
    then have "unat (b - a) = j - i" by (simp add: eq unat_diff_u64 i j)
    moreover have "n \<le> unat (b - a)" using assms(1) by (simp add: apart_def)
    ultimately show False using lt unfolding j_def by linarith
  next
    case False
    then have "unat (a - b) = i - j" by (simp add: eq' unat_diff_u64 i j)
    moreover have "k \<le> unat (a - b)" using assms(1) by (simp add: apart_def)
    ultimately show False using assms(2) by linarith
  qed
qed

lemma apart_shift: "apart (b + x) n (b + y) k = apart x n y k"
  by (simp add: apart_def)

lemma apart_shift0: "apart b n (b + y) k = apart 0 n y k" "apart (b + x) n b k = apart x n 0 k"
  using apart_shift [of b 0 n y k] apart_shift [of b x n 0 k] by simp_all

text \<open>The accesses to a field at offset \<open>x\<close> stay inside a structure of \<open>w\<close> bytes.\<close>

lemma outside_field:
  fixes a b x :: u64
  assumes "w \<le> unat (a - b)" and "unat x + n \<le> w"
  shows "n \<le> unat (a - (b + x))"
proof -
  have "unat (a - b - x) = unat (a - b) - unat x"
    using assms by (subst unat_diff_u64 [of "a - b" x]) simp
  then show ?thesis using assms by (simp add: diff_diff_add)
qed

lemma apart_nat:
  assumes "x + n \<le> y \<or> y + k \<le> x" and "x + n \<le> 18446744073709551616" "y + k \<le> 18446744073709551616"
    and "0 < n" "0 < k"
  shows "apart (of_nat x) n (of_nat y) k"
proof -
  have "unat (of_nat x :: u64) = x" "unat (of_nat y :: u64) = y"
    using assms by (auto intro!: unat_of_nat_u64)
  then show ?thesis
    using assms by (auto simp: apart_def unat_diff_u64)
qed

section \<open>Little-endian memory access\<close>

fun ld_le :: "nat \<Rightarrow> mem \<Rightarrow> u64 \<Rightarrow> nat" where
  "ld_le 0 m a = 0"
| "ld_le (Suc n) m a = unat (m a) + 256 * ld_le n m (a + 1)"

fun st_le :: "nat \<Rightarrow> mem \<Rightarrow> u64 \<Rightarrow> nat \<Rightarrow> mem" where
  "st_le 0 m a v = m"
| "st_le (Suc n) m a v = (st_le n m (a + 1) (v div 256))(a := of_nat v)"

lemma ld_le_cong:
  "(\<And>i. i < n \<Longrightarrow> m (a + of_nat i) = m' (a + of_nat i)) \<Longrightarrow> ld_le n m a = ld_le n m' a"
proof (induction n arbitrary: a)
  case 0
  then show ?case by simp
next
  case (Suc n)
  have "m (a + 1 + of_nat i) = m' (a + 1 + of_nat i)" if "i < n" for i
    using Suc.prems [of "Suc i"] that by (simp add: add.assoc)
  from Suc.IH [OF this] Suc.prems [of 0] show ?case by simp
qed

lemma st_le_outside: "n \<le> unat (x - a) \<Longrightarrow> st_le n m a v x = m x"
proof (induction n arbitrary: a v)
  case 0
  then show ?case by simp
next
  case (Suc n)
  then have ne: "x \<noteq> a" by auto
  then have "0 < unat (x - a)" using unat_eq_zero [of "x - a"] by auto
  then have "unat (x - a - 1) = unat (x - a) - 1"
    by (simp add: unat_diff_u64)
  then have "n \<le> unat (x - (a + 1))"
    using Suc.prems by (simp add: diff_diff_add)
  from Suc.IH [OF this] ne show ?case by simp
qed

lemma ld_le_st_le: "n < 18446744073709551616 \<Longrightarrow> ld_le n (st_le n m a v) a = v mod 256 ^ n"
proof (induction n arbitrary: a v)
  case 0
  then show ?case by simp
next
  case (Suc n)
  let ?m = "st_le n m (a + 1) (v div 256)"
  have "(?m(a := of_nat v)) (a + 1 + of_nat i) = ?m (a + 1 + of_nat i)" if "i < n" for i
  proof -
    have "unat (of_nat (Suc i) :: u64) = Suc i"
      using Suc.prems that by (intro unat_of_nat_u64) simp
    then have "(of_nat (Suc i) :: u64) \<noteq> 0" by (metis nat.distinct(1) unat_0)
    moreover have "a + 1 + of_nat i = a + of_nat (Suc i)" by (simp add: add.assoc)
    ultimately have "a + 1 + of_nat i \<noteq> a" by (simp del: of_nat_Suc)
    then show ?thesis by simp
  qed
  then have "ld_le n (?m(a := of_nat v)) (a + 1) = ld_le n ?m (a + 1)"
    by (rule ld_le_cong)
  also have "\<dots> = (v div 256) mod 256 ^ n" using Suc by simp
  finally have "ld_le (Suc n) (st_le (Suc n) m a v) a = v mod 256 + 256 * ((v div 256) mod 256 ^ n)"
    by (simp add: unat_of_nat take_bit_eq_mod)
  also have "\<dots> = v mod 256 ^ Suc n"
    using mod_mult2_eq [of v 256 "256 ^ n"] by simp
  finally show ?case .
qed

lemma ld_le_st_le_apart:
  "apart a n b k \<Longrightarrow> k \<le> 18446744073709551616 \<Longrightarrow> ld_le k (st_le n m a v) b = ld_le k m b"
  by (rule ld_le_cong) (simp add: st_le_outside apart_outside)

definition load16 :: "mem \<Rightarrow> u64 \<Rightarrow> u16" where "load16 m a = of_nat (ld_le 2 m a)"
definition load32 :: "mem \<Rightarrow> u64 \<Rightarrow> u32" where "load32 m a = of_nat (ld_le 4 m a)"
definition load64 :: "mem \<Rightarrow> u64 \<Rightarrow> u64" where "load64 m a = of_nat (ld_le 8 m a)"

definition store32 :: "mem \<Rightarrow> u64 \<Rightarrow> u32 \<Rightarrow> mem" where "store32 m a v = st_le 4 m a (unat v)"
definition store64 :: "mem \<Rightarrow> u64 \<Rightarrow> u64 \<Rightarrow> mem" where "store64 m a v = st_le 8 m a (unat v)"
definition store8 :: "mem \<Rightarrow> u64 \<Rightarrow> u8 \<Rightarrow> mem" where "store8 m a v = m(a := v)"
definition load8 :: "mem \<Rightarrow> u64 \<Rightarrow> u8" where "load8 m a = m a"

text \<open>
  The contract of a memory cell of \<open>width\<close> bytes: what was stored is read back, only the
  cell's own bytes change, and a load depends on those bytes only.
\<close>

locale mem_cell =
  fixes get :: "mem \<Rightarrow> u64 \<Rightarrow> 'v"
    and put :: "mem \<Rightarrow> u64 \<Rightarrow> 'v \<Rightarrow> mem"
    and width :: nat
  assumes width_pos: "0 < width" and width_small: "width < 18446744073709551616"
    and get_put: "get (put m a v) a = v"
    and put_outside: "width \<le> unat (x - a) \<Longrightarrow> put m a v x = m x"
    and get_cong: "(\<And>i. i < width \<Longrightarrow> m (a + of_nat i) = m' (a + of_nat i)) \<Longrightarrow> get m a = get m' a"
begin

lemma put_apart: "apart a width b k \<Longrightarrow> i < k \<Longrightarrow> k \<le> 18446744073709551616 \<Longrightarrow>
    put m a v (b + of_nat i) = m (b + of_nat i)"
  by (intro put_outside apart_outside)

lemma get_put_apart: "apart a width b width \<Longrightarrow> get (put m a v) b = get m b"
  using width_small by (intro get_cong put_apart) auto

end

interpretation cell8: mem_cell load8 store8 1
  by unfold_locales (auto simp: load8_def store8_def)

interpretation cell32: mem_cell load32 store32 4
proof unfold_locales
  show "load32 (store32 m a v) a = v" for m a v
    by (simp add: load32_def store32_def ld_le_st_le)
  show "load32 m a = load32 m' a"
    if "\<And>i. i < 4 \<Longrightarrow> m (a + of_nat i) = m' (a + of_nat i)" for m m' a
    using ld_le_cong [of 4 m a m'] that by (simp add: load32_def)
qed (simp_all add: store32_def st_le_outside)

interpretation cell64: mem_cell load64 store64 8
proof unfold_locales
  show "load64 (store64 m a v) a = v" for m a v
    by (simp add: load64_def store64_def ld_le_st_le)
  show "load64 m a = load64 m' a"
    if "\<And>i. i < 8 \<Longrightarrow> m (a + of_nat i) = m' (a + of_nat i)" for m m' a
    using ld_le_cong [of 8 m a m'] that by (simp add: load64_def)
qed (simp_all add: store64_def st_le_outside)

text \<open>Two cells of different widths: a write to one does not change the other.\<close>

locale two_cells = w: mem_cell wget wput wwidth + r: mem_cell rget rput rwidth
  for wget :: "mem \<Rightarrow> u64 \<Rightarrow> 'v" and wput wwidth
  and rget :: "mem \<Rightarrow> u64 \<Rightarrow> 'w" and rput rwidth
begin

lemma get_other: "apart a wwidth b rwidth \<Longrightarrow> rget (wput m a v) b = rget m b"
  using r.width_small by (intro r.get_cong w.put_apart) auto

end

interpretation c8_32: two_cells load8 store8 1 load32 store32 4 by unfold_locales
interpretation c8_64: two_cells load8 store8 1 load64 store64 8 by unfold_locales
interpretation c32_8: two_cells load32 store32 4 load8 store8 1 by unfold_locales
interpretation c32_64: two_cells load32 store32 4 load64 store64 8 by unfold_locales
interpretation c64_8: two_cells load64 store64 8 load8 store8 1 by unfold_locales
interpretation c64_32: two_cells load64 store64 8 load32 store32 4 by unfold_locales

lemmas [frame_simps] =
  c8_32.get_other c8_64.get_other c32_8.get_other c32_64.get_other c64_8.get_other
  c64_32.get_other cell8.get_put_apart cell32.get_put_apart cell64.get_put_apart

end
