(* ===== verification/Cstring.thy ===== *)
theory Cstring
  imports Prelude
begin

text \<open>
  The string and memory primitives of \<open>string.c\<close>, over byte-addressed memory. The functions
  that return \<open>dest\<close> return the new memory here; the pointer they return is their argument.
  Loops that stop at a NUL byte only are \<open>option\<close>-valued: \<open>None\<close> is a loop that never ends.
  The first part holds the functions as the code has them, the second part relates them to
  byte lists: \<open>cstr m p xs\<close> says that the NUL-terminated string \<open>xs\<close> stands at \<open>p\<close>.
\<close>

section \<open>The functions of string.c\<close>

partial_function (option) strlen_from :: "mem \<Rightarrow> u64 \<Rightarrow> u64 \<Rightarrow> u64 option" where
  "strlen_from m str len = (if m (str + len) \<noteq> 0 then strlen_from m str (len + 1) else Some len)"

definition strlen :: "mem \<Rightarrow> u64 \<Rightarrow> u64 option" where
  "strlen m str = strlen_from m str 0"

partial_function (option) strcmp :: "mem \<Rightarrow> u64 \<Rightarrow> u64 \<Rightarrow> int option" where
  "strcmp m str1 str2 =
    (if m str1 \<noteq> 0 \<and> m str1 = m str2 then strcmp m (str1 + 1) (str2 + 1)
     else Some (uint (m str1) - uint (m str2)))"

function strncmp :: "mem \<Rightarrow> u64 \<Rightarrow> u64 \<Rightarrow> u64 \<Rightarrow> int" where
  "strncmp m str1 str2 n =
    (if n \<noteq> 0 \<and> m str1 \<noteq> 0 \<and> m str1 = m str2 then strncmp m (str1 + 1) (str2 + 1) (n - 1)
     else if n = 0 then 0
     else uint (m str1) - uint (m str2))"
  by pat_completeness auto
termination
  by (relation "measure (\<lambda>(m, str1, str2, n). unat n)")
    (auto simp: unat_diff_u64 unat_eq_zero[symmetric] Suc_le_eq)

text \<open>\<open>while ((*dest++ = *src++)) ;\<close> reads the byte from the memory as written so far.\<close>

partial_function (option) strcpy :: "mem \<Rightarrow> u64 \<Rightarrow> u64 \<Rightarrow> mem option" where
  "strcpy m dest src =
    (let c = m src; m' = m(dest := c)
     in if c \<noteq> 0 then strcpy m' (dest + 1) (src + 1) else Some m')"

function strncpy_copy :: "mem \<Rightarrow> u64 \<Rightarrow> u64 \<Rightarrow> u64 \<Rightarrow> u64 \<Rightarrow> mem \<times> u64" where
  "strncpy_copy m dest src i n =
    (if i < n \<and> m (src + i) \<noteq> 0
     then strncpy_copy (m(dest + i := m (src + i))) dest src (i + 1) n
     else (m, i))"
  by pat_completeness auto
termination
  by (relation "measure (\<lambda>(m, dest, src, i, n). unat n - unat i)")
    (auto simp: unat_inc_u64 word_less_nat_alt)

definition strncpy :: "mem \<Rightarrow> u64 \<Rightarrow> u64 \<Rightarrow> u64 \<Rightarrow> mem" where
  "strncpy m dest src n =
    (case strncpy_copy m dest src 0 n of
      (m', i) \<Rightarrow> for_u64 i n (\<lambda>i m. m(dest + i := 0)) m')"

partial_function (option) skip_to_nul :: "mem \<Rightarrow> u64 \<Rightarrow> u64 option" where
  "skip_to_nul m dest = (if m dest \<noteq> 0 then skip_to_nul m (dest + 1) else Some dest)"

definition strcat :: "mem \<Rightarrow> u64 \<Rightarrow> u64 \<Rightarrow> mem option" where
  "strcat m dest src = Option.bind (skip_to_nul m dest) (\<lambda>d. strcpy m d src)"

partial_function (option) strchr :: "mem \<Rightarrow> u64 \<Rightarrow> u32 \<Rightarrow> u64 option" where
  "strchr m str c =
    (if m str \<noteq> (ucast c :: u8)
     then (if m str = 0 then Some NULL else strchr m (str + 1) c)
     else Some str)"

definition memcpy :: "mem \<Rightarrow> u64 \<Rightarrow> u64 \<Rightarrow> u64 \<Rightarrow> mem" where
  "memcpy m dest src n = for_u64 0 n (\<lambda>i m. m(dest + i := m (src + i))) m"

definition memset :: "mem \<Rightarrow> u64 \<Rightarrow> u32 \<Rightarrow> u64 \<Rightarrow> mem" where
  "memset m ptr value n = for_u64 0 n (\<lambda>i m. m(ptr + i := ucast value)) m"

function memcmp_from :: "mem \<Rightarrow> u64 \<Rightarrow> u64 \<Rightarrow> u64 \<Rightarrow> u64 \<Rightarrow> int" where
  "memcmp_from m p1 p2 i n =
    (if i < n then
       if m (p1 + i) \<noteq> m (p2 + i) then uint (m (p1 + i)) - uint (m (p2 + i))
       else memcmp_from m p1 p2 (i + 1) n
     else 0)"
  by pat_completeness auto
termination
  by (relation "measure (\<lambda>(m, p1, p2, i, n). unat n - unat i)")
    (auto simp: unat_inc_u64 word_less_nat_alt)

definition memcmp :: "mem \<Rightarrow> u64 \<Rightarrow> u64 \<Rightarrow> u64 \<Rightarrow> int" where
  "memcmp m ptr1 ptr2 n = memcmp_from m ptr1 ptr2 0 n"

definition memmove :: "mem \<Rightarrow> u64 \<Rightarrow> u64 \<Rightarrow> u64 \<Rightarrow> mem" where
  "memmove m dest src n =
    (if dest < src then for_u64 0 n (\<lambda>i m. m(dest + i := m (src + i))) m
     else down_u64 n (\<lambda>i m. m(dest + (i - 1) := m (src + (i - 1)))) m)"

declare strncmp.simps [simp del] strncpy_copy.simps [simp del] memcmp_from.simps [simp del]

section \<open>Block copies and fills\<close>

text \<open>The reference: all \<open>n\<close> bytes copied at once from the old memory.\<close>

definition copy_ref :: "mem \<Rightarrow> u64 \<Rightarrow> u64 \<Rightarrow> nat \<Rightarrow> mem" where
  "copy_ref m dest src n = (\<lambda>x. if unat (x - dest) < n then m (src + (x - dest)) else m x)"

lemma copy_ref_step:
  assumes "k < 18446744073709551616" and "\<not> unat (src + of_nat k - dest) < k"
  shows "(copy_ref m dest src k)(dest + of_nat k := copy_ref m dest src k (src + of_nat k))
    = copy_ref m dest src (Suc k)"
proof
  fix x
  have "x = dest + of_nat k \<longleftrightarrow> unat (x - dest) = k"
  proof
    assume "x = dest + of_nat k"
    then show "unat (x - dest) = k" using assms(1) by (simp add: unat_of_nat_u64)
  next
    assume "unat (x - dest) = k"
    then have "of_nat k = x - dest" by (metis of_nat_unat_u64)
    then show "x = dest + of_nat k" by simp
  qed
  then show "((copy_ref m dest src k)(dest + of_nat k := copy_ref m dest src k (src + of_nat k))) x
    = copy_ref m dest src (Suc k) x"
    using assms by (auto simp: copy_ref_def less_Suc_eq)
qed

lemma forward_copy:
  assumes "\<And>k. k < unat n \<Longrightarrow> \<not> unat (src + of_nat k - dest) < k"
  shows "for_u64 0 n (\<lambda>i m. m(dest + i := m (src + i))) m = copy_ref m dest src (unat n)"
proof -
  show ?thesis
  proof (rule for_u64_inv [where P = "\<lambda>k M. M = copy_ref m dest src k"])
    show "m = copy_ref m dest src (unat 0)" by (simp add: copy_ref_def)
    show "M(dest + of_nat k := M (src + of_nat k)) = copy_ref m dest src (Suc k)"
      if "unat 0 \<le> k" "k < unat n" "M = copy_ref m dest src k" for k M
    proof -
      have "k < 18446744073709551616" using that(2) unat_lt_u64 [of n] by linarith
      from copy_ref_step [OF this assms [OF that(2)]] that(3) show ?thesis by simp
    qed
  qed simp
qed

lemma memcpy_apart:
  "apart dest (unat n) src (unat n) \<Longrightarrow> memcpy m dest src n = copy_ref m dest src (unat n)"
  unfolding memcpy_def
  by (rule forward_copy) (meson apart_outside less_le_not_le less_trans not_le unat_lt_u64 order.strict_implies_order)

lemma unat_le_u64: "unat (n::u64) \<le> 18446744073709551616"
  by (simp add: less_imp_le)

lemma memcpy_upto:
  "unat dest \<le> unat src \<Longrightarrow> unat src + unat n \<le> 18446744073709551616 \<Longrightarrow>
   memcpy m dest src n = copy_ref m dest src (unat n)"
  unfolding memcpy_def
proof (rule forward_copy)
  fix k assume le: "unat dest \<le> unat src" "unat src + unat n \<le> 18446744073709551616"
    and k: "k < unat n"
  then have k64: "unat (of_nat k :: u64) = k" by (intro unat_of_nat_u64) simp
  with le k have "unat (src + of_nat k) = unat src + k"
    by (subst unat_add_u64) auto
  with le k k64 show "\<not> unat (src + of_nat k - dest) < k"
    by (simp add: unat_diff_u64)
qed

lemma backward_copy:
  assumes le: "unat src \<le> unat dest" and d: "unat dest + unat n \<le> 18446744073709551616"
  shows "down_u64 n (\<lambda>i m. m(dest + (i - 1) := m (src + (i - 1)))) m = copy_ref m dest src (unat n)"
proof -
  define part where "part k x =
    (if k \<le> unat (x - dest) \<and> unat (x - dest) < unat n then m (src + (x - dest)) else m x)" for k x
  have "down_u64 n (\<lambda>i m. m(dest + (i - 1) := m (src + (i - 1)))) m = part 0"
  proof (rule down_u64_inv [where P = "\<lambda>k M. M = part k"])
    show "m = part (unat n)" unfolding part_def by (rule ext) auto
    fix k M assume k: "Suc k \<le> unat n" and M: "M = part (Suc k)"
    let ?i = "of_nat (Suc k) :: u64"
    have k64: "unat (of_nat k :: u64) = k"
      using k unat_lt_u64 [of n] by (intro unat_of_nat_u64) linarith
    have src_k: "unat (src + of_nat k) = unat src + k"
      using le d k k64 by (subst unat_add_u64) auto
    have "unat (src + of_nat k - dest) \<le> k \<or> unat n \<le> unat (src + of_nat k - dest)"
      using le d k by (auto simp: unat_diff_u64 src_k)
    then have rd: "M (src + of_nat k) = m (src + of_nat k)"
      by (auto simp: M part_def)
    show "M(dest + (?i - 1) := M (src + (?i - 1))) = part k"
    proof
      fix x
      have "x = dest + of_nat k \<longleftrightarrow> unat (x - dest) = k"
        using k64 by (metis add_diff_cancel_left' diff_add_cancel add.commute of_nat_unat_u64)
      then show "(M(dest + (?i - 1) := M (src + (?i - 1)))) x = part k x"
        using k rd by (auto simp: M part_def)
    qed
  qed
  then show ?thesis by (auto simp: part_def copy_ref_def)
qed

lemma memset_eq:
  "memset m p v n x = (if unat (x - p) < unat n then ucast v else m x)"
proof -
  have "memset m p v n = (\<lambda>x. if unat (x - p) < unat n then ucast v else m x)"
    unfolding memset_def
  proof (rule for_u64_inv [where P = "\<lambda>k M. M = (\<lambda>x. if unat (x - p) < k then ucast v else m x)"])
    fix k M assume k: "k < unat n" and M: "M = (\<lambda>x. if unat (x - p) < k then ucast v else m x)"
    have k64: "unat (of_nat k :: u64) = k"
      using k unat_lt_u64 [of n] by (intro unat_of_nat_u64) linarith
    have "x = p + of_nat k \<longleftrightarrow> unat (x - p) = k" for x
      using k64 by (metis add_diff_cancel_left' diff_add_cancel add.commute of_nat_unat_u64)
    then show "M(p + of_nat k := ucast v) = (\<lambda>x. if unat (x - p) < Suc k then ucast v else m x)"
      by (auto simp: M less_Suc_eq)
  qed simp_all
  then show ?thesis by simp
qed

text \<open>\<open>memcmp\<close> returns the difference of the first pair of bytes that differ, else 0.\<close>

fun cmp_bytes :: "u8 list \<Rightarrow> u8 list \<Rightarrow> int" where
  "cmp_bytes (x # xs) (y # ys) = (if x \<noteq> y then uint x - uint y else cmp_bytes xs ys)"
| "cmp_bytes [] (y # ys) = - uint y"
| "cmp_bytes (x # xs) [] = uint x"
| "cmp_bytes [] [] = 0"

definition bytes :: "mem \<Rightarrow> u64 \<Rightarrow> nat \<Rightarrow> u8 list" where
  "bytes m p n = map (\<lambda>i. m (p + of_nat i)) [0..<n]"

lemma bytes_Suc: "bytes m p (Suc n) = m p # bytes m (p + 1) n"
  unfolding bytes_def upt_conv_Cons [OF zero_less_Suc]
  by (simp add: map_Suc_upt [symmetric] add.assoc del: upt_Suc)

lemma bytes_0 [simp]: "bytes m p 0 = []"
  by (simp add: bytes_def)

lemma length_bytes [simp]: "length (bytes m p n) = n"
  by (simp add: bytes_def)

lemma memcmp_from_bytes:
  "memcmp_from m p q i n = cmp_bytes (bytes m (p + i) (unat n - unat i)) (bytes m (q + i) (unat n - unat i))"
proof (induction m p q i n rule: memcmp_from.induct)
  case (1 m p q i n)
  show ?case
  proof (cases "i < n")
    case True
    then obtain k where k: "unat n - unat i = Suc k" "unat n - unat (i + 1) = k"
      by (metis Suc_diff_Suc unat_inc_u64 word_less_nat_alt)
    with 1 True show ?thesis
      by (subst memcmp_from.simps) (auto simp: k bytes_Suc add.assoc)
  next
    case False
    then show ?thesis by (subst memcmp_from.simps) (simp add: word_less_nat_alt)
  qed
qed

lemma cmp_bytes_eq_0: "0 \<notin> set xs \<Longrightarrow> 0 \<notin> set ys \<Longrightarrow> cmp_bytes xs ys = 0 \<longleftrightarrow> xs = ys"
  by (induction xs ys rule: cmp_bytes.induct) (auto simp: uint_0_iff)

lemma cmp_bytes_same_length: "length xs = length ys \<Longrightarrow> cmp_bytes xs ys = 0 \<longleftrightarrow> xs = ys"
  by (induction xs ys rule: cmp_bytes.induct) auto

section \<open>NUL-terminated strings\<close>

fun cstr :: "mem \<Rightarrow> u64 \<Rightarrow> u8 list \<Rightarrow> bool" where
  "cstr m p [] \<longleftrightarrow> m p = 0"
| "cstr m p (x # xs) \<longleftrightarrow> m p = x \<and> x \<noteq> 0 \<and> cstr m (p + 1) xs"

lemma cstr_no_nul: "cstr m p xs \<Longrightarrow> 0 \<notin> set xs"
  by (induction xs arbitrary: p) auto

lemma cstr_unique: "cstr m p xs \<Longrightarrow> cstr m p ys \<Longrightarrow> xs = ys"
proof (induction xs arbitrary: p ys)
  case Nil
  then show ?case by (cases ys) auto
next
  case (Cons x xs)
  then show ?case by (cases ys) auto
qed

lemma cstr_nth: "cstr m p xs \<Longrightarrow> i < length xs \<Longrightarrow> m (p + of_nat i) = xs ! i"
proof (induction xs arbitrary: p i)
  case (Cons x xs)
  then show ?case by (cases i) (auto simp: add.assoc [symmetric])
qed simp

lemma cstr_end: "cstr m p xs \<Longrightarrow> m (p + of_nat (length xs)) = 0"
  by (induction xs arbitrary: p) (auto simp: add.assoc [symmetric])

lemma cstr_intro:
  "(\<And>i. i < length xs \<Longrightarrow> m (p + of_nat i) = xs ! i) \<Longrightarrow> 0 \<notin> set xs \<Longrightarrow>
   m (p + of_nat (length xs)) = 0 \<Longrightarrow> cstr m p xs"
proof (induction xs arbitrary: p)
  case (Cons x xs)
  have "m (p + 1 + of_nat i) = xs ! i" if "i < length xs" for i
    using Cons.prems(1) [of "Suc i"] that by (simp add: add.assoc)
  moreover have "m p = x" using Cons.prems(1) [of 0] by simp
  ultimately show ?case using Cons.IH [of "p + 1"] Cons.prems(2,3) by (auto simp: add.assoc)
qed simp

text \<open>A string cannot be longer than the address space: its NUL would be one of its bytes.\<close>

lemma cstr_length: "cstr m p xs \<Longrightarrow> length xs < 18446744073709551616"
proof (rule ccontr)
  assume c: "cstr m p xs" and "\<not> length xs < 18446744073709551616"
  then obtain k where k: "length xs = 18446744073709551616 + k"
    by (metis le_add_diff_inverse not_le)
  have "m (p + of_nat k) = 0"
    using cstr_end [OF c] by (simp only: k of_nat_wrap_u64)
  moreover have "m (p + of_nat k) = xs ! k" using cstr_nth [OF c, of k] k by simp
  ultimately show False using cstr_no_nul [OF c] k by (metis less_add_same_cancel2 nth_mem zero_less_numeral)
qed

lemma strlen_from_cstr: "cstr m (p + k) xs \<Longrightarrow> strlen_from m p k = Some (k + of_nat (length xs))"
proof (induction xs arbitrary: k)
  case Nil
  then show ?case by (subst strlen_from.simps) simp
next
  case (Cons x xs)
  then have "strlen_from m p (k + 1) = Some (k + 1 + of_nat (length xs))"
    by (simp add: add.assoc)
  with Cons.prems show ?case by (subst strlen_from.simps) (auto simp: add.assoc)
qed

lemma strlen_cstr: "cstr m p xs \<Longrightarrow> strlen m p = Some (of_nat (length xs))"
  using strlen_from_cstr [of m p 0 xs] by (simp add: strlen_def)

lemma strcmp_cstr: "cstr m p xs \<Longrightarrow> cstr m q ys \<Longrightarrow> strcmp m p q = Some (cmp_bytes xs ys)"
proof (induction xs ys arbitrary: p q rule: cmp_bytes.induct)
  case (1 x xs y ys)
  then show ?case by (subst strcmp.simps) auto
qed (subst strcmp.simps, auto)+

lemma strncmp_cstr: "cstr m p xs \<Longrightarrow> cstr m q ys \<Longrightarrow>
    strncmp m p q n = cmp_bytes (take (unat n) xs) (take (unat n) ys)"
proof (induction xs ys arbitrary: p q n rule: cmp_bytes.induct)
  case (1 x xs y ys)
  show ?case
  proof (cases "n = 0")
    case True
    then show ?thesis by (subst strncmp.simps) simp
  next
    case False
    then obtain k where k: "unat n = Suc k" by (metis not0_implies_Suc unat_eq_zero)
    then have k': "unat (n - 1) = k" by (simp add: unat_diff_u64)
    have "strncmp m (p + 1) (q + 1) (n - 1) = cmp_bytes (take k xs) (take k ys)" if "x = y"
      using 1 that k' by simp
    with 1 False show ?thesis by (subst strncmp.simps) (auto simp: k)
  qed
next
  case (2 y ys)
  then show ?case by (auto simp: strncmp.simps [of m p q n] take_Cons' unat_eq_zero)
next
  case (3 x xs)
  then show ?case by (auto simp: strncmp.simps [of m p q n] take_Cons' unat_eq_zero)
next
  case 4
  then show ?case by (auto simp: strncmp.simps [of m p q n])
qed

text \<open>Copying a string: one byte at a time is the block copy of the string and its NUL.\<close>

lemma copy_ref_first:
  assumes ap: "apart d (Suc k) s (Suc k)" and k: "Suc k \<le> 18446744073709551616"
  shows "copy_ref (m(d := m s)) (d + 1) (s + 1) k = copy_ref m d s (Suc k)"
proof
  fix x
  show "copy_ref (m(d := m s)) (d + 1) (s + 1) k x = copy_ref m d s (Suc k) x"
  proof (cases "x = d")
    case True
    then show ?thesis using k by (simp add: copy_ref_def)
  next
    case False
    then have pos: "0 < unat (x - d)" using unat_eq_zero [of "x - d"] by auto
    then have "unat (x - d - 1) = unat (x - d) - 1" by (simp add: unat_diff_u64)
    then have e: "unat (x - (d + 1)) = unat (x - d) - 1" by (simp add: diff_diff_add)
    have "s + (x - d) \<noteq> d" if "unat (x - d) < Suc k"
      using apart_outside [OF ap that k] by auto
    with pos False show ?thesis by (auto simp: copy_ref_def e)
  qed
qed

lemma cstr_upd_outside:
  "cstr m p xs \<Longrightarrow> Suc (length xs) \<le> unat (d - p) \<Longrightarrow> cstr (m(d := v)) p xs"
proof (induction xs arbitrary: p)
  case Nil
  then show ?case by auto
next
  case (Cons x xs)
  then have "unat (d - p - 1) = unat (d - p) - 1" by (simp add: unat_diff_u64)
  then have "Suc (length xs) \<le> unat (d - (p + 1))" using Cons.prems by (simp add: diff_diff_add)
  with Cons show ?case by auto
qed

lemma strcpy_cstr:
  "cstr m s xs \<Longrightarrow> apart d (Suc (length xs)) s (Suc (length xs)) \<Longrightarrow>
   strcpy m d s = Some (copy_ref m d s (Suc (length xs)))"
proof (induction xs arbitrary: m d s)
  case Nil
  have "copy_ref m d s (Suc 0) = m(d := m s)"
    by (auto simp: copy_ref_def fun_eq_iff unat_eq_zero)
  with Nil show ?case by (subst strcpy.simps) simp
next
  case (Cons x xs)
  let ?m = "m(d := m s)"
  have "Suc (length xs) < 18446744073709551616" using cstr_length [OF Cons.prems(1)] by simp
  moreover have "unat (d - (s + 1)) = unat (d - s) - 1"
    using Cons.prems(2) by (subst diff_diff_add [symmetric]) (simp add: unat_diff_u64 apart_def)
  ultimately have "cstr ?m (s + 1) xs"
    using Cons.prems by (intro cstr_upd_outside) (auto simp: apart_def)
  moreover have "apart (d + 1) (Suc (length xs)) (s + 1) (Suc (length xs))"
    using Cons.prems(2) by (simp add: apart_def)
  ultimately have "strcpy ?m (d + 1) (s + 1) = Some (copy_ref ?m (d + 1) (s + 1) (Suc (length xs)))"
    by (rule Cons.IH)
  moreover have "copy_ref ?m (d + 1) (s + 1) (Suc (length xs)) = copy_ref m d s (Suc (Suc (length xs)))"
    using Cons.prems cstr_length [OF Cons.prems(1)] by (intro copy_ref_first) auto
  ultimately show ?case using Cons.prems by (subst strcpy.simps) (simp add: Let_def)
qed

lemma copy_ref_inside:
  "i < n \<Longrightarrow> n \<le> 18446744073709551616 \<Longrightarrow> copy_ref m d s n (d + of_nat i) = m (s + of_nat i)"
  by (simp add: copy_ref_def unat_of_nat_u64)

lemma copy_ref_outside: "n \<le> unat (x - d) \<Longrightarrow> copy_ref m d s n x = m x"
  by (simp add: copy_ref_def)

lemma cstr_copy_ref:
  "cstr m s xs \<Longrightarrow> cstr (copy_ref m d s (Suc (length xs))) d xs"
proof (rule cstr_intro)
  assume c: "cstr m s xs"
  note len = cstr_length [OF c]
  show "copy_ref m d s (Suc (length xs)) (d + of_nat i) = xs ! i" if "i < length xs" for i
    using that len cstr_nth [OF c that] by (simp add: copy_ref_inside)
  show "copy_ref m d s (Suc (length xs)) (d + of_nat (length xs)) = 0"
    using len cstr_end [OF c] by (simp add: copy_ref_inside)
qed (rule cstr_no_nul)

lemma skip_to_nul_cstr: "cstr m p xs \<Longrightarrow> skip_to_nul m p = Some (p + of_nat (length xs))"
proof (induction xs arbitrary: p)
  case Nil
  then show ?case by (subst skip_to_nul.simps) simp
next
  case (Cons x xs)
  then show ?case by (subst skip_to_nul.simps) (auto simp: add.assoc)
qed

lemma strchr_cstr:
  "cstr m p xs \<Longrightarrow> strchr m p c =
    (if ucast c \<in> set xs then Some (p + of_nat (length (takeWhile (\<lambda>x. x \<noteq> ucast c) xs)))
     else if (ucast c :: u8) = 0 then Some (p + of_nat (length xs)) else Some NULL)"
proof (induction xs arbitrary: p)
  case Nil
  then show ?case by (subst strchr.simps) simp
next
  case (Cons x xs)
  then show ?case by (subst strchr.simps) (auto simp: add.assoc)
qed

text \<open>\<open>strncpy\<close>: the copying loop stops at the NUL or at \<open>n\<close>, the second loop pads with zeros.\<close>

lemma strncpy_copy_cstr:
  assumes c: "cstr m s xs" and ap: "apart d (unat n) s (Suc (length xs))"
    and l: "l = min (unat n) (length xs)" and k: "k \<le> l"
  shows "strncpy_copy (copy_ref m d s k) d s (of_nat k) n = (copy_ref m d s l, of_nat l)"
  using k
proof (induction "l - k" arbitrary: k)
  case 0
  then have "k = l" by simp
  have len: "Suc (length xs) \<le> 18446744073709551616" using cstr_length [OF c] by simp
  have l64: "unat (of_nat l :: u64) = l"
    using l unat_lt_u64 [of n] by (intro unat_of_nat_u64) linarith
  have "copy_ref m d s l (s + of_nat l) = m (s + of_nat l)"
  proof (rule copy_ref_outside)
    have "unat n \<le> unat (s + of_nat l - d)"
      using l len by (intro apart_outside [OF ap]) auto
    then show "l \<le> unat (s + of_nat l - d)" using l by simp
  qed
  moreover have "m (s + of_nat l) = 0" if "\<not> unat n \<le> length xs"
    using that l cstr_end [OF c] by simp
  ultimately show ?case
    using l l64 \<open>k = l\<close> by (subst strncpy_copy.simps) (auto simp: word_less_nat_alt)
next
  case (Suc j)
  then have lt: "k < l" by simp
  then have k64: "k < 18446744073709551616" "unat (of_nat k :: u64) = k"
    using l unat_lt_u64 [of n] by (auto intro!: unat_of_nat_u64 elim: less_trans)
  have len: "Suc (length xs) \<le> 18446744073709551616" using cstr_length [OF c] by simp
  have out: "unat n \<le> unat (s + of_nat k - d)"
    using lt l len by (intro apart_outside [OF ap]) auto
  have rd: "copy_ref m d s k (s + of_nat k) = m (s + of_nat k)"
    using out lt l by (simp add: copy_ref_def)
  have "m (s + of_nat k) \<noteq> 0"
    using lt l cstr_nth [OF c, of k] cstr_no_nul [OF c] by (metis min_less_iff_conj nth_mem)
  moreover have "(copy_ref m d s k)(d + of_nat k := m (s + of_nat k)) = copy_ref m d s (Suc k)"
    using copy_ref_step [of k s d m] k64 out lt l by (simp add: rd)
  moreover have "of_nat k + 1 = (of_nat (Suc k) :: u64)" by simp
  moreover have "strncpy_copy (copy_ref m d s (Suc k)) d s (of_nat (Suc k)) n = (copy_ref m d s l, of_nat l)"
    using Suc.hyps(1) [of "Suc k"] Suc.hyps(2) lt by simp
  ultimately show ?case
    using lt l k64 rd by (subst strncpy_copy.simps) (simp add: word_less_nat_alt del: of_nat_Suc)
qed

lemma strncpy_cstr:
  assumes c: "cstr m s xs" and ap: "apart d (unat n) s (Suc (length xs))"
  shows "strncpy m d s n x =
    (if unat (x - d) < unat n
     then if unat (x - d) < length xs then xs ! unat (x - d) else 0
     else m x)"
proof -
  define l where "l = min (unat n) (length xs)"
  have l64: "unat (of_nat l :: u64) = l"
    using unat_lt_u64 [of n] by (intro unat_of_nat_u64) (simp add: l_def min_less_iff_disj)
  let ?M = "\<lambda>k x. if l \<le> unat (x - d) \<and> unat (x - d) < k then 0 else copy_ref m d s l x"
  have c0: "copy_ref m d s 0 = m" by (simp add: copy_ref_def)
  have "strncpy_copy m d s 0 n = (copy_ref m d s l, of_nat l)"
    using strncpy_copy_cstr [OF c ap l_def, of 0] by (simp add: c0)
  then have "strncpy m d s n = for_u64 (of_nat l) n (\<lambda>i m. m(d + i := 0)) (copy_ref m d s l)"
    by (simp add: strncpy_def)
  also have "\<dots> = ?M (unat n)"
  proof (rule for_u64_inv [where P = "\<lambda>k M. M = ?M k"])
    fix k M assume k: "unat (of_nat l :: u64) \<le> k" "k < unat n" and M: "M = ?M k"
    have "unat (of_nat k :: u64) = k"
      using k unat_lt_u64 [of n] by (intro unat_of_nat_u64) linarith
    then have "x = d + of_nat k \<longleftrightarrow> unat (x - d) = k" for x
      by (metis add_diff_cancel_left' diff_add_cancel add.commute of_nat_unat_u64)
    then show "M(d + of_nat k := 0) = ?M (Suc k)"
      using k l64 by (auto simp: M less_Suc_eq)
  next
    show "copy_ref m d s l = ?M (unat (of_nat l :: u64))" unfolding l64 by (rule ext) auto
  next
    show "unat (of_nat l :: u64) \<le> unat n" unfolding l64 by (simp add: l_def)
  qed
  finally have eq: "strncpy m d s n x = ?M (unat n) x" by simp
  have "m (s + (x - d)) = xs ! unat (x - d)" if "unat (x - d) < length xs"
    using cstr_nth [OF c that] by simp
  then show ?thesis by (auto simp: eq copy_ref_def l_def)
qed

end
