(* ===== verification/Terminal.thy ===== *)
theory Terminal
  imports Prelude
begin

text \<open>
  The VGA text driver (\<open>terminal.c\<close>, \<open>terminal.h\<close>). The screen is the cell array at
  \<open>VGA_MEMORY\<close>, a function from the cell index to a 16-bit entry; nothing in the driver
  checks the index, so that every write stays inside the 80 x 25 cells is a theorem.
  The other components reach the terminal through the calls collected in \<open>tcall\<close>: a
  component's operation appends the calls it makes to the \<open>console\<close> of the machine, and
  \<open>run_calls\<close> gives those calls their effect on the screen. The driver returns nothing to
  its callers, so no component's behaviour depends on the screen.
\<close>

section \<open>Colours and cells\<close>

datatype vga_color =
    VGA_COLOR_BLACK | VGA_COLOR_BLUE | VGA_COLOR_GREEN | VGA_COLOR_CYAN | VGA_COLOR_RED
  | VGA_COLOR_MAGENTA | VGA_COLOR_BROWN | VGA_COLOR_LIGHT_GREY | VGA_COLOR_DARK_GREY
  | VGA_COLOR_LIGHT_BLUE | VGA_COLOR_LIGHT_GREEN | VGA_COLOR_LIGHT_CYAN | VGA_COLOR_LIGHT_RED
  | VGA_COLOR_LIGHT_MAGENTA | VGA_COLOR_LIGHT_BROWN | VGA_COLOR_WHITE | VGA_COLOR_YELLOW

primrec vga_code :: "vga_color \<Rightarrow> u32" where
  "vga_code VGA_COLOR_BLACK = 0"
| "vga_code VGA_COLOR_BLUE = 1"
| "vga_code VGA_COLOR_GREEN = 2"
| "vga_code VGA_COLOR_CYAN = 3"
| "vga_code VGA_COLOR_RED = 4"
| "vga_code VGA_COLOR_MAGENTA = 5"
| "vga_code VGA_COLOR_BROWN = 6"
| "vga_code VGA_COLOR_LIGHT_GREY = 7"
| "vga_code VGA_COLOR_DARK_GREY = 8"
| "vga_code VGA_COLOR_LIGHT_BLUE = 9"
| "vga_code VGA_COLOR_LIGHT_GREEN = 10"
| "vga_code VGA_COLOR_LIGHT_CYAN = 11"
| "vga_code VGA_COLOR_LIGHT_RED = 12"
| "vga_code VGA_COLOR_LIGHT_MAGENTA = 13"
| "vga_code VGA_COLOR_LIGHT_BROWN = 14"
| "vga_code VGA_COLOR_WHITE = 15"
| "vga_code VGA_COLOR_YELLOW = 16"

definition vga_entry_color :: "vga_color \<Rightarrow> vga_color \<Rightarrow> u8" where
  "vga_entry_color fg bg = ucast (vga_code fg OR push_bit 4 (vga_code bg))"

definition vga_entry :: "u8 \<Rightarrow> u8 \<Rightarrow> u16" where
  "vga_entry c color = ucast c OR push_bit 8 (ucast color)"

definition VGA_WIDTH :: u64 where "VGA_WIDTH = 80"
definition VGA_HEIGHT :: u64 where "VGA_HEIGHT = 25"
definition SHADOW_CHAR :: u8 where "SHADOW_CHAR = 0xB0"
definition BOX_SINGLE_TOP_LEFT :: u8 where "BOX_SINGLE_TOP_LEFT = 0xDA"
definition BOX_SINGLE_TOP_RIGHT :: u8 where "BOX_SINGLE_TOP_RIGHT = 0xBF"
definition BOX_SINGLE_BOTTOM_LEFT :: u8 where "BOX_SINGLE_BOTTOM_LEFT = 0xC0"
definition BOX_SINGLE_BOTTOM_RIGHT :: u8 where "BOX_SINGLE_BOTTOM_RIGHT = 0xD9"
definition BOX_SINGLE_HORIZONTAL :: u8 where "BOX_SINGLE_HORIZONTAL = 0xC4"
definition BOX_SINGLE_VERTICAL :: u8 where "BOX_SINGLE_VERTICAL = 0xB3"
definition BOX_DOUBLE_TOP_LEFT :: u8 where "BOX_DOUBLE_TOP_LEFT = 0xC9"
definition BOX_DOUBLE_TOP_RIGHT :: u8 where "BOX_DOUBLE_TOP_RIGHT = 0xBB"
definition BOX_DOUBLE_BOTTOM_LEFT :: u8 where "BOX_DOUBLE_BOTTOM_LEFT = 0xC8"
definition BOX_DOUBLE_BOTTOM_RIGHT :: u8 where "BOX_DOUBLE_BOTTOM_RIGHT = 0xBC"
definition BOX_DOUBLE_HORIZONTAL :: u8 where "BOX_DOUBLE_HORIZONTAL = 0xCD"
definition BOX_DOUBLE_VERTICAL :: u8 where "BOX_DOUBLE_VERTICAL = 0xBA"

lemmas vga_size = VGA_WIDTH_def VGA_HEIGHT_def

abbreviation newline :: u8 where "newline \<equiv> 10"
abbreviation backspace :: u8 where "backspace \<equiv> 8"
abbreviation blank :: u8 where "blank \<equiv> 32"

text \<open>The bytes of a string literal.\<close>

definition lit :: "string \<Rightarrow> u8 list" where
  "lit s = map of_char s"

section \<open>State and primitive operations\<close>

record terminal =
  terminal_row :: u64
  terminal_column :: u64
  terminal_color :: u8
  terminal_buffer :: "u64 \<Rightarrow> u16"

definition put_cell :: "u64 \<Rightarrow> u16 \<Rightarrow> terminal \<Rightarrow> terminal" where
  "put_cell index e t = t\<lparr>terminal_buffer := (terminal_buffer t)(index := e)\<rparr>"

definition terminal_initialize :: "terminal \<Rightarrow> terminal" where
  "terminal_initialize t =
    (let t = t\<lparr>terminal_row := 0, terminal_column := 0,
               terminal_color := vga_entry_color VGA_COLOR_LIGHT_GREY VGA_COLOR_BLACK\<rparr>
     in for_u64 0 VGA_HEIGHT (\<lambda>y. for_u64 0 VGA_WIDTH (\<lambda>x t.
          put_cell (y * VGA_WIDTH + x) (vga_entry blank (terminal_color t)) t)) t)"

definition terminal_setcolor :: "u8 \<Rightarrow> terminal \<Rightarrow> terminal" where
  "terminal_setcolor color t = t\<lparr>terminal_color := color\<rparr>"

definition terminal_putentryat :: "u8 \<Rightarrow> u8 \<Rightarrow> u64 \<Rightarrow> u64 \<Rightarrow> terminal \<Rightarrow> terminal" where
  "terminal_putentryat c color x y t = put_cell (y * VGA_WIDTH + x) (vga_entry c color) t"

definition terminal_scroll :: "terminal \<Rightarrow> terminal" where
  "terminal_scroll t =
    (let t = for_u64 0 (VGA_HEIGHT - 1) (\<lambda>y. for_u64 0 VGA_WIDTH (\<lambda>x t.
               put_cell (y * VGA_WIDTH + x) (terminal_buffer t ((y + 1) * VGA_WIDTH + x)) t)) t;
         t = for_u64 0 VGA_WIDTH (\<lambda>x t.
               put_cell ((VGA_HEIGHT - 1) * VGA_WIDTH + x) (vga_entry blank (terminal_color t)) t) t
     in t\<lparr>terminal_row := VGA_HEIGHT - 1\<rparr>)"

definition next_row :: "terminal \<Rightarrow> terminal" where
  "next_row t =
    (let t = t\<lparr>terminal_column := 0, terminal_row := terminal_row t + 1\<rparr>
     in if terminal_row t = VGA_HEIGHT then terminal_scroll t else t)"

definition terminal_putchar :: "u8 \<Rightarrow> terminal \<Rightarrow> terminal" where
  "terminal_putchar c t =
    (if c = newline then next_row t
     else if c = backspace then
       (if 0 < terminal_column t then
          let t = t\<lparr>terminal_column := terminal_column t - 1\<rparr>
          in terminal_putentryat blank (terminal_color t) (terminal_column t) (terminal_row t) t
        else t)
     else
       let t = terminal_putentryat c (terminal_color t) (terminal_column t) (terminal_row t) t;
           t = t\<lparr>terminal_column := terminal_column t + 1\<rparr>
       in if terminal_column t = VGA_WIDTH then next_row t else t)"

definition terminal_write :: "u8 list \<Rightarrow> nat \<Rightarrow> terminal \<Rightarrow> terminal" where
  "terminal_write data n t = fold terminal_putchar (take n data) t"

text \<open>The argument is the string's bytes up to its NUL, which \<open>strlen\<close> counts.\<close>

definition terminal_writestring :: "u8 list \<Rightarrow> terminal \<Rightarrow> terminal" where
  "terminal_writestring data t = terminal_write data (length data) t"

section \<open>Numbers\<close>

definition hex_chars :: "u8 list" where
  "hex_chars = lit ''0123456789ABCDEF''"

definition hex_buffer :: "u64 \<Rightarrow> u8 list" where
  "hex_buffer value =
    fst (fold (\<lambda>i (buffer, value). (buffer[i := hex_chars ! unat (value AND 15)], drop_bit 4 value))
      (rev [0..<16]) (replicate 16 0, value))"

definition print_hex :: "u64 \<Rightarrow> terminal \<Rightarrow> terminal" where
  "print_hex value t = terminal_writestring (hex_buffer value) t"

function dec_digits :: "u64 \<Rightarrow> u8 list \<Rightarrow> u8 list" where
  "dec_digits value buffer =
    (if 0 < value then dec_digits (value div 10) (buffer @ [48 + ucast (value mod 10)]) else buffer)"
  by pat_completeness auto
termination
  by (relation "measure (\<lambda>(value, buffer). unat value)") (auto simp: unat_div word_less_nat_alt)

definition print_dec :: "u64 \<Rightarrow> terminal \<Rightarrow> terminal" where
  "print_dec value t =
    (if value = 0 then terminal_putchar 48 t
     else fold terminal_putchar (rev (dec_digits value [])) t)"

declare dec_digits.simps [simp del]

section \<open>Shading and boxes\<close>

definition terminal_draw_shadow_char ::
  "u64 \<Rightarrow> u64 \<Rightarrow> vga_color \<Rightarrow> vga_color \<Rightarrow> terminal \<Rightarrow> terminal" where
  "terminal_draw_shadow_char x y fg bg t =
    (if VGA_WIDTH \<le> x \<or> VGA_HEIGHT \<le> y then t
     else terminal_putentryat SHADOW_CHAR (vga_entry_color fg bg) x y t)"

text \<open>A counted loop with the extra exit \<open>i < limit\<close>, as the drawing loops have it.\<close>

definition for_below :: "u64 \<Rightarrow> u64 \<Rightarrow> u64 \<Rightarrow> (u64 \<Rightarrow> 's \<Rightarrow> 's) \<Rightarrow> 's \<Rightarrow> 's" where
  "for_below i hi limit body = for_u64 i (min hi limit) body"

definition terminal_draw_shadow_pattern ::
  "u64 \<Rightarrow> u64 \<Rightarrow> u64 \<Rightarrow> u64 \<Rightarrow> vga_color \<Rightarrow> vga_color \<Rightarrow> terminal \<Rightarrow> terminal" where
  "terminal_draw_shadow_pattern start_x start_y width height fg bg =
    for_below start_y (start_y + height) VGA_HEIGHT (\<lambda>y.
      for_below start_x (start_x + width) VGA_WIDTH (\<lambda>x.
        terminal_draw_shadow_char x y fg bg))"

definition terminal_draw_box_char ::
  "u64 \<Rightarrow> u64 \<Rightarrow> u8 \<Rightarrow> vga_color \<Rightarrow> vga_color \<Rightarrow> terminal \<Rightarrow> terminal" where
  "terminal_draw_box_char x y box_char fg bg t =
    (if VGA_WIDTH \<le> x \<or> VGA_HEIGHT \<le> y then t
     else terminal_putentryat box_char (vga_entry_color fg bg) x y t)"

definition terminal_draw_single_box ::
  "u64 \<Rightarrow> u64 \<Rightarrow> u64 \<Rightarrow> u64 \<Rightarrow> vga_color \<Rightarrow> vga_color \<Rightarrow> terminal \<Rightarrow> terminal" where
  "terminal_draw_single_box x y width height fg bg t =
    (let box = (\<lambda>x y c. terminal_draw_box_char x y c fg bg);
         t = box x y BOX_SINGLE_TOP_LEFT t;
         t = box (x + width - 1) y BOX_SINGLE_TOP_RIGHT t;
         t = box x (y + height - 1) BOX_SINGLE_BOTTOM_LEFT t;
         t = box (x + width - 1) (y + height - 1) BOX_SINGLE_BOTTOM_RIGHT t;
         t = for_u64 (x + 1) (x + width - 1)
               (\<lambda>i t. box i (y + height - 1) BOX_SINGLE_HORIZONTAL (box i y BOX_SINGLE_HORIZONTAL t)) t
     in for_u64 (y + 1) (y + height - 1)
          (\<lambda>j t. box (x + width - 1) j BOX_SINGLE_VERTICAL (box x j BOX_SINGLE_VERTICAL t)) t)"

definition terminal_draw_double_box ::
  "u64 \<Rightarrow> u64 \<Rightarrow> u64 \<Rightarrow> u64 \<Rightarrow> vga_color \<Rightarrow> vga_color \<Rightarrow> terminal \<Rightarrow> terminal" where
  "terminal_draw_double_box x y width height fg bg t =
    (let box = (\<lambda>x y c. terminal_draw_box_char x y c fg bg);
         t = box x y BOX_DOUBLE_TOP_LEFT t;
         t = box (x + width - 1) y BOX_DOUBLE_TOP_RIGHT t;
         t = box x (y + height - 1) BOX_DOUBLE_BOTTOM_LEFT t;
         t = box (x + width - 1) (y + height - 1) BOX_DOUBLE_BOTTOM_RIGHT t;
         t = for_u64 (x + 1) (x + width - 1)
               (\<lambda>i t. box i (y + height - 1) BOX_DOUBLE_HORIZONTAL (box i y BOX_DOUBLE_HORIZONTAL t)) t
     in for_u64 (y + 1) (y + height - 1)
          (\<lambda>j t. box (x + width - 1) j BOX_DOUBLE_VERTICAL (box x j BOX_DOUBLE_VERTICAL t)) t)"

text \<open>
  The two line loops test \<open>x + i < VGA_WIDTH\<close>, where \<open>x + i\<close> may wrap, so they are kept as
  recursions over the counter with the test the code has.
\<close>

function line_from :: "u64 \<Rightarrow> u64 \<Rightarrow> u64 \<Rightarrow> u64 \<Rightarrow> (u64 \<Rightarrow> 's \<Rightarrow> 's) \<Rightarrow> 's \<Rightarrow> 's" where
  "line_from i x n limit body s =
    (if i < n \<and> x + i < limit then line_from (i + 1) x n limit body (body (x + i) s) else s)"
  by pat_completeness auto
termination
  by (relation "measure (\<lambda>(i, x, n, limit, body, s). unat n - unat i)")
    (auto simp: unat_inc_u64 word_less_nat_alt)

declare line_from.simps [simp del]

definition terminal_draw_double_horizontal_line ::
  "u64 \<Rightarrow> u64 \<Rightarrow> u64 \<Rightarrow> vga_color \<Rightarrow> vga_color \<Rightarrow> terminal \<Rightarrow> terminal" where
  "terminal_draw_double_horizontal_line x y n fg bg =
    line_from 0 x n VGA_WIDTH (\<lambda>x. terminal_draw_box_char x y BOX_DOUBLE_HORIZONTAL fg bg)"

definition terminal_draw_double_vertical_line ::
  "u64 \<Rightarrow> u64 \<Rightarrow> u64 \<Rightarrow> vga_color \<Rightarrow> vga_color \<Rightarrow> terminal \<Rightarrow> terminal" where
  "terminal_draw_double_vertical_line x y n fg bg =
    line_from 0 y n VGA_HEIGHT (\<lambda>y. terminal_draw_box_char x y BOX_DOUBLE_VERTICAL fg bg)"

section \<open>The calls the other components make\<close>

datatype tcall =
    Initialize
  | SetColor u8
  | PutChar u8
  | Write "u8 list"
  | Hex u64
  | Dec u64

primrec run_call :: "tcall \<Rightarrow> terminal \<Rightarrow> terminal" where
  "run_call Initialize = terminal_initialize"
| "run_call (SetColor c) = terminal_setcolor c"
| "run_call (PutChar c) = terminal_putchar c"
| "run_call (Write s) = terminal_writestring s"
| "run_call (Hex v) = print_hex v"
| "run_call (Dec v) = print_dec v"

definition run_calls :: "tcall list \<Rightarrow> terminal \<Rightarrow> terminal" where
  "run_calls cs t = fold run_call cs t"

abbreviation Text :: "string \<Rightarrow> tcall" where "Text s \<equiv> Write (lit s)"

text \<open>A literal that ends in a newline.\<close>

abbreviation Line :: "string \<Rightarrow> tcall" where "Line s \<equiv> Write (lit s @ [newline])"

abbreviation Color :: "vga_color \<Rightarrow> tcall" where
  "Color fg \<equiv> SetColor (vga_entry_color fg VGA_COLOR_BLACK)"

text \<open>
  What every component shares: the RAM and the calls made to the terminal so far. The
  components extend this record with their own static variables.
\<close>

record machine =
  ram :: mem
  console :: "tcall list"

definition emit :: "tcall list \<Rightarrow> 'a machine_scheme \<Rightarrow> 'a machine_scheme" where
  "emit cs s = s\<lparr>console := console s @ cs\<rparr>"

lemma emit_simps [simp]:
  "ram (emit cs s) = ram s"
  "console (emit cs s) = console s @ cs"
  "emit [] s = s"
  "machine.more (emit cs s) = machine.more s"
  by (simp_all add: emit_def)

end
