(* ===== verification/Kmalloc.thy ===== *)
theory Kmalloc
  imports Cstring Terminal
begin

text \<open>
  The kernel heap (\<open>kmalloc.c\<close>, \<open>kmalloc.h\<close>): a doubly linked list of blocks in RAM between
  \<open>HEAP_START\<close> and \<open>HEAP_START + HEAP_SIZE\<close>. A block is a packed header of 29 bytes
  (\<open>heap_block\<close>, read from and written to memory byte by byte) followed by its data. The
  operations are the code's, on pointers; the walks along the list are \<open>option\<close>-valued,
  since a cyclic list would keep them running for ever.
\<close>

section \<open>Block headers in memory\<close>

definition HEAP_START :: u64 where "HEAP_START = 0x00300000"
definition HEAP_SIZE :: u64 where "HEAP_SIZE = 2 * 1024 * 1024"
definition HEAP_ALIGNMENT :: u32 where "HEAP_ALIGNMENT = 16"
definition HEAP_MAGIC :: u32 where "HEAP_MAGIC = 0xDEADBEEF"
definition sizeof_heap_block :: u64 where "sizeof_heap_block = 29"

lemmas heap_consts = HEAP_START_def HEAP_SIZE_def sizeof_heap_block_def

record heap_block =
  magic :: u32
  block_size :: u64
  is_free :: bool
  next_block :: u64
  prev_block :: u64

text \<open>
  The packed layout: \<open>magic\<close> at 0, \<open>size\<close> at 4, \<open>is_free\<close> at 12, \<open>next\<close> at 13, \<open>prev\<close> at 21.
\<close>

definition load_block :: "mem \<Rightarrow> u64 \<Rightarrow> heap_block" where
  "load_block m b =
    \<lparr>magic = load32 m b, block_size = load64 m (b + 4), is_free = (load8 m (b + 12) \<noteq> 0),
     next_block = load64 m (b + 13), prev_block = load64 m (b + 21)\<rparr>"

definition set_magic :: "mem \<Rightarrow> u64 \<Rightarrow> u32 \<Rightarrow> mem" where
  "set_magic m b v = store32 m b v"

definition set_size :: "mem \<Rightarrow> u64 \<Rightarrow> u64 \<Rightarrow> mem" where
  "set_size m b v = store64 m (b + 4) v"

definition set_free :: "mem \<Rightarrow> u64 \<Rightarrow> bool \<Rightarrow> mem" where
  "set_free m b v = store8 m (b + 12) (if v then 1 else 0)"

definition set_next :: "mem \<Rightarrow> u64 \<Rightarrow> u64 \<Rightarrow> mem" where
  "set_next m b v = store64 m (b + 13) v"

definition set_prev :: "mem \<Rightarrow> u64 \<Rightarrow> u64 \<Rightarrow> mem" where
  "set_prev m b v = store64 m (b + 21) v"

section \<open>State and helpers\<close>

record heap = machine +
  heap_head :: u64
  heap_initialized :: bool
  total_allocations :: u32
  total_frees :: u32
  failed_allocations :: u32

abbreviation upd_ram :: "(mem \<Rightarrow> mem) \<Rightarrow> 'a machine_scheme \<Rightarrow> 'a machine_scheme" where
  "upd_ram f s \<equiv> s\<lparr>ram := f (ram s)\<rparr>"

text \<open>\<open>~(alignment - 1)\<close> is computed in 32 bits and then extended with zeros.\<close>

definition align_up :: "u64 \<Rightarrow> u32 \<Rightarrow> u64" where
  "align_up value alignment =
    (if alignment = 0 then value
     else (value + ucast alignment - 1) AND ucast (NOT (alignment - 1)))"

definition is_valid_block :: "mem \<Rightarrow> u64 \<Rightarrow> bool" where
  "is_valid_block m block \<longleftrightarrow>
    (if block = NULL then False
     else if magic (load_block m block) \<noteq> HEAP_MAGIC then False
     else if block < HEAP_START \<or> HEAP_START + HEAP_SIZE \<le> block then False
     else True)"

definition block_to_ptr :: "u64 \<Rightarrow> u64" where
  "block_to_ptr block = block + sizeof_heap_block"

definition ptr_to_block :: "u64 \<Rightarrow> u64" where
  "ptr_to_block ptr = ptr - sizeof_heap_block"

definition split_block :: "u64 \<Rightarrow> u64 \<Rightarrow> mem \<Rightarrow> mem" where
  "split_block block sz m =
    (if block = NULL \<or> \<not> is_free (load_block m block) then m
     else
       let min_block_size = sizeof_heap_block + 16
       in if block_size (load_block m block) < sz + min_block_size then m
          else
            let new_block = block + sizeof_heap_block + sz;
                m = set_magic m new_block HEAP_MAGIC;
                m = set_size m new_block (block_size (load_block m block) - sz - sizeof_heap_block);
                m = set_free m new_block True;
                m = set_next m new_block (next_block (load_block m block));
                m = set_prev m new_block block;
                m = (if next_block (load_block m block) \<noteq> NULL
                     then set_prev m (next_block (load_block m block)) new_block else m);
                m = set_next m block new_block
            in set_size m block sz)"

text \<open>The \<open>while\<close> loop of \<open>coalesce_blocks\<close>, then the function itself.\<close>

partial_function (option) merge_next :: "u64 \<Rightarrow> mem \<Rightarrow> mem option" where
  "merge_next block m =
    (let nxt = next_block (load_block m block)
     in if nxt \<noteq> NULL \<and> is_free (load_block m nxt) then
          if \<not> is_valid_block m nxt then Some m
          else
            let m = set_size m block
                      (block_size (load_block m block) + (sizeof_heap_block + block_size (load_block m nxt)));
                m = set_next m block (next_block (load_block m nxt));
                m = (if next_block (load_block m nxt) \<noteq> NULL
                     then set_prev m (next_block (load_block m nxt)) block else m);
                m = set_magic m nxt 0
            in merge_next block m
        else Some m)"

partial_function (option) coalesce_blocks :: "u64 \<Rightarrow> mem \<Rightarrow> mem option" where
  "coalesce_blocks block m =
    (if block = NULL \<or> \<not> is_free (load_block m block) then Some m
     else Option.bind (merge_next block m) (\<lambda>m.
       let prv = prev_block (load_block m block)
       in if prv \<noteq> NULL \<and> is_free (load_block m prv) then coalesce_blocks prv m else Some m))"

partial_function (option) find_free_from :: "u64 \<Rightarrow> u64 \<Rightarrow> mem \<Rightarrow> u64 option" where
  "find_free_from current sz m =
    (if current = NULL then Some NULL
     else if is_free (load_block m current) \<and> sz \<le> block_size (load_block m current)
     then Some current
     else find_free_from (next_block (load_block m current)) sz m)"

definition find_free_block :: "u64 \<Rightarrow> 'a heap_scheme \<Rightarrow> u64 option" where
  "find_free_block sz s = find_free_from (heap_head s) sz (ram s)"

section \<open>Initialisation and allocation\<close>

definition heap_init :: "'a heap_scheme \<Rightarrow> 'a heap_scheme" where
  "heap_init s =
    (let s = s\<lparr>heap_head := HEAP_START\<rparr>;
         s = upd_ram (\<lambda>m. set_magic m (heap_head s) HEAP_MAGIC) s;
         s = upd_ram (\<lambda>m. set_size m (heap_head s) (HEAP_SIZE - sizeof_heap_block)) s;
         s = upd_ram (\<lambda>m. set_free m (heap_head s) True) s;
         s = upd_ram (\<lambda>m. set_next m (heap_head s) NULL) s;
         s = upd_ram (\<lambda>m. set_prev m (heap_head s) NULL) s;
         s = s\<lparr>total_allocations := 0, total_frees := 0, failed_allocations := 0,
               heap_initialized := True\<rparr>
     in emit [Color VGA_COLOR_LIGHT_GREEN, Text ''[OK] Heap inicializado: 0x'', Hex HEAP_START,
              Text '' - 0x'', Hex (HEAP_START + HEAP_SIZE), Text '' ('',
              Dec (HEAP_SIZE div 1024), Line '' KB)''] s)"

definition kmalloc_aligned :: "u64 \<Rightarrow> u32 \<Rightarrow> 'a heap_scheme \<Rightarrow> (u64 \<times> 'a heap_scheme) option" where
  "kmalloc_aligned sz alignment s =
    (if \<not> heap_initialized s then
       Some (NULL, emit [Color VGA_COLOR_LIGHT_RED, Line ''[ERROR] kmalloc: heap no inicializado'']
                    (s\<lparr>failed_allocations := failed_allocations s + 1\<rparr>))
     else if sz = 0 then Some (NULL, s)
     else
       let alignment = (if alignment = 0 \<or> alignment AND (alignment - 1) \<noteq> 0
                        then HEAP_ALIGNMENT else alignment);
           sz = align_up sz alignment
       in Option.bind (find_free_block sz s) (\<lambda>block.
            if block = NULL then
              Some (NULL, emit [Color VGA_COLOR_LIGHT_RED, Text ''[ERROR] kmalloc: sin memoria ('',
                                Dec sz, Line '' bytes)'']
                           (s\<lparr>failed_allocations := failed_allocations s + 1\<rparr>))
            else
              let s = upd_ram (split_block block sz) s;
                  s = upd_ram (\<lambda>m. set_free m block False) s;
                  ptr = block_to_ptr block;
                  s = upd_ram (\<lambda>m. memset m ptr 0 sz) s;
                  s = s\<lparr>total_allocations := total_allocations s + 1\<rparr>
              in Some (ptr, s)))"

definition kmalloc :: "u64 \<Rightarrow> 'a heap_scheme \<Rightarrow> (u64 \<times> 'a heap_scheme) option" where
  "kmalloc sz s = kmalloc_aligned sz HEAP_ALIGNMENT s"

definition kcalloc :: "u64 \<Rightarrow> u64 \<Rightarrow> 'a heap_scheme \<Rightarrow> (u64 \<times> 'a heap_scheme) option" where
  "kcalloc nmemb sz s =
    (let total_size = nmemb * sz
     in if nmemb \<noteq> 0 \<and> total_size div nmemb \<noteq> sz then
          Some (NULL, emit [Color VGA_COLOR_LIGHT_RED, Line ''[ERROR] kcalloc: overflow detectado'']
                       (s\<lparr>failed_allocations := failed_allocations s + 1\<rparr>))
        else kmalloc total_size s)"

section \<open>Release and reallocation\<close>

definition kfree :: "u64 \<Rightarrow> 'a heap_scheme \<Rightarrow> 'a heap_scheme option" where
  "kfree ptr s =
    (if ptr = NULL then Some s
     else if \<not> heap_initialized s then
       Some (emit [Color VGA_COLOR_LIGHT_RED, Line ''[ERROR] kfree: heap no inicializado''] s)
     else
       let block = ptr_to_block ptr
       in if \<not> is_valid_block (ram s) block then
            Some (emit [Color VGA_COLOR_LIGHT_RED,
                        Write (lit ''[ERROR] kfree: puntero inv'' @ [0xC3, 0xA1] @ lit ''lido: 0x''),
                        Hex ptr, Line ''''] s)
          else if is_free (load_block (ram s) block) then
            Some (emit [Color VGA_COLOR_LIGHT_BROWN,
                        Write (lit ''[WARN] kfree: doble liberaci'' @ [0xC3, 0xB3] @ lit ''n detectada: 0x''),
                        Hex ptr, Line ''''] s)
          else
            let s = upd_ram (\<lambda>m. set_free m block True) s
            in Option.bind (coalesce_blocks block (ram s)) (\<lambda>m.
                 Some (s\<lparr>ram := m, total_frees := total_frees s + 1\<rparr>)))"

definition krealloc :: "u64 \<Rightarrow> u64 \<Rightarrow> 'a heap_scheme \<Rightarrow> (u64 \<times> 'a heap_scheme) option" where
  "krealloc ptr new_size s =
    (if ptr = NULL then kmalloc new_size s
     else if new_size = 0 then Option.bind (kfree ptr s) (\<lambda>s. Some (NULL, s))
     else
       let block = ptr_to_block ptr
       in if \<not> is_valid_block (ram s) block then
            Some (NULL, emit [Color VGA_COLOR_LIGHT_RED,
                              Write (lit ''[ERROR] krealloc: bloque inv'' @ [0xC3, 0xA1] @ lit ''lido'' @ [newline])] s)
          else if new_size \<le> block_size (load_block (ram s) block) then Some (ptr, s)
          else Option.bind (kmalloc new_size s) (\<lambda>(new_ptr, s).
                 if new_ptr = NULL then Some (NULL, s)
                 else
                   let s = upd_ram (\<lambda>m. memcpy m new_ptr ptr (block_size (load_block m block))) s
                   in Option.bind (kfree ptr s) (\<lambda>s. Some (new_ptr, s))))"

section \<open>Statistics and validation\<close>

record heap_stats =
  stat_heap_start :: u64
  stat_heap_end :: u64
  stat_total_size :: u64
  stat_used_size :: u64
  stat_free_size :: u64
  stat_block_count :: u32
  stat_free_block_count :: u32
  stat_used_block_count :: u32
  stat_allocation_count :: u32
  stat_free_count :: u32
  stat_failed_allocs :: u32

partial_function (option) stats_walk :: "u64 \<Rightarrow> mem \<Rightarrow> heap_stats \<Rightarrow> heap_stats option" where
  "stats_walk current m stats =
    (if current = NULL then Some stats
     else if \<not> is_valid_block m current then Some stats
     else
       let blk = load_block m current;
           stats = stats\<lparr>stat_block_count := stat_block_count stats + 1\<rparr>;
           stats = (if is_free blk
                    then stats\<lparr>stat_free_size := stat_free_size stats + block_size blk,
                               stat_free_block_count := stat_free_block_count stats + 1\<rparr>
                    else stats\<lparr>stat_used_size := stat_used_size stats + block_size blk,
                               stat_used_block_count := stat_used_block_count stats + 1\<rparr>)
       in stats_walk (next_block blk) m stats)"

text \<open>The caller's record comes back unchanged when the heap is not initialised.\<close>

definition heap_get_stats :: "heap_stats \<Rightarrow> 'a heap_scheme \<Rightarrow> heap_stats option" where
  "heap_get_stats stats s =
    (if \<not> heap_initialized s then Some stats
     else stats_walk (heap_head s) (ram s)
       \<lparr>stat_heap_start = HEAP_START, stat_heap_end = HEAP_START + HEAP_SIZE,
        stat_total_size = HEAP_SIZE, stat_used_size = 0, stat_free_size = 0,
        stat_block_count = 0, stat_free_block_count = 0, stat_used_block_count = 0,
        stat_allocation_count = total_allocations s, stat_free_count = total_frees s,
        stat_failed_allocs = failed_allocations s\<rparr>)"

function validate_walk :: "u64 \<Rightarrow> u32 \<Rightarrow> mem \<Rightarrow> u64 option" where
  "validate_walk current blocks_checked m =
    (if current \<noteq> NULL \<and> blocks_checked < 10000 then
       if \<not> is_valid_block m current then Some current
       else validate_walk (next_block (load_block m current)) (blocks_checked + 1) m
     else None)"
  by pat_completeness auto
termination
  by (relation "measure (\<lambda>(current, blocks_checked, m). 10000 - unat blocks_checked)")
    (auto simp: word_less_nat_alt unat_word_ariths)

declare validate_walk.simps [simp del]

text \<open>\<open>validate_walk\<close> is the loop: \<open>Some b\<close> is the corrupt block it stops at.\<close>

definition heap_validate :: "'a heap_scheme \<Rightarrow> bool \<times> 'a heap_scheme" where
  "heap_validate s =
    (if \<not> heap_initialized s then (False, s)
     else case validate_walk (heap_head s) 0 (ram s) of
       Some current \<Rightarrow>
         (False, emit [Color VGA_COLOR_LIGHT_RED, Text ''[ERROR] Heap corrupto en bloque: 0x'',
                       Hex current, Line ''''] s)
     | None \<Rightarrow> (True, s))"

section \<open>Reading and writing headers\<close>

text \<open>A header field written is a header field read; the other fields keep their values.\<close>

lemma load_block_set_same [simp]:
  "load_block (set_magic m b v1) b = (load_block m b)\<lparr>magic := v1\<rparr>"
  "load_block (set_size m b v2) b = (load_block m b)\<lparr>block_size := v2\<rparr>"
  "load_block (set_free m b v3) b = (load_block m b)\<lparr>is_free := v3\<rparr>"
  "load_block (set_next m b v4) b = (load_block m b)\<lparr>next_block := v4\<rparr>"
  "load_block (set_prev m b v5) b = (load_block m b)\<lparr>prev_block := v5\<rparr>"
  by (simp_all add: load_block_def set_magic_def set_size_def set_free_def set_next_def set_prev_def
    cell8.get_put cell32.get_put cell64.get_put frame_simps apart_shift apart_shift0 apart_def
    unsigned_minus_1_eq_mask mask_eq_exp_minus_1)

lemma set_outside:
  assumes "29 \<le> unat (x - b)"
  shows "set_magic m b v1 x = m x" "set_size m b v2 x = m x" "set_free m b v3 x = m x"
    "set_next m b v4 x = m x" "set_prev m b v5 x = m x"
proof -
  have "4 \<le> unat (x - b)" using assms by simp
  moreover have "8 \<le> unat (x - (b + 4))" "1 \<le> unat (x - (b + 12))" "8 \<le> unat (x - (b + 13))"
    "8 \<le> unat (x - (b + 21))"
    using outside_field [OF assms, of 4 8] outside_field [OF assms, of 12 1]
      outside_field [OF assms, of 13 8] outside_field [OF assms, of 21 8] by simp_all
  ultimately show "set_magic m b v1 x = m x" "set_size m b v2 x = m x" "set_free m b v3 x = m x"
    "set_next m b v4 x = m x" "set_prev m b v5 x = m x"
    by (simp_all add: set_magic_def set_size_def set_free_def set_next_def set_prev_def
      cell8.put_outside cell32.put_outside cell64.put_outside)
qed

lemma load_block_cong:
  assumes "\<And>i. i < 29 \<Longrightarrow> m (b + of_nat i) = m' (b + of_nat i)"
  shows "load_block m b = load_block m' b"
proof -
  have f: "m (b + of_nat j + of_nat i) = m' (b + of_nat j + of_nat i)" if "i + j < 29" for i j
    using assms [of "j + i"] that by (simp add: add.assoc)
  have "load32 m b = load32 m' b" using f [of _ 0] by (auto intro!: cell32.get_cong)
  moreover have "load64 m (b + 4) = load64 m' (b + 4)" using f [of _ 4] by (auto intro!: cell64.get_cong)
  moreover have "load8 m (b + 12) = load8 m' (b + 12)" using f [of 0 12] by (simp add: load8_def)
  moreover have "load64 m (b + 13) = load64 m' (b + 13)" using f [of _ 13] by (auto intro!: cell64.get_cong)
  moreover have "load64 m (b + 21) = load64 m' (b + 21)" using f [of _ 21] by (auto intro!: cell64.get_cong)
  ultimately show ?thesis by (simp add: load_block_def)
qed

lemma load_block_set_apart [simp]:
  assumes "apart b 29 c 29"
  shows "load_block (set_magic m b v1) c = load_block m c"
    "load_block (set_size m b v2) c = load_block m c"
    "load_block (set_free m b v3) c = load_block m c"
    "load_block (set_next m b v4) c = load_block m c"
    "load_block (set_prev m b v5) c = load_block m c"
  using apart_outside [OF assms] by (auto intro!: load_block_cong simp: set_outside)

end
