(* ===== verification/Heap_Layout.thy ===== *)
theory Heap_Layout
  imports Kmalloc
begin

text \<open>
  The heap as a list. A layout lists the blocks in address order, each with its size and
  whether it is free; \<open>chain\<close> says that memory holds exactly these blocks, one after the
  other, with correct magic numbers and links. The operations of \<open>kmalloc.c\<close> refine list
  operations on layouts: first fit and split (\<open>alloc_layout\<close>), and release with
  coalescing in both directions (\<open>free_layout\<close>).
\<close>

section \<open>Layouts\<close>

type_synonym layout = "(nat \<times> bool) list"

abbreviation HDR :: nat where "HDR \<equiv> 29"
abbreviation H0 :: nat where "H0 \<equiv> 3145728"
abbreviation HE :: nat where "HE \<equiv> 5242880"

fun endof :: "nat \<Rightarrow> layout \<Rightarrow> nat" where
  "endof a [] = a"
| "endof a ((n, f) # bs) = endof (a + HDR + n) bs"

fun lastof :: "nat \<Rightarrow> nat \<Rightarrow> layout \<Rightarrow> nat" where
  "lastof p a [] = p"
| "lastof p a ((n, f) # bs) = lastof a (a + HDR + n) bs"

text \<open>The addresses of the header bytes.\<close>

fun hdrs :: "nat \<Rightarrow> layout \<Rightarrow> nat set" where
  "hdrs a [] = {}"
| "hdrs a ((n, f) # bs) = {a..<a + HDR} \<union> hdrs (a + HDR + n) bs"

definition nextptr :: "nat \<Rightarrow> nat" where
  "nextptr x = (if x = HE then 0 else x)"

definition block_at :: "mem \<Rightarrow> nat \<Rightarrow> nat \<Rightarrow> bool \<Rightarrow> nat \<Rightarrow> nat \<Rightarrow> bool" where
  "block_at m a n f nx pv \<longleftrightarrow>
    load_block m (of_nat a) =
      \<lparr>magic = HEAP_MAGIC, block_size = of_nat n, is_free = f,
       next_block = of_nat nx, prev_block = of_nat pv\<rparr>"

fun chain :: "mem \<Rightarrow> nat \<Rightarrow> nat \<Rightarrow> layout \<Rightarrow> bool" where
  "chain m p a [] = True"
| "chain m p a ((n, f) # bs) \<longleftrightarrow>
    block_at m a n f (nextptr (a + HDR + n)) p \<and> chain m a (a + HDR + n) bs"

definition same_except :: "mem \<Rightarrow> mem \<Rightarrow> nat set \<Rightarrow> bool" where
  "same_except m m' S \<longleftrightarrow> (\<forall>x. unat x \<notin> S \<longrightarrow> m' x = m x)"

lemma same_exceptD: "same_except m m' S \<Longrightarrow> unat x \<notin> S \<Longrightarrow> m' x = m x"
  by (simp add: same_except_def)

lemma same_except_refl [simp]: "same_except m m S"
  by (simp add: same_except_def)

lemma same_except_trans:
  "same_except m m' S \<Longrightarrow> same_except m' m'' T \<Longrightarrow> S \<subseteq> U \<Longrightarrow> T \<subseteq> U \<Longrightarrow> same_except m m'' U"
  unfolding same_except_def by (metis subsetD)

lemma same_except_mono: "same_except m m' S \<Longrightarrow> S \<subseteq> T \<Longrightarrow> same_except m m' T"
  by (auto simp: same_except_def)

lemma same_except_keep:
  "same_except m m' S \<Longrightarrow> L \<inter> S = {} \<Longrightarrow> \<forall>x. unat x \<in> L \<longrightarrow> m' x = m x"
  by (auto simp: same_except_def)

lemma endof_append [simp]: "endof a (xs @ ys) = endof (endof a xs) ys"
  by (induction a xs rule: endof.induct) auto

lemma lastof_append [simp]: "lastof p a (xs @ ys) = lastof (lastof p a xs) (endof a xs) ys"
  by (induction p a xs rule: lastof.induct) auto

lemma hdrs_append [simp]: "hdrs a (xs @ ys) = hdrs a xs \<union> hdrs (endof a xs) ys"
  by (induction a xs rule: endof.induct) auto

lemma chain_append [simp]:
  "chain m p a (xs @ ys) \<longleftrightarrow> chain m p a xs \<and> chain m (lastof p a xs) (endof a xs) ys"
  by (induction m p a xs rule: chain.induct) auto

lemma endof_ge: "a \<le> endof a bs"
  by (induction a bs rule: endof.induct) auto

lemma endof_ge_length: "a + HDR * length bs \<le> endof a bs"
  by (induction a bs rule: endof.induct) auto

lemma hdrs_bounds: "x \<in> hdrs a bs \<Longrightarrow> a \<le> x \<and> x < endof a bs"
proof (induction a bs rule: hdrs.induct)
  case (2 a n f bs)
  then show ?case using endof_ge [of "a + HDR + n" bs] by auto
qed simp

lemma lastof_range: "bs \<noteq> [] \<Longrightarrow> a \<le> lastof p a bs \<and> lastof p a bs + HDR \<le> endof a bs"
proof (induction p a bs rule: lastof.induct)
  case (2 p a n f bs)
  then show ?case using endof_ge [of "a + HDR + n" bs] by (cases bs) auto
qed simp

text \<open>A chain depends on the header bytes only.\<close>

lemma load_block_frame:
  assumes "a + HDR \<le> HE" and "\<And>x. unat x \<in> {a..<a + HDR} \<Longrightarrow> m' x = m x"
  shows "load_block m' (of_nat a) = load_block m (of_nat a)"
proof (rule load_block_cong, rule assms(2))
  fix i :: nat assume i: "i < 29"
  have "of_nat a + of_nat i = (of_nat (a + i) :: u64)" by simp
  then have "unat (of_nat a + of_nat i :: u64) = a + i"
    using i assms(1) by (simp only: unat_of_nat_u64)
  then show "unat (of_nat a + of_nat i :: u64) \<in> {a..<a + HDR}" using i by simp
qed

lemma block_at_frame:
  assumes "block_at m a n f nx pv" and "a + HDR \<le> HE"
    and "\<And>x. unat x \<in> {a..<a + HDR} \<Longrightarrow> m' x = m x"
  shows "block_at m' a n f nx pv"
  using load_block_frame [OF assms(2,3)] assms(1) by (simp add: block_at_def)

lemma chain_frame:
  "chain m p a bs \<Longrightarrow> endof a bs \<le> HE \<Longrightarrow> (\<And>x. unat x \<in> hdrs a bs \<Longrightarrow> m' x = m x) \<Longrightarrow>
   chain m' p a bs"
proof (induction m p a bs rule: chain.induct)
  case (2 m p a n f bs)
  have "a + HDR \<le> HE" using 2(3) endof_ge [of "a + HDR + n" bs] by simp
  with 2 show ?case by (auto intro: block_at_frame)
qed simp

lemma chain_same_except:
  "chain m p a bs \<Longrightarrow> endof a bs \<le> HE \<Longrightarrow> same_except m m' S \<Longrightarrow> hdrs a bs \<inter> S = {} \<Longrightarrow>
   chain m' p a bs"
  by (erule chain_frame) (auto simp: same_except_def)

text \<open>Writes to the header at \<open>a\<close> change the header bytes of \<open>a\<close> only.\<close>

lemma outside_block:
  fixes x :: u64
  assumes "unat x \<notin> {a..<a + HDR}" and "a + HDR \<le> HE"
  shows "29 \<le> unat (x - of_nat a)"
proof -
  have a64: "unat (of_nat a :: u64) = a" using assms by (intro unat_of_nat_u64) simp
  show ?thesis
    using assms unat_lt_u64 [of x] by (auto simp: unat_diff_u64 a64)
qed

lemma apart_blocks:
  "a + HDR \<le> b \<or> b + HDR \<le> a \<Longrightarrow> a + HDR \<le> HE \<Longrightarrow> b + HDR \<le> HE \<Longrightarrow>
   apart (of_nat a) 29 (of_nat b) 29"
  by (rule apart_nat) auto

lemma of_nat_ne_0: "0 < n \<Longrightarrow> n < 18446744073709551616 \<Longrightarrow> (of_nat n :: u64) \<noteq> 0"
  by (metis unat_of_nat_u64 gr_implies_not0 unat_0)

lemma nextptr_HE [simp]: "nextptr HE = 0"
  by (simp add: nextptr_def)

lemma nextptr_less: "x < HE \<Longrightarrow> nextptr x = x"
  by (simp add: nextptr_def)

text \<open>A block inside the heap with the right magic is valid.\<close>

lemma block_at_valid:
  assumes "block_at m a n f nx pv" and "H0 \<le> a" and "a < HE"
  shows "is_valid_block m (of_nat a)"
proof -
  have "unat (of_nat a :: u64) = a" using assms by (intro unat_of_nat_u64) simp
  then show ?thesis
    using assms of_nat_ne_0 [of a]
    by (auto simp: is_valid_block_def block_at_def heap_consts word_less_nat_alt word_le_nat_alt)
qed

text \<open>
  Both \<open>split_block\<close> and \<open>coalesce_blocks\<close> point the following block, if there is one, back
  to a new predecessor.
\<close>

definition relink :: "mem \<Rightarrow> u64 \<Rightarrow> u64 \<Rightarrow> mem" where
  "relink m nxt q = (if nxt \<noteq> NULL then set_prev m nxt q else m)"

lemma relink_chain:
  assumes "chain m p a ys" and e: "endof a ys = HE" and "H0 \<le> a"
  shows "chain (relink m (of_nat (nextptr a)) (of_nat q)) q a ys"
    and "same_except m (relink m (of_nat (nextptr a)) (of_nat q)) (hdrs a ys)"
proof -
  have "chain (relink m (of_nat (nextptr a)) (of_nat q)) q a ys \<and>
    same_except m (relink m (of_nat (nextptr a)) (of_nat q)) (hdrs a ys)"
  proof (cases ys)
    case Nil
    with e show ?thesis by (simp add: relink_def)
  next
    case (Cons y zs)
    obtain k f where y: "y = (k, f)" by (cases y)
    have a: "a + HDR \<le> HE" using e endof_ge [of "a + HDR + k" zs] by (simp add: Cons y)
    then have ne: "(of_nat a :: u64) \<noteq> 0" using assms(3) by (intro of_nat_ne_0) auto
    let ?m = "set_prev m (of_nat a) (of_nat q)"
    have rl: "relink m (of_nat (nextptr a)) (of_nat q) = ?m"
      using a ne by (simp add: relink_def nextptr_less)
    have fr: "same_except m ?m {a..<a + HDR}"
      using outside_block [OF _ a] by (simp add: same_except_def set_outside)
    have "block_at ?m a k f (nextptr (a + HDR + k)) q"
      using assms(1) by (simp add: Cons y block_at_def)
    moreover have "chain ?m a (a + HDR + k) zs"
    proof (rule chain_same_except [OF _ _ fr])
      show "chain m a (a + HDR + k) zs" using assms(1) by (simp add: Cons y)
      show "endof (a + HDR + k) zs \<le> HE" using e by (simp add: Cons y)
      show "hdrs (a + HDR + k) zs \<inter> {a..<a + HDR} = {}"
        using hdrs_bounds [of _ "a + HDR + k" zs] by fastforce
    qed
    ultimately show ?thesis
      using fr by (auto simp: rl Cons y intro: same_except_mono)
  qed
  then show "chain (relink m (of_nat (nextptr a)) (of_nat q)) q a ys"
    and "same_except m (relink m (of_nat (nextptr a)) (of_nat q)) (hdrs a ys)" by auto
qed

section \<open>The layout after a split\<close>

lemma split_block_chain:
  assumes ch: "chain m 0 H0 (xs @ (k, True) # ys)" and e: "endof H0 (xs @ (k, True) # ys) = HE"
    and n: "n + 45 \<le> k" and b: "b = endof H0 xs"
  shows "chain (split_block (of_nat b) (of_nat n) m) 0 H0 (xs @ (n, True) # (k - n - HDR, True) # ys) \<and>
    same_except m (split_block (of_nat b) (of_nat n) m)
           (hdrs H0 (xs @ (n, True) # (k - n - HDR, True) # ys))"
proof -
  define c where "c = b + HDR + n"
  define d where "d = b + HDR + k"
  note range = endof_ge [of H0 xs] endof_ge [of d ys]
  have ys_end: "endof d ys = HE" using e by (simp add: b d_def)
  have d_le: "d \<le> HE" and b_ge: "H0 \<le> b" using range ys_end by (simp_all add: b)
  have xs: "chain m 0 H0 xs" and blk: "block_at m b k True (nextptr d) (lastof 0 H0 xs)"
    and ys: "chain m b d ys"
    using ch by (auto simp: b d_def)
  have cd: "b + HDR \<le> c" "c + HDR \<le> d" using n by (auto simp: c_def d_def)
  have k64: "unat (of_nat k :: u64) = k" "unat (of_nat n :: u64) = n"
    using d_le n by (auto intro!: unat_of_nat_u64 simp: d_def)
  have new: "of_nat b + sizeof_heap_block + of_nat n = (of_nat c :: u64)"
    by (simp add: c_def heap_consts)
  have rest: "of_nat k - of_nat n - sizeof_heap_block = (of_nat (k - n - HDR) :: u64)"
    using n by (simp add: heap_consts of_nat_diff)
  have enough: "\<not> (of_nat k :: u64) < of_nat n + (sizeof_heap_block + 16)"
  proof -
    have "of_nat n + (sizeof_heap_block + 16) = (of_nat (n + 45) :: u64)" by (simp add: heap_consts)
    moreover have "unat (of_nat (n + 45) :: u64) = n + 45"
      using n d_le by (intro unat_of_nat_u64) (simp add: d_def)
    ultimately show ?thesis using n k64 by (simp add: word_less_nat_alt del: of_nat_add)
  qed
  have bne: "(of_nat b :: u64) \<noteq> 0" using b_ge d_le by (intro of_nat_ne_0) (auto simp: d_def)
  have bc: "apart (of_nat c) 29 (of_nat b) 29" "apart (of_nat b) 29 (of_nat c) 29"
    using cd d_le by (auto intro!: apart_blocks)
  define m1 where "m1 = set_prev (set_next (set_free (set_size (set_magic m (of_nat c) HEAP_MAGIC) (of_nat c)
    (of_nat (k - n - HDR))) (of_nat c) True) (of_nat c) (of_nat (nextptr d))) (of_nat c) (of_nat b)"
  define m2 where "m2 = relink m1 (of_nat (nextptr d)) (of_nat c)"
  define m' where "m' = set_size (set_next m2 (of_nat b) (of_nat c)) (of_nat b) (of_nat n)"
  have s1: "same_except m m1 {c..<c + HDR}"
    using outside_block [of _ c] cd d_le by (simp add: same_except_def m1_def set_outside)
  have b1: "block_at m1 b k True (nextptr d) (lastof 0 H0 xs)"
    using blk bc by (simp add: block_at_def m1_def)
  have c1: "block_at m1 c (k - n - HDR) True (nextptr d) b"
    by (simp add: block_at_def m1_def)
  have eq: "split_block (of_nat b) (of_nat n) m = m'"
    using blk b1 bne enough bc unfolding block_at_def m'_def m2_def relink_def
    by (simp add: split_block_def new rest Let_def m1_def)
  have dis: "hdrs d ys \<inter> {c..<c + HDR} = {}" "hdrs d ys \<inter> {b..<b + HDR} = {}"
    "hdrs H0 xs \<inter> {c..<c + HDR} = {}" "hdrs H0 xs \<inter> {b..<b + HDR} = {}" "hdrs H0 xs \<inter> hdrs d ys = {}"
    using hdrs_bounds [of _ d ys] hdrs_bounds [of _ H0 xs] cd by (fastforce simp: b)+
  have ys1: "chain m1 b d ys"
    using chain_same_except [OF ys _ s1] dis ys_end by simp
  from relink_chain [OF ys1 ys_end, of c] b_ge cd
  have ys2: "chain m2 c d ys" and s2: "same_except m1 m2 (hdrs d ys)"
    by (simp_all add: m2_def)
  have s3: "same_except m2 m' {b..<b + HDR}"
    using outside_block [of _ b] cd d_le by (simp add: same_except_def m'_def set_outside)
  have bdry: "{b..<b + HDR} \<inter> hdrs d ys = {}" "{c..<c + HDR} \<inter> hdrs d ys = {}" "{c..<c + HDR} \<inter> {b..<b + HDR} = {}"
    using dis cd by auto
  have "block_at m2 b k True (nextptr d) (lastof 0 H0 xs)"
    using b1 bdry cd d_le s2 by (intro block_at_frame [OF b1]) (auto simp: same_except_def)
  then have b': "block_at m' b n True c (lastof 0 H0 xs)"
    by (simp add: block_at_def m'_def)
  have c2: "block_at m2 c (k - n - HDR) True (nextptr d) b"
    using bdry cd d_le s2 by (intro block_at_frame [OF c1]) (auto simp: same_except_def)
  have c': "block_at m' c (k - n - HDR) True (nextptr d) b"
    using bdry cd d_le s3 by (intro block_at_frame [OF c2]) (auto simp: same_except_def)
  have ys': "chain m' c d ys"
    using chain_same_except [OF ys2 _ s3] dis ys_end by simp
  have s: "same_except m m' ({c..<c + HDR} \<union> hdrs d ys \<union> {b..<b + HDR})"
    using s1 s2 s3 by (simp add: same_except_def)
  have "chain m' 0 H0 xs"
    using chain_same_except [OF xs _ s] dis cd d_le by (auto simp: b Int_Un_distrib)
  moreover have "c + HDR + (k - n - HDR) = d" "nextptr c = c"
    using n cd d_le by (auto simp: c_def d_def nextptr_def)
  ultimately have "chain m' 0 H0 (xs @ (n, True) # (k - n - HDR, True) # ys)"
    using b' c' ys' by (simp add: b [symmetric] c_def [symmetric])
  moreover have "hdrs H0 (xs @ (n, True) # (k - n - HDR, True) # ys) =
      hdrs H0 xs \<union> {b..<b + HDR} \<union> {c..<c + HDR} \<union> hdrs d ys"
    using \<open>c + HDR + (k - n - HDR) = d\<close> by (auto simp: b [symmetric] c_def [symmetric])
  ultimately show ?thesis
    unfolding eq by (auto intro: same_except_mono [OF s])
qed

section \<open>Changing one flag\<close>

lemma set_free_chain:
  assumes ch: "chain m p a (xs @ (k, f) # ys)" and e: "endof a (xs @ (k, f) # ys) \<le> HE"
    and b: "b = endof a xs"
  shows "chain (set_free m (of_nat b) g) p a (xs @ (k, g) # ys)"
    and "same_except m (set_free m (of_nat b) g) {b..<b + HDR}"
proof -
  have b_le: "b + HDR \<le> HE" using e endof_ge [of "b + HDR + k" ys] by (simp add: b)
  show fr: "same_except m (set_free m (of_nat b) g) {b..<b + HDR}"
    using outside_block [OF _ b_le] by (simp add: same_except_def set_outside)
  have "hdrs a xs \<inter> {b..<b + HDR} = {}" "hdrs (b + HDR + k) ys \<inter> {b..<b + HDR} = {}"
    using hdrs_bounds [of _ a xs] hdrs_bounds [of _ "b + HDR + k" ys] by (fastforce simp: b)+
  then have "chain (set_free m (of_nat b) g) p a xs"
    "chain (set_free m (of_nat b) g) b (b + HDR + k) ys"
    using ch e b_le by (auto simp: b intro!: chain_same_except [OF _ _ fr [unfolded b]])
  moreover have "block_at (set_free m (of_nat b) g) b k g (nextptr (b + HDR + k)) (lastof p a xs)"
    using ch by (simp add: b block_at_def)
  ultimately show "chain (set_free m (of_nat b) g) p a (xs @ (k, g) # ys)" by (simp add: b)
qed

section \<open>Coalescing\<close>

lemma chain_Cons_at:
  assumes "chain m 0 H0 (xs @ (k, f) # ys)" and "endof H0 (xs @ (k, f) # ys) = HE"
    and "b = endof H0 xs"
  shows "block_at m b k f (nextptr (b + HDR + k)) (lastof 0 H0 xs)" "H0 \<le> b" "b + HDR + k \<le> HE"
    "(of_nat b :: u64) \<noteq> 0" "is_valid_block m (of_nat b)"
proof -
  show at: "block_at m b k f (nextptr (b + HDR + k)) (lastof 0 H0 xs)" using assms by simp
  show b: "H0 \<le> b" "b + HDR + k \<le> HE"
    using assms endof_ge [of H0 xs] endof_ge [of "b + HDR + k" ys] by simp_all
  then show "(of_nat b :: u64) \<noteq> 0" by (intro of_nat_ne_0) auto
  show "is_valid_block m (of_nat b)" using at b by (intro block_at_valid) auto
qed

text \<open>One round of the merging loop: the block absorbs its successor.\<close>

definition merge_step :: "nat \<Rightarrow> nat \<Rightarrow> nat \<Rightarrow> nat \<Rightarrow> mem \<Rightarrow> mem" where
  "merge_step b d s nx m =
    set_magic (relink (set_next (set_size m (of_nat b) (of_nat s)) (of_nat b) (of_nat nx))
      (of_nat nx) (of_nat b)) (of_nat d) 0"

lemma merge_step_chain:
  assumes ch: "chain m 0 H0 (xs @ (k, f) # (n, g) # ys)"
    and e: "endof H0 (xs @ (k, f) # (n, g) # ys) = HE"
    and b: "b = endof H0 xs" and d: "d = b + HDR + k"
    and m': "m' = merge_step b d (k + HDR + n) (nextptr (d + HDR + n)) m"
  shows "chain m' 0 H0 (xs @ (k + HDR + n, f) # ys)"
    and "same_except m m' (hdrs H0 (xs @ (k, f) # (n, g) # ys))"
proof -
  define c where "c = d + HDR + n"
  have ys_end: "endof c ys = HE" using e by (simp add: b d c_def)
  have c_le: "c \<le> HE" and b_ge: "H0 \<le> b"
    using endof_ge [of c ys] ys_end endof_ge [of H0 xs] by (simp_all add: b)
  have xs: "chain m 0 H0 xs" and ys: "chain m d c ys"
    and blk: "block_at m b k f (nextptr d) (lastof 0 H0 xs)"
    using ch by (auto simp: b d c_def)
  define m1 where "m1 = set_next (set_size m (of_nat b) (of_nat (k + HDR + n))) (of_nat b) (of_nat (nextptr c))"
  define m2 where "m2 = relink m1 (of_nat (nextptr c)) (of_nat b)"
  have m'2: "m' = set_magic m2 (of_nat d) 0"
    by (simp add: m' merge_step_def m2_def m1_def c_def)
  have s1: "same_except m m1 {b..<b + HDR}"
    using outside_block [of _ b] c_le by (simp add: same_except_def m1_def set_outside c_def d)
  have b1: "block_at m1 b (k + HDR + n) f (nextptr c) (lastof 0 H0 xs)"
    using blk by (simp add: block_at_def m1_def)
  have dis: "hdrs c ys \<inter> {d..<d + HDR} = {}" "hdrs c ys \<inter> {b..<b + HDR} = {}"
    "hdrs H0 xs \<inter> {d..<d + HDR} = {}" "hdrs H0 xs \<inter> {b..<b + HDR} = {}" "hdrs H0 xs \<inter> hdrs c ys = {}"
    using hdrs_bounds [of _ c ys] hdrs_bounds [of _ H0 xs] by (fastforce simp: b d c_def)+
  have ys1: "chain m1 d c ys" using chain_same_except [OF ys _ s1] dis ys_end by simp
  have ys2: "chain m2 b c ys" and s2: "same_except m1 m2 (hdrs c ys)"
    using relink_chain [OF ys1 ys_end, of b] b_ge by (simp_all add: m2_def c_def d)
  have s3: "same_except m2 m' {d..<d + HDR}"
    using outside_block [of _ d] c_le by (simp add: same_except_def m'2 set_outside c_def)
  have b2: "block_at m2 b (k + HDR + n) f (nextptr c) (lastof 0 H0 xs)"
    using dis c_le s2 by (intro block_at_frame [OF b1]) (auto simp: same_except_def c_def d)
  have b3: "block_at m' b (k + HDR + n) f (nextptr c) (lastof 0 H0 xs)"
    using c_le s3 by (intro block_at_frame [OF b2]) (auto simp: same_except_def c_def d)
  have ys3: "chain m' b c ys" using chain_same_except [OF ys2 _ s3] dis ys_end by simp
  have s: "same_except m m' ({b..<b + HDR} \<union> hdrs c ys \<union> {d..<d + HDR})"
    using s1 s2 s3 by (simp add: same_except_def)
  have "chain m' 0 H0 xs"
    using chain_same_except [OF xs _ s] dis c_le by (auto simp: b d c_def Int_Un_distrib)
  moreover have "b + HDR + (k + HDR + n) = c" by (simp add: c_def d)
  ultimately show "chain m' 0 H0 (xs @ (k + HDR + n, f) # ys)"
    using b3 ys3 by (simp add: b [symmetric])
  show "same_except m m' (hdrs H0 (xs @ (k, f) # (n, g) # ys))"
    by (rule same_except_mono [OF s]) (auto simp: b [symmetric] d [symmetric] c_def [symmetric])
qed

fun absorb :: "nat \<Rightarrow> layout \<Rightarrow> nat \<times> layout" where
  "absorb k ((n, True) # ys) = absorb (k + HDR + n) ys"
| "absorb k ys = (k, ys)"

lemma merge_next_step:
  assumes "chain m 0 H0 (xs @ (k, f) # (n, True) # ys)" and "endof H0 (xs @ (k, f) # (n, True) # ys) = HE"
    and "b = endof H0 xs" and "d = b + HDR + k"
  shows "merge_next (of_nat b) m = merge_next (of_nat b) (merge_step b d (k + HDR + n) (nextptr (d + HDR + n)) m)"
proof -
  note at = chain_Cons_at [OF assms(1-3)]
  have split: "xs @ (k, f) # (n, True) # ys = (xs @ [(k, f)]) @ (n, True) # ys" by simp
  have d: "d = endof H0 (xs @ [(k, f)])" by (simp add: assms(3,4))
  note dt = chain_Cons_at [OF assms(1) [unfolded split] assms(2) [unfolded split] d]
  have ap: "apart (of_nat b) 29 (of_nat d) 29" using at dt by (intro apart_blocks) (auto simp: assms(4))
  have nx: "nextptr d = d" using dt by (simp add: nextptr_def)
  have "of_nat k + (sizeof_heap_block + of_nat n) = (of_nat (k + HDR + n) :: u64)"
    by (simp add: heap_consts)
  then show ?thesis
    using at dt ap nx unfolding block_at_def merge_step_def relink_def
    by (subst merge_next.simps) (simp add: Let_def assms(4) add.assoc)
qed

lemma merge_next_chain:
  assumes "chain m 0 H0 (xs @ (k, f) # ys)" and "endof H0 (xs @ (k, f) # ys) = HE"
    and "b = endof H0 xs"
  shows "\<exists>m'. merge_next (of_nat b) m = Some m' \<and>
    chain m' 0 H0 (xs @ (fst (absorb k ys), f) # snd (absorb k ys)) \<and>
    same_except m m' (hdrs H0 (xs @ (k, f) # ys))"
  using assms
proof (induction k ys arbitrary: m rule: absorb.induct [case_names free last used])
  case (free k n ys)
  define d where "d = b + HDR + k"
  define m1 where "m1 = merge_step b d (k + HDR + n) (nextptr (d + HDR + n)) m"
  note step = merge_step_chain [OF free(2,3,4) d_def m1_def]
  have "merge_next (of_nat b) m = merge_next (of_nat b) m1"
    unfolding m1_def by (rule merge_next_step [OF free(2,3,4) d_def])
  moreover have e1: "endof H0 (xs @ (k + HDR + n, f) # ys) = HE"
    using free(3) by (simp add: free(4) [symmetric] ac_simps)
  ultimately obtain m' where m': "merge_next (of_nat b) m = Some m'"
    "chain m' 0 H0 (xs @ (fst (absorb k ((n, True) # ys)), f) # snd (absorb k ((n, True) # ys)))"
    "same_except m1 m' (hdrs H0 (xs @ (k + HDR + n, f) # ys))"
    using free(1) [OF step(1) e1 free(4)] by auto
  have "hdrs H0 (xs @ (k + HDR + n, f) # ys) \<subseteq> hdrs H0 (xs @ (k, f) # (n, True) # ys)"
    by (auto simp: free(4) [symmetric] ac_simps)
  with m' step(2) show ?case by (auto intro: same_except_trans)
next
  case (last k)
  have "nextptr (b + HDR + k) = 0" using last(2,3) by (simp add: nextptr_def)
  then have "merge_next (of_nat b) m = Some m"
    using chain_Cons_at [OF last(1,2,3)] by (subst merge_next.simps) (simp add: block_at_def)
  with last show ?case by simp
next
  case (used k n ys)
  note at = chain_Cons_at [OF used(1,2,3)]
  have split: "xs @ (k, f) # (n, False) # ys = (xs @ [(k, f)]) @ (n, False) # ys" by simp
  note dt = chain_Cons_at [OF used(1) [unfolded split] used(2) [unfolded split] refl]
  have "nextptr (b + HDR + k) = b + HDR + k" using dt used(3) by (simp add: nextptr_def)
  then show ?case
    using at dt used by (subst merge_next.simps) (simp add: block_at_def)
qed

text \<open>\<open>coalesce_blocks\<close> absorbs to the right, then continues at a free left neighbour.\<close>

fun coal :: "layout \<Rightarrow> nat \<Rightarrow> layout \<Rightarrow> layout" where
  "coal [] k ys = (fst (absorb k ys), True) # snd (absorb k ys)"
| "coal ((n, False) # rxs) k ys = rev rxs @ (n, False) # (fst (absorb k ys), True) # snd (absorb k ys)"
| "coal ((n, True) # rxs) k ys = coal rxs n ((fst (absorb k ys), True) # snd (absorb k ys))"

lemma endof_absorb: "endof a ((fst (absorb k ys), f) # snd (absorb k ys)) = endof a ((k, f) # ys)"
  by (induction k ys rule: absorb.induct) (auto simp: ac_simps)

lemma hdrs_absorb: "hdrs a ((fst (absorb k ys), f) # snd (absorb k ys)) \<subseteq> hdrs a ((k, f) # ys)"
proof (induction k ys rule: absorb.induct)
  case (1 k n ys)
  then show ?case by (fastforce simp: ac_simps)
qed auto

lemma coalesce_chain:
  assumes "chain m 0 H0 (rev rxs @ (k, True) # ys)" and "endof H0 (rev rxs @ (k, True) # ys) = HE"
    and "b = endof H0 (rev rxs)"
  shows "\<exists>m'. coalesce_blocks (of_nat b) m = Some m' \<and> chain m' 0 H0 (coal rxs k ys) \<and>
    same_except m m' (hdrs H0 (rev rxs @ (k, True) # ys))"
  using assms
proof (induction rxs k ys arbitrary: m b rule: coal.induct)
  case (1 k ys)
  note at = chain_Cons_at [OF 1]
  obtain m' where m': "merge_next (of_nat b) m = Some m'"
    "chain m' 0 H0 (rev [] @ (fst (absorb k ys), True) # snd (absorb k ys))"
    "same_except m m' (hdrs H0 (rev [] @ (k, True) # ys))"
    using merge_next_chain [OF 1] by blast
  then have "prev_block (load_block m' (of_nat b)) = 0"
    using 1(3) by (simp add: block_at_def)
  with at m' show ?case by (subst coalesce_blocks.simps) (simp add: block_at_def)
next
  case (2 n rxs k ys)
  note at = chain_Cons_at [OF 2]
  let ?c = "endof H0 (rev rxs)"
  obtain m' where m': "merge_next (of_nat b) m = Some m'"
    "chain m' 0 H0 (rev ((n, False) # rxs) @ (fst (absorb k ys), True) # snd (absorb k ys))"
    "same_except m m' (hdrs H0 (rev ((n, False) # rxs) @ (k, True) # ys))"
    using merge_next_chain [OF 2] by blast
  then have "prev_block (load_block m' (of_nat b)) = of_nat ?c" "\<not> is_free (load_block m' (of_nat ?c))"
    using 2(3) by (simp_all add: block_at_def)
  with at m' show ?case by (subst coalesce_blocks.simps) (simp add: block_at_def)
next
  case (3 n rxs k ys)
  note at = chain_Cons_at [OF 3(2,3,4)]
  let ?c = "endof H0 (rev rxs)"
  let ?ys = "(fst (absorb k ys), True) # snd (absorb k ys)"
  obtain m1 where m1: "merge_next (of_nat b) m = Some m1"
    "chain m1 0 H0 (rev ((n, True) # rxs) @ ?ys)"
    "same_except m m1 (hdrs H0 (rev ((n, True) # rxs) @ (k, True) # ys))"
    using merge_next_chain [OF 3(2,3,4)] by blast
  have e1: "endof H0 (rev rxs @ (n, True) # ?ys) = HE"
    using 3(3) endof_absorb [of "?c + HDR + n" k ys True] by simp
  note ct = chain_Cons_at [of m1 "rev rxs" n True ?ys ?c, simplified]
  have prv: "prev_block (load_block m1 (of_nat b)) = of_nat ?c" "is_free (load_block m1 (of_nat ?c))"
    using m1 3(4) by (simp_all add: block_at_def)
  have "(of_nat ?c :: u64) \<noteq> 0" using chain_Cons_at(4) [of m1 "rev rxs" n True ?ys ?c] m1 e1 by simp
  with prv at m1 have "coalesce_blocks (of_nat b) m = coalesce_blocks (of_nat ?c) m1"
    by (subst coalesce_blocks.simps) (simp add: block_at_def)
  moreover obtain m' where m': "coalesce_blocks (of_nat ?c) m1 = Some m'"
    "chain m' 0 H0 (coal rxs n ?ys)" "same_except m1 m' (hdrs H0 (rev rxs @ (n, True) # ?ys))"
    using 3(1) [of m1 ?c] m1 e1 by auto
  moreover have "hdrs H0 (rev rxs @ (n, True) # ?ys) \<subseteq> hdrs H0 (rev ((n, True) # rxs) @ (k, True) # ys)"
    using hdrs_absorb [of "?c + HDR + n" k ys True] by auto
  ultimately show ?case using m1 by (auto intro: same_except_trans)
qed

text \<open>
  The header of a block that was merged into its predecessor: its magic number is cleared, and
  later merges do not touch it, since it lies inside of a free block.
\<close>

definition gone :: "mem \<Rightarrow> layout \<Rightarrow> nat \<Rightarrow> bool" where
  "gone m bs d \<longleftrightarrow> magic (load_block m (of_nat d)) = 0 \<and> {d..<d + HDR} \<inter> hdrs H0 bs = {} \<and> d + HDR \<le> HE"

lemma gone_keep:
  assumes "gone m bs d" and "same_except m m' (hdrs H0 bs)" and "hdrs H0 bs' \<subseteq> hdrs H0 bs"
  shows "gone m' bs' d"
proof -
  have "load_block m' (of_nat d) = load_block m (of_nat d)"
    using assms(1,2) by (intro load_block_frame) (auto simp: gone_def same_except_def)
  then show ?thesis using assms(1,3) by (auto simp: gone_def)
qed

lemma hdrs_absorb_in: "hdrs H0 (xs @ (fst (absorb k ys), f) # snd (absorb k ys)) \<subseteq> hdrs H0 (xs @ (k, f) # ys)"
proof -
  have "hdrs a ((n, f) # zs) = hdrs a ((n, True) # zs)" for a n zs by simp
  then show ?thesis using hdrs_absorb [of "endof H0 xs" k ys f] by auto
qed

lemma merge_next_gone:
  assumes ch: "chain m 0 H0 (xs @ (k, f) # (n, True) # ys)" and e: "endof H0 (xs @ (k, f) # (n, True) # ys) = HE"
    and b: "b = endof H0 xs" and run: "merge_next (of_nat b) m = Some m'"
  shows "gone m' (xs @ (fst (absorb k ((n, True) # ys)), f) # snd (absorb k ((n, True) # ys))) (b + HDR + k)"
proof -
  define d where "d = b + HDR + k"
  define c where "c = d + HDR + n"
  define m1 where "m1 = merge_step b d (k + HDR + n) (nextptr c) m"
  let ?l = "xs @ (k + HDR + n, f) # ys"
  have step: "chain m1 0 H0 ?l" "merge_next (of_nat b) m1 = Some m'"
    using merge_step_chain(1) [OF ch e b d_def refl] merge_next_step [OF ch e b d_def] run
    by (simp_all add: m1_def c_def)
  have ys: "endof c ys = HE" using e by (simp add: b d_def c_def)
  have e1: "endof H0 ?l = HE" using ys by (simp add: b [symmetric] c_def d_def ac_simps)
  have "hdrs H0 ?l = hdrs H0 xs \<union> {b..<b + HDR} \<union> hdrs c ys"
    by (auto simp: b [symmetric] c_def d_def ac_simps)
  moreover have "{d..<d + HDR} \<inter> (hdrs H0 xs \<union> {b..<b + HDR} \<union> hdrs c ys) = {}"
    using hdrs_bounds [of _ c ys] hdrs_bounds [of _ H0 xs] by (fastforce simp: b d_def c_def)
  ultimately have "gone m1 ?l d"
    using endof_ge [of c ys] ys by (simp add: gone_def m1_def merge_step_def c_def)
  moreover obtain m2 where "merge_next (of_nat b) m1 = Some m2" "same_except m1 m2 (hdrs H0 ?l)"
    using merge_next_chain [OF step(1) e1 b] by blast
  moreover have "absorb k ((n, True) # ys) = absorb (k + HDR + n) ys" by simp
  ultimately show ?thesis
    using step(2) gone_keep hdrs_absorb_in [of xs "k + HDR + n" ys f] unfolding d_def by auto
qed

lemma hdrs_coal: "hdrs H0 (coal rxs k ys) \<subseteq> hdrs H0 (rev rxs @ (k, True) # ys)"
proof (induction rxs k ys rule: coal.induct)
  case (3 n rxs k ys)
  then show ?case using hdrs_absorb_in [of "rev ((n, True) # rxs)" k ys True] by auto
next
  case (1 k ys)
  then show ?case using hdrs_absorb_in [of "[]" k ys True] by simp
next
  case (2 n rxs k ys)
  then show ?case using hdrs_absorb_in [of "rev ((n, False) # rxs)" k ys True] by simp
qed

lemma coalesce_keeps_gone:
  assumes "chain m 0 H0 (rev rxs @ (k, True) # ys)" and "endof H0 (rev rxs @ (k, True) # ys) = HE"
    and "coalesce_blocks (of_nat (endof H0 (rev rxs))) m = Some m'" and "gone m (rev rxs @ (k, True) # ys) d"
  shows "gone m' (coal rxs k ys) d"
  using coalesce_chain [OF assms(1,2) refl] assms(3,4) gone_keep [OF _ _ hdrs_coal] by auto

text \<open>After the release of the block at \<open>b\<close>, its header either is that of a free block or is gone.\<close>

lemma coalesce_start:
  assumes ch: "chain m 0 H0 (rev rxs @ (k, True) # ys)" and e: "endof H0 (rev rxs @ (k, True) # ys) = HE"
    and b: "b = endof H0 (rev rxs)" and run: "coalesce_blocks (of_nat b) m = Some m'"
  shows "gone m' (coal rxs k ys) b \<or> is_free (load_block m' (of_nat b))"
proof (cases "rxs = [] \<or> \<not> snd (hd rxs)")
  case True
  then have "coal rxs k ys = rev rxs @ (fst (absorb k ys), True) # snd (absorb k ys)"
    by (cases "(rxs, k, ys)" rule: coal.cases) auto
  moreover have "chain m' 0 H0 (coal rxs k ys)" using coalesce_chain [OF ch e b] run by auto
  ultimately show ?thesis by (auto simp: b block_at_def)
next
  case False
  then obtain n rest where r: "rxs = (n, True) # rest" by (cases rxs) (auto simp: prod_eq_iff)
  let ?c = "endof H0 (rev rest)" and ?ys = "(fst (absorb k ys), True) # snd (absorb k ys)"
  note at = chain_Cons_at [OF ch e b]
  obtain m1 where m1: "merge_next (of_nat b) m = Some m1" "chain m1 0 H0 (rev rest @ (n, True) # ?ys)"
    using merge_next_chain [OF ch e b] by (auto simp: r)
  have e1: "endof H0 (rev rest @ (n, True) # ?ys) = HE"
    using e endof_absorb [of "?c + HDR + n" k ys True] by (simp add: r)
  note ct = chain_Cons_at [OF m1(2) e1 refl]
  have "prev_block (load_block m1 (of_nat b)) = of_nat ?c" "is_free (load_block m1 (of_nat ?c))"
    using m1(2) b by (simp_all add: block_at_def r)
  then have "coalesce_blocks (of_nat ?c) m1 = Some m'"
    using run at m1(1) ct(4) by (subst (asm) coalesce_blocks.simps) (simp add: block_at_def)
  moreover obtain m2 where m2: "merge_next (of_nat ?c) m1 = Some m2"
    "chain m2 0 H0 (rev rest @ (fst (absorb n ?ys), True) # snd (absorb n ?ys))"
    using merge_next_chain [OF m1(2) e1 refl] by blast
  moreover have g: "gone m2 (rev rest @ (fst (absorb n ?ys), True) # snd (absorb n ?ys)) b"
    using merge_next_gone [OF m1(2) e1 refl m2(1)] by (simp add: b r)
  ultimately have run2: "(let prv = prev_block (load_block m2 (of_nat ?c))
       in if prv \<noteq> NULL \<and> is_free (load_block m2 prv) then coalesce_blocks prv m2 else Some m2) = Some m'"
    using ct by (subst (asm) coalesce_blocks.simps) (simp add: block_at_def)
  have cl: "coal rxs k ys = coal rest n ?ys" by (simp add: r)
  have e2: "endof H0 (rev rest @ (fst (absorb n ?ys), True) # snd (absorb n ?ys)) = HE"
    using e1 endof_absorb [of ?c n ?ys True] by simp
  show ?thesis
  proof (cases "rest = [] \<or> \<not> snd (hd rest)")
    case True
    then have "coal rest n ?ys = rev rest @ (fst (absorb n ?ys), True) # snd (absorb n ?ys)"
      by (cases "(rest, n, ?ys)" rule: coal.cases) auto
    moreover have "prev_block (load_block m2 (of_nat ?c)) = NULL \<or>
        \<not> is_free (load_block m2 (prev_block (load_block m2 (of_nat ?c))))"
      using m2(2) True by (cases rest) (auto simp: block_at_def)
    then have "m' = m2" using run2 by (auto simp: Let_def)
    ultimately show ?thesis using g cl by simp
  next
    case False
    then obtain j rest2 where r2: "rest = (j, True) # rest2" by (cases rest) (auto simp: prod_eq_iff)
    let ?zs = "(fst (absorb n ?ys), True) # snd (absorb n ?ys)"
    have m2': "chain m2 0 H0 (rev rest2 @ (j, True) # ?zs)" "endof H0 (rev rest2 @ (j, True) # ?zs) = HE"
      "gone m2 (rev rest2 @ (j, True) # ?zs) b"
      using m2(2) e2 g by (simp_all add: r2)
    have "prev_block (load_block m2 (of_nat ?c)) = of_nat (endof H0 (rev rest2))"
      "is_free (load_block m2 (of_nat (endof H0 (rev rest2))))"
      using m2(2) by (simp_all add: r2 block_at_def)
    then have "coalesce_blocks (of_nat (endof H0 (rev rest2))) m2 = Some m'"
      using run2 chain_Cons_at(4) [OF m2'(1,2) refl] by simp
    from coalesce_keeps_gone [OF m2'(1,2) this m2'(3)] show ?thesis by (simp add: cl r2)
  qed
qed

section \<open>First fit\<close>

text \<open>
  The layout operation of \<open>kmalloc_aligned\<close>: the first free block of at least \<open>n\<close> bytes is
  taken, and split when at least a header and 16 bytes remain. The result is the address of
  the block and the new layout.
\<close>

fun alloc_layout :: "nat \<Rightarrow> nat \<Rightarrow> layout \<Rightarrow> (nat \<times> layout) option" where
  "alloc_layout n a [] = None"
| "alloc_layout n a ((k, f) # bs) =
    (if f \<and> n \<le> k then
       Some (a, if n + 45 \<le> k then (n, False) # (k - n - HDR, True) # bs else (k, False) # bs)
     else map_option (\<lambda>(b, bs'). (b, (k, f) # bs')) (alloc_layout n (a + HDR + k) bs))"

text \<open>The live blocks of a layout, as a map from the address of a block to its size.\<close>

fun live_map :: "nat \<Rightarrow> layout \<Rightarrow> nat \<rightharpoonup> nat" where
  "live_map a [] = Map.empty"
| "live_map a ((k, f) # bs) =
    (if f then live_map (a + HDR + k) bs else (live_map (a + HDR + k) bs)(a \<mapsto> k))"

text \<open>No two neighbours are both free.\<close>

definition no_adjacent_free :: "layout \<Rightarrow> bool" where
  "no_adjacent_free bs \<longleftrightarrow> successively (\<lambda>x y. \<not> (snd x \<and> snd y)) bs"

lemma alloc_layout_split:
  assumes "alloc_layout n a bs = Some (b, bs')"
  obtains xs k ys where "bs = xs @ (k, True) # ys" "n \<le> k" "b = endof a xs"
    "\<forall>(j, f) \<in> set xs. \<not> (f \<and> n \<le> j)"
    "bs' = xs @ (if n + 45 \<le> k then [(n, False), (k - n - HDR, True)] else [(k, False)]) @ ys"
  using assms
proof (induction n a bs arbitrary: b bs' thesis rule: alloc_layout.induct)
  case (2 n a k f bs)
  show ?case
  proof (cases "f \<and> n \<le> k")
    case True
    then show ?thesis using 2(3) 2(2) [of "[]" k bs] by auto
  next
    case False
    with 2(3) obtain bs'' where r: "alloc_layout n (a + HDR + k) bs = Some (b, bs'')" "bs' = (k, f) # bs''"
      by auto
    from 2(1) [OF False _ r(1)] obtain xs j ys where "bs = xs @ (j, True) # ys" "n \<le> j"
      "b = endof (a + HDR + k) xs" "\<forall>(j, f) \<in> set xs. \<not> (f \<and> n \<le> j)"
      "bs'' = xs @ (if n + 45 \<le> j then [(n, False), (j - n - HDR, True)] else [(j, False)]) @ ys"
      by blast
    with False r show ?thesis by (intro 2(2) [of "(k, f) # xs" j ys]) auto
  qed
qed simp

lemma alloc_layout_None:
  "alloc_layout n a bs = None \<longleftrightarrow> (\<forall>(k, f) \<in> set bs. \<not> (f \<and> n \<le> k))"
  by (induction n a bs rule: alloc_layout.induct) auto

lemma find_free_from_chain:
  "chain m p a bs \<Longrightarrow> endof a bs = HE \<Longrightarrow> H0 \<le> a \<Longrightarrow> n < 18446744073709551616 \<Longrightarrow>
   find_free_from (of_nat (nextptr a)) (of_nat n) m =
     Some (case alloc_layout n a bs of None \<Rightarrow> NULL | Some (b, _) \<Rightarrow> of_nat b)"
proof (induction m p a bs rule: chain.induct)
  case (1 m p a)
  then show ?case by (subst find_free_from.simps) simp
next
  case (2 m p a k f bs)
  have a: "a + HDR + k \<le> HE" using 2(3) endof_ge [of "a + HDR + k" bs] by simp
  then have ptr: "nextptr a = a" "(of_nat a :: u64) \<noteq> 0"
    using 2(4) of_nat_ne_0 [of a] by (auto simp: nextptr_def)
  have "unat (of_nat k :: u64) = k" "unat (of_nat n :: u64) = n"
    using a 2(5) by (auto intro!: unat_of_nat_u64)
  then have "(of_nat n :: u64) \<le> of_nat k \<longleftrightarrow> n \<le> k" by (simp add: word_le_nat_alt)
  moreover have "find_free_from (of_nat (nextptr (a + HDR + k))) (of_nat n) m =
     Some (case alloc_layout n (a + HDR + k) bs of None \<Rightarrow> NULL | Some (b, _) \<Rightarrow> of_nat b)"
    using 2 by simp
  ultimately show ?case
    using 2(2) ptr by (subst find_free_from.simps) (auto simp: block_at_def split: option.splits)
qed

text \<open>What first fit does to the map of live blocks and to the shape of the layout.\<close>

lemma live_map_range: "live_map a bs b = Some k \<Longrightarrow> a \<le> b \<and> b + HDR + k \<le> endof a bs"
proof (induction a bs rule: live_map.induct)
  case (2 a k f bs)
  then show ?case using endof_ge [of "a + HDR + k" bs] by (auto split: if_splits)
qed simp

lemma live_map_outside: "b < a \<Longrightarrow> live_map a bs b = None"
  using live_map_range [of a bs b] by (cases "live_map a bs b") auto

lemma alloc_layout_live:
  assumes "alloc_layout n a bs = Some (b, bs')"
  shows "\<exists>k. n \<le> k \<and> live_map a bs' = (live_map a bs)(b \<mapsto> k) \<and> live_map a bs b = None"
  using assms
proof (induction n a bs arbitrary: b bs' rule: alloc_layout.induct)
  case (2 n a k f bs)
  show ?case
  proof (cases "f \<and> n \<le> k")
    case True
    show ?thesis
    proof (cases "n + 45 \<le> k")
      case fits: True
      have "a + HDR + n + HDR + (k - n - HDR) = a + HDR + k" using fits by simp
      then show ?thesis using True fits 2(2)
        by (intro exI [of _ n]) (auto simp: live_map_outside fun_eq_iff ac_simps)
    next
      case False
      then show ?thesis using True 2(2)
        by (intro exI [of _ k]) (auto simp: live_map_outside fun_eq_iff)
    qed
  next
    case False
    with 2(2) obtain bs'' where r: "alloc_layout n (a + HDR + k) bs = Some (b, bs'')" "bs' = (k, f) # bs''"
      by auto
    have "a + HDR + k \<le> b" using r(1) endof_ge by (auto elim: alloc_layout_split)
    moreover obtain j where "n \<le> j" "live_map (a + HDR + k) bs'' = (live_map (a + HDR + k) bs)(b \<mapsto> j)"
      "live_map (a + HDR + k) bs b = None"
      using 2(1) [OF False r(1)] by blast
    ultimately show ?thesis using r by (auto simp: fun_upd_twist intro!: exI [of _ j])
  qed
qed simp

lemma alloc_layout_endof: "alloc_layout n a bs = Some (b, bs') \<Longrightarrow> endof a bs' = endof a bs"
  by (erule alloc_layout_split) (auto simp: ac_simps)

lemma alloc_layout_adjacent:
  "alloc_layout n a bs = Some (b, bs') \<Longrightarrow> no_adjacent_free bs \<Longrightarrow> no_adjacent_free bs'"
  by (erule alloc_layout_split)
    (auto simp: no_adjacent_free_def successively_append_iff successively_Cons split: if_splits)

section \<open>Release\<close>

lemma absorb_live: "live_map a ((fst (absorb k ys), True) # snd (absorb k ys)) = live_map a ((k, True) # ys)"
  by (induction k ys rule: absorb.induct) (auto simp: ac_simps)

lemma live_map_append:
  "live_map (endof a xs) ys = live_map (endof a xs) zs \<Longrightarrow> live_map a (xs @ ys) = live_map a (xs @ zs)"
  by (induction a xs rule: live_map.induct) auto

lemma coal_live: "live_map a (coal rxs k ys) = live_map a (rev rxs @ (k, True) # ys)"
proof (induction rxs k ys rule: coal.induct)
  case (1 k ys)
  then show ?case using absorb_live by simp
next
  case (2 n rxs k ys)
  show ?case
    using live_map_append [of a "rev ((n, False) # rxs)" "(fst (absorb k ys), True) # snd (absorb k ys)"
        "(k, True) # ys"] absorb_live [of "endof a (rev rxs) + HDR + n" k ys] by simp
next
  case (3 n rxs k ys)
  show ?case
    using live_map_append [of a "rev ((n, True) # rxs)" "(fst (absorb k ys), True) # snd (absorb k ys)"
        "(k, True) # ys"] absorb_live [of "endof a (rev rxs) + HDR + n" k ys] 3 by simp
qed

lemma coal_endof: "endof a (coal rxs k ys) = endof a (rev rxs @ (k, True) # ys)"
proof (induction rxs k ys rule: coal.induct)
  case (3 n rxs k ys)
  then show ?case
    using endof_absorb [of "endof a (rev rxs) + HDR + n" k ys True] by simp
next
  case (1 k ys)
  then show ?case using endof_absorb [of a k ys True] by simp
next
  case (2 n rxs k ys)
  then show ?case using endof_absorb [of "endof a (rev rxs) + HDR + n" k ys True] by simp
qed

lemma absorb_adjacent:
  "no_adjacent_free ys \<Longrightarrow> no_adjacent_free ((fst (absorb k ys), True) # snd (absorb k ys))"
proof (induction k ys rule: absorb.induct)
  case (1 k n ys)
  then show ?case by (auto simp: no_adjacent_free_def successively_Cons)
qed (auto simp: no_adjacent_free_def successively_Cons)

lemma coal_adjacent:
  "no_adjacent_free (rev rxs) \<Longrightarrow> no_adjacent_free ys \<Longrightarrow> no_adjacent_free (coal rxs k ys)"
proof (induction rxs k ys rule: coal.induct)
  case (1 k ys)
  then show ?case by (simp add: absorb_adjacent)
next
  case (2 n rxs k ys)
  then show ?case
    using absorb_adjacent [of ys k]
    by (auto simp: no_adjacent_free_def successively_append_iff successively_Cons)
next
  case (3 n rxs k ys)
  then show ?case
    using absorb_adjacent [of ys k]
    by (auto simp: no_adjacent_free_def successively_append_iff)
qed

text \<open>
  The layout operation of \<open>kfree\<close> on the block at address \<open>b\<close>: \<open>None\<close> when there is no used
  block at \<open>b\<close>.
\<close>

fun free_layout :: "layout \<Rightarrow> nat \<Rightarrow> layout \<Rightarrow> nat \<Rightarrow> layout option" where
  "free_layout rxs a [] b = None"
| "free_layout rxs a ((k, f) # ys) b =
    (if a = b then (if f then None else Some (coal rxs k ys))
     else free_layout ((k, f) # rxs) (a + HDR + k) ys b)"

lemma free_layout_split:
  "free_layout rxs (endof H0 (rev rxs)) ys b = Some bs' \<Longrightarrow>
   \<exists>xs k zs. rev rxs @ ys = xs @ (k, False) # zs \<and> b = endof H0 xs \<and> bs' = coal (rev xs) k zs"
proof (induction rxs "endof H0 (rev rxs)" ys b rule: free_layout.induct)
  case (2 rxs k f ys b)
  show ?case
  proof (cases "endof H0 (rev rxs) = b")
    case True
    with 2(2) show ?thesis
      by (intro exI [of _ "rev rxs"] exI [of _ k] exI [of _ ys]) (auto split: if_splits)
  next
    case False
    then show ?thesis using 2 by simp
  qed
qed simp

lemma free_layout_live:
  "live_map a ys b = Some k \<Longrightarrow> \<exists>bs'. free_layout rxs a ys b = Some bs'"
proof (induction rxs a ys b rule: free_layout.induct)
  case (2 rxs a j f ys b)
  then show ?case using live_map_outside [of a "a + HDR + j" ys] by (auto split: if_splits)
qed simp

end
