(* ===== verification/Heap_Props.thy ===== *)
theory Heap_Props
  imports Heap_Layout
begin

text \<open>
  The operations of \<open>kmalloc.c\<close> against the layout operations. \<open>heap_inv s bs\<close>: the heap of
  state \<open>s\<close> is initialised and its blocks are \<open>bs\<close>. Each operation keeps the invariant, moves
  the layout as its list operation does, and changes no byte outside the headers and the
  block it hands out; so the data of live blocks survives every operation.
\<close>

section \<open>Invariant\<close>

definition heap_inv :: "'a heap_scheme \<Rightarrow> layout \<Rightarrow> bool" where
  "heap_inv s bs \<longleftrightarrow> heap_initialized s \<and> heap_head s = HEAP_START \<and>
    endof H0 bs = HE \<and> chain (ram s) 0 H0 bs"

text \<open>The data bytes of the live blocks.\<close>

definition live_bytes :: "layout \<Rightarrow> nat set" where
  "live_bytes bs = {x. \<exists>b k. live_map H0 bs b = Some k \<and> x \<in> {b + HDR..<b + HDR + k}}"

lemma live_map_hdrs: "live_map a bs b = Some k \<Longrightarrow> {b + HDR..<b + HDR + k} \<inter> hdrs a bs = {}"
proof (induction a bs rule: live_map.induct)
  case (2 a j f bs)
  show ?case
  proof (cases "\<not> f \<and> a = b")
    case True
    then show ?thesis using 2(3) hdrs_bounds [of _ "a + HDR + j" bs] by fastforce
  next
    case False
    then have "live_map (a + HDR + j) bs b = Some k" using 2(3) by (auto split: if_splits)
    with 2(1,2) False live_map_range [OF this] show ?thesis by (cases f) auto
  qed
qed simp

lemma live_map_at: "live_map a (xs @ (k, False) # ys) (endof a xs) = Some k"
proof (induction a xs rule: live_map.induct)
  case (2 a j f bs)
  then show ?case using endof_ge [of "a + HDR + j" bs] by auto
qed simp

lemma live_bytes_hdrs: "live_bytes bs \<inter> hdrs H0 bs = {}"
  using live_map_hdrs [of H0 bs] by (fastforce simp: live_bytes_def)

lemma live_map_disjoint:
  "live_map a bs b = Some k \<Longrightarrow> live_map a bs c = Some j \<Longrightarrow> b \<noteq> c \<Longrightarrow>
   b + HDR + k \<le> c \<or> c + HDR + j \<le> b"
proof (induction a bs rule: live_map.induct)
  case (2 a n f bs)
  then show ?case
    using live_map_range [of "a + HDR + n" bs b k] live_map_range [of "a + HDR + n" bs c j]
    by (auto split: if_splits)
qed simp

lemma heap_start_nat [simp]: "HEAP_START = of_nat H0"
  by (simp add: heap_consts)

section \<open>Initialisation\<close>

lemma emit_heap [simp]:
  "heap_head (emit cs s) = heap_head s" "heap_initialized (emit cs s) = heap_initialized s"
  "total_allocations (emit cs s) = total_allocations s" "total_frees (emit cs s) = total_frees s"
  "failed_allocations (emit cs s) = failed_allocations s"
  by (simp_all add: emit_def)

lemma heap_init_inv: "heap_inv (heap_init s) [(2097123, True)]"
  by (simp add: heap_inv_def heap_init_def block_at_def Let_def HEAP_SIZE_def sizeof_heap_block_def)

section \<open>Allocation\<close>

lemma align_up_power_of_two:
  assumes "al \<noteq> 0" and "al AND (al - 1) = 0"
  shows "align_up sz al = (sz + ucast al - 1) AND ucast (NOT (al - 1))"
  using assms by (simp add: align_up_def)

text \<open>The allocator proper, after the tests: first fit, split, mark, clear.\<close>

definition carve :: "u64 \<Rightarrow> u64 \<Rightarrow> mem \<Rightarrow> mem" where
  "carve block sz m = memset (set_free (split_block block sz m) block False) (block_to_ptr block) 0 sz"

lemma block_to_ptr_nat: "block_to_ptr (of_nat b) = of_nat (b + HDR)"
  by (simp add: block_to_ptr_def heap_consts add.commute)

lemma split_block_small:
  "block_at m b k True nx pv \<Longrightarrow> k < n + 45 \<Longrightarrow> n + 45 < 18446744073709551616 \<Longrightarrow>
   split_block (of_nat b) (of_nat n) m = m"
proof -
  assume a: "block_at m b k True nx pv" "k < n + 45" "n + 45 < 18446744073709551616"
  have "of_nat n + (sizeof_heap_block + 16) = (of_nat (n + 45) :: u64)" by (simp add: heap_consts)
  moreover have "unat (of_nat (n + 45) :: u64) = n + 45" using a(3) by (rule unat_of_nat_u64)
  moreover have "unat (of_nat k :: u64) = k" using a(2,3) by (intro unat_of_nat_u64) simp
  ultimately have "(of_nat k :: u64) < of_nat n + (sizeof_heap_block + 16)"
    using a(2) by (simp add: word_less_nat_alt del: of_nat_add)
  with a(1) show ?thesis by (simp add: split_block_def block_at_def)
qed

lemma carve_chain:
  assumes ch: "chain m 0 H0 bs" and e: "endof H0 bs = HE"
    and al: "alloc_layout n H0 bs = Some (b, bs')"
  shows "chain (carve (of_nat b) (of_nat n) m) 0 H0 bs'"
    and "same_except m (carve (of_nat b) (of_nat n) m) (hdrs H0 bs' \<union> {b + HDR..<b + HDR + n})"
    and "x \<in> {b + HDR..<b + HDR + n} \<Longrightarrow> carve (of_nat b) (of_nat n) m (of_nat x) = 0"
proof -
  obtain xs k ys where sp: "bs = xs @ (k, True) # ys" "n \<le> k" "b = endof H0 xs"
    and bs': "bs' = xs @ (if n + 45 \<le> k then [(n, False), (k - n - HDR, True)] else [(k, False)]) @ ys"
    using al by (elim alloc_layout_split)
  note at = chain_Cons_at [OF ch [unfolded sp(1)] e [unfolded sp(1)] sp(3)]
  define j where "j = (if n + 45 \<le> k then n else k)"
  define zs where "zs = (if n + 45 \<le> k then (k - n - HDR, True) # ys else ys)"
  define m1 where "m1 = split_block (of_nat b) (of_nat n) m"
  define m2 where "m2 = set_free m1 (of_nat b) False"
  have shape: "bs' = xs @ (j, False) # zs" by (simp add: bs' j_def zs_def)
  have nj: "n \<le> j" using sp(2) by (simp add: j_def)
  have c1: "chain m1 0 H0 (xs @ (j, True) # zs) \<and> same_except m m1 (hdrs H0 (xs @ (j, True) # zs))"
  proof (cases "n + 45 \<le> k")
    case True
    then show ?thesis
      using split_block_chain [OF ch [unfolded sp(1)] e [unfolded sp(1)] True sp(3)]
      by (simp add: m1_def j_def zs_def)
  next
    case False
    then have "m1 = m" unfolding m1_def
      using split_block_small [OF at(1), of n] at(3) sp(2) by simp
    then show ?thesis using ch sp(1) False by (simp add: j_def zs_def)
  qed
  have e1: "endof H0 (xs @ (j, True) # zs) = HE"
    using e alloc_layout_endof [OF al] by (simp add: shape)
  note fr = set_free_chain [OF conjunct1 [OF c1] eq_imp_le [OF e1] sp(3), of False, folded m2_def]
  define P where "P = {b + HDR..<b + HDR + n}"
  have le: "b + HDR + n \<le> HE"
    using e1 endof_ge [of "b + HDR + j" zs] nj by (simp add: sp(3))
  have P: "unat (x - of_nat (b + HDR)) < n \<longleftrightarrow> unat x \<in> P" for x :: u64
  proof -
    have "unat (of_nat (b + HDR) :: u64) = b + HDR" using le by (intro unat_of_nat_u64) simp
    then show ?thesis
      using le unat_lt_u64 [of x] by (auto simp: P_def unat_diff_u64 simp del: of_nat_add)
  qed
  have n64: "unat (of_nat n :: u64) = n" using le by (intro unat_of_nat_u64) simp
  have cv: "carve (of_nat b) (of_nat n) m = memset m2 (of_nat (b + HDR)) 0 (of_nat n)"
    by (simp add: carve_def m1_def m2_def block_to_ptr_nat)
  have ms: "carve (of_nat b) (of_nat n) m x = (if unat x \<in> P then 0 else m2 x)" for x
    unfolding cv memset_eq n64 P by simp
  have s3: "same_except m2 (carve (of_nat b) (of_nat n) m) P"
    by (simp add: same_except_def ms)
  have "live_map H0 bs' b = Some j" by (simp add: shape sp(3) live_map_at)
  from live_map_hdrs [OF this] have "hdrs H0 bs' \<inter> {b + HDR..<b + HDR + j} = {}" by blast
  moreover have "P \<subseteq> {b + HDR..<b + HDR + j}" using nj by (auto simp: P_def)
  ultimately have dis: "hdrs H0 bs' \<inter> P = {}" by blast
  show "chain (carve (of_nat b) (of_nat n) m) 0 H0 bs'"
    using chain_same_except [OF fr(1) _ s3] dis e1 by (simp add: shape)
  show "same_except m (carve (of_nat b) (of_nat n) m) (hdrs H0 bs' \<union> {b + HDR..<b + HDR + n})"
    using c1 fr(2) s3 by (auto simp: same_except_def shape sp(3) P_def)
  show "carve (of_nat b) (of_nat n) m (of_nat x) = 0" if "x \<in> {b + HDR..<b + HDR + n}"
  proof -
    have "unat (of_nat x :: u64) = x" using that le by (intro unat_of_nat_u64) simp
    then show ?thesis using that ms by (simp add: P_def)
  qed
qed

lemma align_up_bound: "al \<noteq> 0 \<Longrightarrow> unat (align_up sz al) < 4294967296"
proof -
  assume "al \<noteq> 0"
  then have "align_up sz al \<le> ucast (NOT (al - 1))"
    by (simp add: align_up_def word_and_le1)
  then have "unat (align_up sz al) \<le> unat (ucast (NOT (al - 1)) :: u64)"
    by (simp only: word_le_nat_alt)
  also have "\<dots> = unat (NOT (al - 1))" by (rule unat_ucast_u32)
  also have "\<dots> < 4294967296" by (rule unat_lt_u32)
  finally show ?thesis .
qed

text \<open>The code's test \<open>(alignment & (alignment - 1)) == 0\<close> recognises powers of two.\<close>

lemma and_pred_nat: "0 < n \<Longrightarrow> n AND (n - 1) = (0::nat) \<Longrightarrow> \<exists>k. n = 2 ^ k"
proof (induction n rule: less_induct)
  case (less n)
  have r: "n AND (n - 1) = of_bool (odd n \<and> odd (n - 1)) + 2 * (n div 2 AND (n - 1) div 2)"
    by (rule and_rec)
  show ?case
  proof (cases "even n")
    case True
    then obtain m where m: "n = 2 * m" by blast
    then have "(n - 1) div 2 = m - 1" "0 < m" using less.prems(1) by auto
    then have "m AND (m - 1) = 0" using r less.prems(2) m by simp
    then obtain k where "m = 2 ^ k" using less.IH [of m] m \<open>0 < m\<close> by auto
    then show ?thesis using m by (intro exI [of _ "Suc k"]) simp
  next
    case False
    then obtain m where m: "n = 2 * m + 1" by (elim oddE)
    then have "m = 0" using r less.prems(2) by simp
    then show ?thesis using m by (intro exI [of _ 0]) simp
  qed
qed

lemma power_of_two_test:
  assumes "al \<noteq> 0" and "al AND (al - 1) = (0::u32)"
  obtains k where "k < 32" "al = 2 ^ k"
proof -
  have "0 < unat al" using assms(1) by (simp add: unat_gt_0)
  moreover from this have "unat (al - 1) = unat al - 1"
    by (subst unat_sub) (simp_all add: word_le_nat_alt)
  moreover have "unat al AND unat (al - 1) = 0"
    using assms(2) by (metis unsigned_and_eq unsigned_0)
  ultimately obtain k where k: "unat al = 2 ^ k" using and_pred_nat [of "unat al"] by auto
  have "k < 32"
  proof (rule ccontr)
    assume "\<not> k < 32"
    then have "(2::nat) ^ 32 \<le> 2 ^ k" by (intro power_increasing) simp_all
    then show False using k unat_lt_u32 [of al] by simp
  qed
  moreover have "al = 2 ^ k"
  proof -
    have "al = of_nat (unat al)" by simp
    also have "\<dots> = 2 ^ k" by (simp only: k) simp
    finally show ?thesis .
  qed
  ultimately show ?thesis by (rule that)
qed

text \<open>A power of two rounds sizes up, as long as the sum stays below \<open>2 ^ 32\<close>.\<close>

lemma align_up_rounds:
  assumes k: "k < 32" and al: "al = (2::u32) ^ k" and le: "unat sz + 2 ^ k \<le> 4294967296"
  shows "unat (align_up sz al) = (unat sz + 2 ^ k - 1) div 2 ^ k * 2 ^ k"
proof -
  define x where "x = sz + ucast al - 1"
  have alu: "unat al = 2 ^ k"
  proof -
    have "(2::nat) ^ k < 2 ^ 32" using k by (rule power_strict_increasing) simp
    then have "unat (of_nat (2 ^ k) :: u32) = 2 ^ k" by (intro unat_of_nat_u32) simp
    then show ?thesis by (simp add: al)
  qed
  then have al0: "al \<noteq> 0" by (metis power_not_zero unat_0 zero_neq_numeral)
  have p1: "1 \<le> (2::nat) ^ k" by simp
  have up: "unat (sz + ucast al :: u64) = unat sz + 2 ^ k"
    using le by (simp add: unat_word_ariths alu)
  have "unat x = unat (sz + ucast al :: u64) - 1"
    unfolding x_def using up trans_le_add2 [OF p1, of "unat sz"]
    by (subst unat_sub_u64) (simp_all add: word_le_nat_alt)
  then have x: "unat x = unat sz + 2 ^ k - 1" by (simp only: up)
  have "2 ^ k - 1 = (mask k :: u32)" by (simp add: mask_eq_exp_minus_1)
  then have a: "align_up sz al = x AND ucast (NOT (mask k :: u32))"
    using al0 by (simp add: align_up_def x_def al)
  have small: "\<not> bit x n" if "32 \<le> n" for n
  proof -
    have "unat x < 2 ^ 32" using x le p1 by simp
    also have "(2::nat) ^ 32 \<le> 2 ^ n" using that by (rule power_increasing) simp
    finally have "\<not> bit (unat x) n" by (simp add: bit_iff_odd)
    then show ?thesis by (simp add: bit_unsigned_iff)
  qed
  have "x AND ucast (NOT (mask k :: u32)) = push_bit k (drop_bit k x)"
  proof (rule bit_word_eqI)
    fix n assume "n < LENGTH(64)"
    then show "bit (x AND ucast (NOT (mask k :: u32))) n = bit (push_bit k (drop_bit k x)) n"
      using small [of n] by (cases "n < 32") (auto simp: bit_simps)
  qed
  then have "align_up sz al = push_bit k (drop_bit k x)" by (simp add: a)
  moreover have "unat (push_bit k (drop_bit k x)) = unat x div 2 ^ k * 2 ^ k"
  proof -
    have "unat x div 2 ^ k * 2 ^ k \<le> unat x" by (rule div_times_less_eq_dividend)
    then have "unat x div 2 ^ k * 2 ^ k < 18446744073709551616" using unat_lt_u64 [of x] by linarith
    moreover have "unat (push_bit k (drop_bit k x)) = take_bit 64 (push_bit k (drop_bit k (unat x)))"
      by (simp only: unsigned_push_bit_eq unat_drop_bit_eq) simp
    ultimately show ?thesis
      by (simp add: take_bit_eq_mod push_bit_eq_mult drop_bit_eq_div)
  qed
  ultimately show ?thesis by (simp only: x)
qed

text \<open>The alignment in use: anything that is not a power of two is replaced by 16.\<close>

definition alignment_used :: "u32 \<Rightarrow> u32" where
  "alignment_used al = (if al = 0 \<or> al AND (al - 1) \<noteq> 0 then HEAP_ALIGNMENT else al)"

lemma alignment_used_nonzero: "alignment_used al \<noteq> 0"
  by (simp add: alignment_used_def HEAP_ALIGNMENT_def)

lemma kmalloc_aligned_refines:
  assumes inv: "heap_inv s bs" and sz: "sz \<noteq> 0"
    and n: "n = unat (align_up sz (alignment_used al))"
  shows "kmalloc_aligned sz al s =
    (case alloc_layout n H0 bs of
       None \<Rightarrow> Some (NULL, emit [Color VGA_COLOR_LIGHT_RED, Text ''[ERROR] kmalloc: sin memoria ('',
                                Dec (of_nat n), Line '' bytes)'']
                           (s\<lparr>failed_allocations := failed_allocations s + 1\<rparr>))
     | Some (b, bs') \<Rightarrow>
         Some (of_nat (b + HDR),
           s\<lparr>ram := carve (of_nat b) (of_nat n) (ram s), total_allocations := total_allocations s + 1\<rparr>))"
proof -
  have n64: "n < 18446744073709551616" by (simp add: n)
  have al_n: "align_up sz (alignment_used al) = of_nat n" by (simp add: n)
  have head: "find_free_block (of_nat n) s =
      Some (case alloc_layout n H0 bs of None \<Rightarrow> NULL | Some (b, _) \<Rightarrow> of_nat b)"
    using find_free_from_chain [of "ram s" 0 H0 bs n] inv n64
    by (simp add: find_free_block_def heap_inv_def nextptr_def)
  have ne: "(of_nat b :: u64) \<noteq> 0" if "alloc_layout n H0 bs = Some (b, bs')" for b bs'
  proof -
    obtain xs k ys where x: "bs = xs @ (k, True) # ys" "b = endof H0 xs"
      using \<open>alloc_layout n H0 bs = Some (b, bs')\<close> by (elim alloc_layout_split)
    show ?thesis
      using inv unfolding heap_inv_def x(1) by (intro chain_Cons_at(4) [OF _ _ x(2)]) auto
  qed
  show ?thesis
    using inv sz head ne
    by (auto simp: kmalloc_aligned_def heap_inv_def alignment_used_def [symmetric] al_n carve_def
        block_to_ptr_nat Let_def split: option.splits prod.splits)
qed

lemma live_bytesI: "live_map H0 bs b = Some k \<Longrightarrow> x \<in> {b + HDR..<b + HDR + k} \<Longrightarrow> x \<in> live_bytes bs"
  by (auto simp: live_bytes_def)

lemma live_bytesE:
  assumes "x \<in> live_bytes bs"
  obtains b k where "live_map H0 bs b = Some k" "x \<in> {b + HDR..<b + HDR + k}"
  using assms by (auto simp: live_bytes_def)

text \<open>Blocks that are live in both layouts lie outside the fresh block and outside the headers.\<close>

lemma live_bytes_fresh:
  assumes "live_map H0 bs' = (live_map H0 bs)(b \<mapsto> k)" and "live_map H0 bs b = None" and "n \<le> k"
  shows "live_bytes bs \<inter> (hdrs H0 bs' \<union> {b + HDR..<b + HDR + n}) = {}"
proof -
  have "x \<notin> hdrs H0 bs' \<and> x \<notin> {b + HDR..<b + HDR + n}" if x: "x \<in> live_bytes bs" for x
  proof -
    obtain c j where c: "live_map H0 bs c = Some j" "x \<in> {c + HDR..<c + HDR + j}"
      using live_bytesE [OF x] by blast
    have "c \<noteq> b" using c assms(2) by auto
    then have c': "live_map H0 bs' c = Some j" "live_map H0 bs' b = Some k"
      using c assms(1) by simp_all
    then have "x \<in> live_bytes bs'" using c(2) by (intro live_bytesI)
    then have "x \<notin> hdrs H0 bs'" using live_bytes_hdrs by blast
    moreover have "x \<notin> {b + HDR..<b + HDR + n}"
      using live_map_disjoint [OF c'] \<open>c \<noteq> b\<close> c(2) assms(3) by auto
    ultimately show ?thesis by blast
  qed
  then show ?thesis by blast
qed

text \<open>What an operation of the heap leaves alone: the RAM outside of the heap, and the other components.\<close>

definition heap_frame :: "'a heap_scheme \<Rightarrow> 'a heap_scheme \<Rightarrow> bool" where
  "heap_frame s s' \<longleftrightarrow> same_except (ram s) (ram s') {H0..<HE} \<and> heap.more s' = heap.more s"

lemma heap_frame_refl [simp]: "heap_frame s s"
  by (simp add: heap_frame_def)

lemma heap_frame_trans [trans]: "heap_frame s s' \<Longrightarrow> heap_frame s' s'' \<Longrightarrow> heap_frame s s''"
  by (auto simp: heap_frame_def intro: same_except_trans)

lemma heap_frameI:
  assumes "same_except (ram s) (ram s') (hdrs H0 bs \<union> {c..<d})" and "endof H0 bs = HE"
    and "H0 \<le> c" and "d \<le> HE" and "heap.more s' = heap.more s"
  shows "heap_frame s s'"
  using assms hdrs_bounds [of _ H0 bs]
  by (auto simp: heap_frame_def intro!: same_except_mono [OF assms(1)])

lemma kmalloc_aligned_live:
  assumes inv: "heap_inv s bs" and sz: "sz \<noteq> 0"
    and n: "n = unat (align_up sz (alignment_used al))"
    and run: "kmalloc_aligned sz al s = Some (p, s')" and p: "p \<noteq> NULL"
  obtains b k bs' where "p = of_nat (b + HDR)" "alloc_layout n H0 bs = Some (b, bs')" "heap_inv s' bs'"
    "live_map H0 bs' = (live_map H0 bs)(b \<mapsto> k)" "live_map H0 bs b = None" "n \<le> k"
    "\<forall>x \<in> {b + HDR..<b + HDR + n}. ram s' (of_nat x) = 0"
    "\<forall>x. unat x \<in> live_bytes bs \<longrightarrow> ram s' x = ram s x"
    "no_adjacent_free bs \<Longrightarrow> no_adjacent_free bs'"
    "total_allocations s' = total_allocations s + 1" "total_frees s' = total_frees s"
    "console s' = console s" "heap_frame s s'"
proof (cases "alloc_layout n H0 bs")
  case None
  then show ?thesis using kmalloc_aligned_refines [OF inv sz n] run p by simp
next
  case (Some r)
  obtain b bs' where r: "r = (b, bs')" by (cases r)
  note al = Some [unfolded r]
  have s': "p = of_nat (b + HDR)"
    "s' = s\<lparr>ram := carve (of_nat b) (of_nat n) (ram s), total_allocations := total_allocations s + 1\<rparr>"
    using kmalloc_aligned_refines [OF inv sz n] run by (simp_all add: al)
  have ch: "chain (ram s) 0 H0 bs" "endof H0 bs = HE" using inv by (simp_all add: heap_inv_def)
  note cv = carve_chain [OF ch al]
  obtain k where k: "n \<le> k" "live_map H0 bs' = (live_map H0 bs)(b \<mapsto> k)" "live_map H0 bs b = None"
    using alloc_layout_live [OF al] by blast
  have inv': "heap_inv s' bs'"
    using inv cv(1) alloc_layout_endof [OF al] by (simp add: heap_inv_def s')
  have keep: "\<forall>x. unat x \<in> live_bytes bs \<longrightarrow> ram s' x = ram s x"
    using same_except_keep [OF cv(2) live_bytes_fresh [OF k(2,3,1)]] by (simp add: s')
  have "b + HDR + n \<le> HE" "H0 \<le> b + HDR"
    using live_map_range [of H0 bs' b k] k inv' by (auto simp: heap_inv_def)
  then have fr: "heap_frame s s'"
    using cv(2) inv' by (intro heap_frameI [of s s' bs' "b + HDR" "b + HDR + n"]) (simp_all add: s' heap_inv_def)
  show ?thesis
    by (rule that [OF s'(1) al inv' k(2,3,1) _ keep alloc_layout_adjacent [OF al] _ _ _ fr])
      (use cv(3) in \<open>auto simp: s'\<close>)
qed

section \<open>Release\<close>

lemma ptr_to_block_nat: "ptr_to_block (of_nat (b + HDR)) = of_nat b"
  by (simp add: ptr_to_block_def heap_consts)

lemma live_map_split:
  "live_map a bs b = Some k \<Longrightarrow> \<exists>xs ys. bs = xs @ (k, False) # ys \<and> b = endof a xs"
proof (induction a bs rule: live_map.induct)
  case (2 a j f bs)
  show ?case
  proof (cases "\<not> f \<and> a = b")
    case True
    then show ?thesis using 2(3) by (intro exI [of _ "[]"] exI [of _ bs]) simp
  next
    case False
    then have "live_map (a + HDR + j) bs b = Some k" using 2(3) by (auto split: if_splits)
    then obtain xs ys where "bs = xs @ (k, False) # ys" "b = endof (a + HDR + j) xs"
      using 2(1,2) by (cases f) blast+
    then show ?thesis by (intro exI [of _ "(j, f) # xs"] exI [of _ ys]) simp
  qed
qed simp

lemma live_map_freed:
  "live_map a (xs @ (k, True) # ys) = (live_map a (xs @ (k, False) # ys))(endof a xs := None)"
proof (induction a xs rule: live_map.induct)
  case (1 a)
  then show ?case by (auto simp: fun_eq_iff live_map_outside)
next
  case (2 a j f bs)
  then show ?case using endof_ge [of "a + HDR + j" bs] by (auto simp: fun_upd_twist)
qed

text \<open>\<open>free_layout\<close> finds the block that \<open>live_map\<close> names.\<close>

lemma free_layout_at:
  "free_layout rxs (endof H0 (rev rxs)) (xs @ (k, False) # ys) (endof (endof H0 (rev rxs)) xs)
    = Some (coal (rev xs @ rxs) k ys)"
proof (induction xs arbitrary: rxs)
  case (Cons x xs)
  obtain j f where x: "x = (j, f)" by (cases x)
  show ?case
    using Cons [of "(j, f) # rxs"] endof_ge [of "endof H0 (rev rxs) + HDR + j" xs] by (simp add: x)
qed simp

lemma hdrs_flags: "map fst xs = map fst ys \<Longrightarrow> hdrs a xs = hdrs a ys"
proof (induction a xs arbitrary: ys rule: hdrs.induct)
  case (2 a n f bs)
  from 2(2) obtain g zs where ys: "ys = (n, g) # zs" "map fst bs = map fst zs"
    by (cases ys) auto
  show ?case using 2(1) [OF ys(2)] by (simp add: ys(1))
qed simp

lemma kfree_live:
  assumes inv: "heap_inv s bs" and live: "live_map H0 bs b = Some k"
  obtains s' bs' where "kfree (of_nat (b + HDR)) s = Some s'" "heap_inv s' bs'"
    "free_layout [] H0 bs b = Some bs'" "live_map H0 bs' = (live_map H0 bs)(b := None)"
    "\<forall>x. unat x \<in> live_bytes bs \<longrightarrow> ram s' x = ram s x"
    "no_adjacent_free bs \<Longrightarrow> no_adjacent_free bs'"
    "total_frees s' = total_frees s + 1" "total_allocations s' = total_allocations s"
    "console s' = console s" "heap_frame s s'"
    "magic (load_block (ram s') (of_nat b)) = 0 \<or> is_free (load_block (ram s') (of_nat b))"
proof -
  obtain xs ys where bs: "bs = xs @ (k, False) # ys" and b: "b = endof H0 xs"
    using live_map_split [OF live] by blast
  have ch: "chain (ram s) 0 H0 (xs @ (k, False) # ys)" and e: "endof H0 (xs @ (k, False) # ys) = HE"
    using inv by (simp_all add: heap_inv_def bs)
  note at = chain_Cons_at [OF ch e b]
  define m1 where "m1 = set_free (ram s) (of_nat b) True"
  note fr = set_free_chain [OF ch eq_imp_le [OF e] b, of True, folded m1_def]
  have e1: "endof H0 (xs @ (k, True) # ys) = HE" using e by simp
  obtain m2 where m2: "coalesce_blocks (of_nat b) m1 = Some m2" "chain m2 0 H0 (coal (rev xs) k ys)"
    "same_except m1 m2 (hdrs H0 (xs @ (k, True) # ys))"
    using coalesce_chain [of m1 "rev xs" k ys b] fr(1) e1 b by auto
  define s' where "s' = s\<lparr>ram := m2, total_frees := total_frees s + 1\<rparr>"
  have "of_nat (b + HDR) \<noteq> NULL"
    using at(2,3) by (intro of_nat_ne_0) auto
  then have run: "kfree (of_nat (b + HDR)) s = Some s'"
    using inv at m2(1)
    by (simp add: kfree_def ptr_to_block_nat heap_inv_def block_at_def m1_def s'_def Let_def del: of_nat_add)
  have inv': "heap_inv s' (coal (rev xs) k ys)"
    using inv m2(2) coal_endof [of H0 "rev xs" k ys] e1 by (simp add: heap_inv_def s'_def)
  have live': "live_map H0 (coal (rev xs) k ys) = (live_map H0 bs)(b := None)"
    using coal_live [of H0 "rev xs" k ys] live_map_freed [of H0 xs k ys] by (simp add: bs b)
  have hd: "hdrs H0 (xs @ (k, True) # ys) = hdrs H0 bs" unfolding bs by (rule hdrs_flags) simp
  have "{b..<b + HDR} \<subseteq> hdrs H0 bs" by (auto simp: bs b)
  from same_except_trans [OF fr(2) m2(3) [unfolded hd] this subset_refl]
  have keep: "\<forall>x. unat x \<in> live_bytes bs \<longrightarrow> ram s' x = ram s x"
    using same_except_keep [OF _ live_bytes_hdrs] by (simp add: s'_def)
  have adj: "no_adjacent_free (coal (rev xs) k ys)" if "no_adjacent_free bs"
    using that by (intro coal_adjacent)
      (auto simp: bs no_adjacent_free_def successively_append_iff successively_Cons)
  have fl: "free_layout [] H0 bs b = Some (coal (rev xs) k ys)"
    using free_layout_at [of "[]" xs k ys] by (simp add: bs b)
  have fr': "heap_frame s s'"
    using same_except_trans [OF fr(2) m2(3) [unfolded hd] \<open>{b..<b + HDR} \<subseteq> hdrs H0 bs\<close> subset_refl] inv
    by (intro heap_frameI [of s s' bs H0 H0]) (simp_all add: s'_def heap_inv_def)
  have "gone m2 (coal (rev xs) k ys) b \<or> is_free (load_block m2 (of_nat b))"
    using coalesce_start [of m1 "rev xs" k ys b m2] fr(1) e1 b m2(1) by simp
  then have again: "magic (load_block (ram s') (of_nat b)) = 0 \<or> is_free (load_block (ram s') (of_nat b))"
    by (auto simp: gone_def s'_def)
  show ?thesis
    by (rule that [OF run inv' fl live' keep adj _ _ _ fr' again]) (auto simp: s'_def)
qed

section \<open>Reallocation\<close>

lemma live_valid:
  assumes "heap_inv s bs" and "live_map H0 bs b = Some k"
  shows "is_valid_block (ram s) (of_nat b)" "block_size (load_block (ram s) (of_nat b)) = of_nat k"
    "\<not> is_free (load_block (ram s) (of_nat b))" "(of_nat (b + HDR) :: u64) \<noteq> NULL"
    "H0 \<le> b" "b + HDR + k \<le> HE"
proof -
  obtain xs ys where bs: "bs = xs @ (k, False) # ys" and b: "b = endof H0 xs"
    using live_map_split [OF assms(2)] by blast
  have "chain (ram s) 0 H0 (xs @ (k, False) # ys)" "endof H0 (xs @ (k, False) # ys) = HE"
    using assms(1) by (simp_all add: heap_inv_def bs)
  note at = chain_Cons_at [OF this b]
  then show "is_valid_block (ram s) (of_nat b)" "block_size (load_block (ram s) (of_nat b)) = of_nat k"
    "\<not> is_free (load_block (ram s) (of_nat b))" "H0 \<le> b" "b + HDR + k \<le> HE"
    by (simp_all add: block_at_def)
  show "(of_nat (b + HDR) :: u64) \<noteq> NULL"
    using at by (intro of_nat_ne_0) auto
qed

text \<open>A write outside the headers, such as a client's write to its block, keeps the invariant.\<close>

lemma heap_inv_write:
  "heap_inv s bs \<Longrightarrow> same_except (ram s) m S \<Longrightarrow> S \<inter> hdrs H0 bs = {} \<Longrightarrow> heap_inv (s\<lparr>ram := m\<rparr>) bs"
  unfolding heap_inv_def by (auto intro!: chain_same_except [of "ram s"])

lemma memcpy_blocks:
  assumes "c + HDR + k \<le> HE" and "b + HDR + k \<le> HE" and "b + HDR + k \<le> c + HDR \<or> c + HDR + k \<le> b + HDR"
  shows "same_except m (memcpy m (of_nat (c + HDR)) (of_nat (b + HDR)) (of_nat k)) {c + HDR..<c + HDR + k}"
    and "i < k \<Longrightarrow> memcpy m (of_nat (c + HDR)) (of_nat (b + HDR)) (of_nat k) (of_nat (c + HDR + i))
      = m (of_nat (b + HDR + i))"
proof -
  have k64: "unat (of_nat k :: u64) = k" and c64: "unat (of_nat (c + HDR) :: u64) = c + HDR"
    using assms by (auto intro!: unat_of_nat_u64 simp del: of_nat_add)
  have cp: "memcpy m (of_nat (c + HDR)) (of_nat (b + HDR)) (of_nat k)
      = copy_ref m (of_nat (c + HDR)) (of_nat (b + HDR)) k"
  proof (cases "k = 0")
    case True
    then show ?thesis by (simp add: memcpy_def for_u64_done copy_ref_def)
  next
    case False
    have "apart (of_nat (c + HDR)) k (of_nat (b + HDR)) k"
      by (rule apart_nat) (use assms False in auto)
    then show ?thesis
      using memcpy_apart [of "of_nat (c + HDR)" "of_nat k" "of_nat (b + HDR)" m] False
      by (simp add: k64 del: of_nat_add)
  qed
  show "same_except m (memcpy m (of_nat (c + HDR)) (of_nat (b + HDR)) (of_nat k)) {c + HDR..<c + HDR + k}"
    unfolding cp same_except_def
  proof (intro allI impI)
    fix x :: u64 assume "unat x \<notin> {c + HDR..<c + HDR + k}"
    then have "k \<le> unat (x - of_nat (c + HDR))"
      using assms unat_lt_u64 [of x] by (auto simp: unat_diff_u64 c64 simp del: of_nat_add)
    then show "copy_ref m (of_nat (c + HDR)) (of_nat (b + HDR)) k x = m x" by (rule copy_ref_outside)
  qed
  show "memcpy m (of_nat (c + HDR)) (of_nat (b + HDR)) (of_nat k) (of_nat (c + HDR + i))
      = m (of_nat (b + HDR + i))" if "i < k"
    using copy_ref_inside [OF that, of m "of_nat (c + HDR)" "of_nat (b + HDR)"] assms
    unfolding cp by simp
qed

lemma krealloc_keeps_small:
  assumes "heap_inv s bs" and "live_map H0 bs b = Some k" and "0 < new_size" and "unat new_size \<le> k"
  shows "krealloc (of_nat (b + HDR)) new_size s = Some (of_nat (b + HDR), s)"
proof -
  note v = live_valid [OF assms(1,2)]
  have "unat (of_nat k :: u64) = k" using v(6) by (intro unat_of_nat_u64) simp
  then have "new_size \<le> of_nat k" using assms(4) by (simp add: word_le_nat_alt)
  moreover have "new_size \<noteq> 0" using assms(3) by auto
  ultimately show ?thesis
    using v by (simp add: krealloc_def ptr_to_block_nat Let_def del: of_nat_add)
qed

text \<open>\<open>krealloc\<close> of a live block that is too small, when the allocation inside it succeeds.\<close>

lemma krealloc_relocates:
  assumes inv: "heap_inv s bs" and live: "live_map H0 bs b = Some k" and k: "k < unat new_size"
    and n: "n = unat (align_up new_size HEAP_ALIGNMENT)" and big: "unat new_size \<le> n"
    and q: "kmalloc_aligned new_size HEAP_ALIGNMENT s = Some (q, s1)" and q0: "q \<noteq> NULL"
  obtains c j bs' s' where "krealloc (of_nat (b + HDR)) new_size s = Some (of_nat (c + HDR), s')"
    "q = of_nat (c + HDR)" "heap_inv s' bs'" "n \<le> j" "c \<noteq> b"
    "live_map H0 bs' = (live_map H0 bs)(c \<mapsto> j, b := None)" "live_map H0 bs c = None"
    "\<forall>i < k. ram s' (of_nat (c + HDR + i)) = ram s (of_nat (b + HDR + i))"
    "\<forall>x. unat x \<in> live_bytes bs - {b + HDR..<b + HDR + k} \<longrightarrow> ram s' x = ram s x"
    "no_adjacent_free bs \<Longrightarrow> no_adjacent_free bs'" "heap_frame s s'"
    "\<exists>bs1. alloc_layout n H0 bs = Some (c, bs1) \<and> free_layout [] H0 bs1 b = Some bs'"
proof -
  note v = live_valid [OF inv live]
  have "unat (of_nat k :: u64) = k" using v(6) by (intro unat_of_nat_u64) simp
  then have nle: "\<not> new_size \<le> of_nat k" using k by (simp add: word_le_nat_alt)
  have ns0: "new_size \<noteq> 0" using k by (auto simp: unat_eq_zero)
  have "alignment_used HEAP_ALIGNMENT = HEAP_ALIGNMENT"
    by (simp add: alignment_used_def HEAP_ALIGNMENT_def)
  then have n': "n = unat (align_up new_size (alignment_used HEAP_ALIGNMENT))" by (simp add: n)
  obtain c j bs1 where c: "q = of_nat (c + HDR)" "heap_inv s1 bs1"
    "live_map H0 bs1 = (live_map H0 bs)(c \<mapsto> j)" "live_map H0 bs c = None" "n \<le> j"
    "\<forall>x. unat x \<in> live_bytes bs \<longrightarrow> ram s1 x = ram s x"
    "no_adjacent_free bs \<Longrightarrow> no_adjacent_free bs1" "heap_frame s s1" "alloc_layout n H0 bs = Some (c, bs1)"
    using kmalloc_aligned_live [OF inv ns0 n' q q0] by metis
  have cb: "c \<noteq> b" using c(4) live by auto
  have lv1: "live_map H0 bs1 b = Some k" "live_map H0 bs1 c = Some j" using c(3) live cb by simp_all
  note v1 = live_valid [OF c(2) lv1(1)] and w1 = live_valid [OF c(2) lv1(2)]
  have kj: "k \<le> j" using k big c(5) by simp
  have dis: "b + HDR + k \<le> c + HDR \<or> c + HDR + k \<le> b + HDR"
    using live_map_disjoint [OF lv1] cb kj by auto
  define m2 where "m2 = memcpy (ram s1) (of_nat (c + HDR)) (of_nat (b + HDR)) (of_nat k)"
  have le: "c + HDR + k \<le> HE" "b + HDR + k \<le> HE" using w1(6) v1(6) kj by auto
  note cp = memcpy_blocks [OF le dis, where m = "ram s1", folded m2_def]
  have cj: "{c + HDR..<c + HDR + k} \<subseteq> {c + HDR..<c + HDR + j}" using kj by auto
  have "{c + HDR..<c + HDR + k} \<inter> hdrs H0 bs1 = {}"
    using live_map_hdrs [OF lv1(2)] cj by blast
  define s2 where "s2 = s1\<lparr>ram := m2\<rparr>"
  have r2: "ram s2 = m2" by (simp add: s2_def)
  have inv2: "heap_inv s2 bs1"
    unfolding s2_def
    by (rule heap_inv_write [OF c(2) cp(1)]) (use live_map_hdrs [OF lv1(2)] cj in blast)
  obtain s3 bs3 where f: "kfree (of_nat (b + HDR)) s2 = Some s3" "heap_inv s3 bs3"
    "live_map H0 bs3 = (live_map H0 bs1)(b := None)"
    "\<forall>x. unat x \<in> live_bytes bs1 \<longrightarrow> ram s3 x = m2 x"
    "no_adjacent_free bs1 \<Longrightarrow> no_adjacent_free bs3" "heap_frame s2 s3" "free_layout [] H0 bs1 b = Some bs3"
    using kfree_live [OF inv2 lv1(1), unfolded r2] by blast
  have "heap_frame s1 s2"
    using w1(5,6) kj by (auto simp: heap_frame_def s2_def intro!: same_except_mono [OF cp(1)])
  then have fr: "heap_frame s s3" using c(8) f(6) by (blast intro: heap_frame_trans)
  have "krealloc (of_nat (b + HDR)) new_size s = Some (of_nat (c + HDR), s3)"
    using v nle ns0 q q0 v1 f(1)
    by (simp add: krealloc_def kmalloc_def ptr_to_block_nat Let_def c(1) m2_def s2_def del: of_nat_add)
  note run = this
  have fresh: "x \<notin> {c + HDR..<c + HDR + k}" if "x \<in> live_bytes bs" for x
    using live_bytes_fresh [OF c(3,4) kj] that by blast
  have live1: "x \<in> live_bytes bs1" if "x \<in> live_bytes bs" for x
    using that c(3,4) unfolding live_bytes_def by force
  have keep: "ram s3 x = ram s x" if "unat x \<in> live_bytes bs" for x
    using that f(4) c(6) live1 same_exceptD [OF cp(1) fresh] by simp
  have moved: "ram s3 (of_nat (c + HDR + i)) = ram s (of_nat (b + HDR + i))" if i: "i < k" for i
  proof -
    have u: "unat (of_nat (c + HDR + i) :: u64) = c + HDR + i" "unat (of_nat (b + HDR + i) :: u64) = b + HDR + i"
      using i le by (auto intro!: unat_of_nat_u64 simp del: of_nat_add)
    have "c + HDR + i \<in> live_bytes bs1" "b + HDR + i \<in> live_bytes bs"
      using i kj live lv1(2) by (auto intro: live_bytesI)
    then have "ram s3 (of_nat (c + HDR + i)) = m2 (of_nat (c + HDR + i))"
      and "ram s1 (of_nat (b + HDR + i)) = ram s (of_nat (b + HDR + i))"
      using f(4) c(6) u by metis+
    then show ?thesis using cp(2) [OF i] by simp
  qed
  have "live_map H0 bs3 = (live_map H0 bs)(c \<mapsto> j, b := None)" using f(3) c(3) by simp
  then show ?thesis
    by (rule that [OF run c(1) f(2) c(5) cb _ c(4)]) (use moved keep f(5,7) c(7,9) fr in auto)
qed

lemma krealloc_moves:
  assumes inv: "heap_inv s bs" and live: "live_map H0 bs b = Some k" and k: "k < unat new_size"
    and n: "n = unat (align_up new_size HEAP_ALIGNMENT)" and big: "unat new_size \<le> n"
    and run: "krealloc (of_nat (b + HDR)) new_size s = Some (p, s')" and p: "p \<noteq> NULL"
  obtains c j bs' where "p = of_nat (c + HDR)" "heap_inv s' bs'" "n \<le> j" "c \<noteq> b"
    "live_map H0 bs' = (live_map H0 bs)(c \<mapsto> j, b := None)" "live_map H0 bs c = None"
    "\<forall>i < k. ram s' (of_nat (c + HDR + i)) = ram s (of_nat (b + HDR + i))"
    "\<forall>x. unat x \<in> live_bytes bs - {b + HDR..<b + HDR + k} \<longrightarrow> ram s' x = ram s x"
    "no_adjacent_free bs \<Longrightarrow> no_adjacent_free bs'"
proof -
  note v = live_valid [OF inv live]
  have "unat (of_nat k :: u64) = k" using v(6) by (intro unat_of_nat_u64) simp
  then have nle: "\<not> new_size \<le> of_nat k" using k by (simp add: word_le_nat_alt)
  have ns0: "new_size \<noteq> 0" using k by (auto simp: unat_eq_zero)
  obtain q s1 where q: "kmalloc_aligned new_size HEAP_ALIGNMENT s = Some (q, s1)"
    using run v nle ns0 by (auto simp: krealloc_def kmalloc_def ptr_to_block_nat Let_def
        simp del: of_nat_add split: bind_splits)
  have q0: "q \<noteq> NULL"
    using run v nle ns0 q p
    by (auto simp: krealloc_def kmalloc_def ptr_to_block_nat Let_def simp del: of_nat_add)
  show ?thesis
    by (rule krealloc_relocates [OF inv live k n big q q0]) (use run that in auto)
qed

end
