(* ===== verification/Heap_Client.thy ===== *)
theory Heap_Client
  imports Heap_Props
begin

text \<open>
  The heap as its clients see it. \<open>heap_client s A\<close>: a well-behaved client, which frees and
  writes only what it was given, can reach heap state \<open>s\<close> holding the allocations \<open>A\<close>, a map
  from pointers to requested sizes. The safety properties of the allocator hold in every
  such state.
\<close>

text \<open>Requests up to this bound are rounded up without loss, whatever the alignment.\<close>

abbreviation MAX_REQUEST :: nat where "MAX_REQUEST \<equiv> 2147483648"

inductive heap_client :: "'a heap_scheme \<Rightarrow> (u64 \<rightharpoonup> nat) \<Rightarrow> bool" where
  start: "heap_client (heap_init s) Map.empty"
| malloc: "heap_client s A \<Longrightarrow> unat sz \<le> MAX_REQUEST \<Longrightarrow> kmalloc_aligned sz al s = Some (p, s') \<Longrightarrow>
    heap_client s' (if p = NULL then A else A(p \<mapsto> unat sz))"
| calloc: "heap_client s A \<Longrightarrow> unat (nmemb * sz) \<le> MAX_REQUEST \<Longrightarrow> kcalloc nmemb sz s = Some (p, s') \<Longrightarrow>
    heap_client s' (if p = NULL then A else A(p \<mapsto> unat nmemb * unat sz))"
| free: "heap_client s A \<Longrightarrow> A p = Some n \<Longrightarrow> kfree p s = Some s' \<Longrightarrow> heap_client s' (A(p := None))"
| realloc: "heap_client s A \<Longrightarrow> A p = Some n \<Longrightarrow> 0 < sz \<Longrightarrow> unat sz \<le> MAX_REQUEST \<Longrightarrow>
    krealloc p sz s = Some (q, s') \<Longrightarrow>
    heap_client s' (if q = NULL then A else A(p := None, q \<mapsto> unat sz))"
| store: "heap_client s A \<Longrightarrow> A p = Some n \<Longrightarrow> i < n \<Longrightarrow>
    heap_client (s\<lparr>ram := (ram s)(p + of_nat i := v)\<rparr>) A"

section \<open>Rounding keeps requests\<close>

lemma align_up_keeps:
  assumes "unat sz \<le> MAX_REQUEST"
  shows "unat sz \<le> unat (align_up sz (alignment_used al))"
proof -
  have "alignment_used al \<noteq> 0 \<and> alignment_used al AND (alignment_used al - 1) = 0"
    by (auto simp: alignment_used_def HEAP_ALIGNMENT_def)
  then obtain k where k: "k < 32" "alignment_used al = 2 ^ k"
    by (meson power_of_two_test)
  have "(2::nat) ^ k \<le> 2 ^ 31" using k(1) by (intro power_increasing) simp_all
  then have "unat sz + 2 ^ k \<le> 4294967296" using assms by simp
  from align_up_rounds [OF k this]
  have "unat (align_up sz (alignment_used al)) = (unat sz + 2 ^ k - 1) div 2 ^ k * 2 ^ k" .
  moreover have "n \<le> (n + d - 1) div d * d" if "0 < d" for n d :: nat
  proof -
    have "(n + d - 1) mod d < d" using that by simp
    moreover have "(n + d - 1) div d * d + (n + d - 1) mod d = n + d - 1" by simp
    ultimately show ?thesis by linarith
  qed
  ultimately show ?thesis by simp
qed

section \<open>The client's invariant\<close>

text \<open>\<open>A\<close> names exactly the live blocks, and no request exceeds its block.\<close>

definition owned :: "(u64 \<rightharpoonup> nat) \<Rightarrow> (nat \<rightharpoonup> nat) \<Rightarrow> bool" where
  "owned A L \<longleftrightarrow>
    (\<forall>p n. A p = Some n \<longrightarrow> (\<exists>b k. p = of_nat (b + HDR) \<and> L b = Some k \<and> n \<le> k)) \<and>
    (\<forall>b k. L b = Some k \<longrightarrow> of_nat (b + HDR) \<in> dom A)"

definition client_inv :: "'a heap_scheme \<Rightarrow> (u64 \<rightharpoonup> nat) \<Rightarrow> layout \<Rightarrow> bool" where
  "client_inv s A bs \<longleftrightarrow> heap_inv s bs \<and> no_adjacent_free bs \<and> owned A (live_map H0 bs)"

lemma client_invD:
  assumes "client_inv s A bs" and "A p = Some n"
  obtains b k where "p = of_nat (b + HDR)" "live_map H0 bs b = Some k" "n \<le> k"
  using assms unfolding client_inv_def owned_def by blast

text \<open>Two blocks of the heap with the same data pointer are the same block.\<close>

lemma block_ptr_inj:
  assumes "of_nat (b + HDR) = (of_nat (c + HDR) :: u64)"
    and "b + HDR \<le> HE" and "c + HDR \<le> HE"
  shows "b = c"
proof -
  have "b + HDR < 18446744073709551616" "c + HDR < 18446744073709551616" using assms(2,3) by simp_all
  from of_nat_eq_u64 [OF this] assms(1) show ?thesis by simp
qed

lemma heap_inv_HE: "heap_inv s bs \<Longrightarrow> live_map H0 bs b = Some k \<Longrightarrow> b + HDR + k \<le> HE"
  by (rule live_valid(6))

lemma owned_alloc:
  assumes ow: "owned A L" and "L b = None" and "n \<le> k" and "b + HDR \<le> HE"
    and L: "\<And>c j. L c = Some j \<Longrightarrow> c + HDR \<le> HE"
  shows "owned (A(of_nat (b + HDR) \<mapsto> n)) (L(b \<mapsto> k))"
proof -
  have ne: "of_nat (c + HDR) \<noteq> (of_nat (b + HDR) :: u64) \<and> c \<noteq> b" if c: "L c = Some j" for c j
    using block_ptr_inj [of c b] assms(2,4) L [OF c] c by auto
  show ?thesis
    unfolding owned_def
  proof (intro conjI allI impI)
    fix p m assume p: "(A(of_nat (b + HDR) \<mapsto> n)) p = Some m"
    show "\<exists>c j. p = of_nat (c + HDR) \<and> (L(b \<mapsto> k)) c = Some j \<and> m \<le> j"
    proof (cases "p = of_nat (b + HDR)")
      case True
      then show ?thesis using p assms(3) by (intro exI [of _ b] exI [of _ k]) simp
    next
      case False
      then have "A p = Some m" using p by (simp del: of_nat_add)
      then obtain c j where c: "p = of_nat (c + HDR)" "L c = Some j" "m \<le> j"
        using ow unfolding owned_def by blast
      then show ?thesis using ne [OF c(2)] by (intro exI [of _ c] exI [of _ j]) simp
    qed
  qed (use ow in \<open>auto simp: owned_def split: if_splits simp del: of_nat_add\<close>)
qed

lemma owned_free:
  assumes ow: "owned A L" and b: "L b = Some k" and L: "\<And>c j. L c = Some j \<Longrightarrow> c + HDR \<le> HE"
  shows "owned (A(of_nat (b + HDR) := None)) (L(b := None))"
proof -
  have ne: "of_nat (c + HDR) = (of_nat (b + HDR) :: u64) \<longleftrightarrow> c = b" if c: "L c = Some j" for c j
    using block_ptr_inj [of c b] L [OF b] L [OF c] by auto
  show ?thesis
    unfolding owned_def
  proof (intro conjI allI impI)
    fix p m assume p: "(A(of_nat (b + HDR) := None)) p = Some m"
    then have "A p = Some m" "p \<noteq> of_nat (b + HDR)" by (auto split: if_splits)
    then obtain c j where c: "p = of_nat (c + HDR)" "L c = Some j" "m \<le> j" "c \<noteq> b"
      using ow unfolding owned_def by blast
    then show "\<exists>c j. p = of_nat (c + HDR) \<and> (L(b := None)) c = Some j \<and> m \<le> j"
      by (intro exI [of _ c] exI [of _ j]) simp
  next
    fix c j assume "(L(b := None)) c = Some j"
    then have c: "L c = Some j" "c \<noteq> b" by (auto split: if_splits)
    then show "of_nat (c + HDR) \<in> dom (A(of_nat (b + HDR) := None))"
      using ow ne [OF c(1)] unfolding owned_def by (auto simp del: of_nat_add)
  qed
qed

lemma owned_self: "owned A L \<Longrightarrow> A (of_nat (b + HDR)) = Some n \<Longrightarrow> L b = Some k \<Longrightarrow> m \<le> k \<Longrightarrow>
   owned (A(of_nat (b + HDR) \<mapsto> m)) L"
  unfolding owned_def
proof (intro conjI allI impI; elim conjE)
  fix q j
  assume a: "A (of_nat (b + HDR)) = Some n" "L b = Some k" "m \<le> k" "(A(of_nat (b + HDR) \<mapsto> m)) q = Some j"
    "\<forall>p n. A p = Some n \<longrightarrow> (\<exists>b k. p = of_nat (b + HDR) \<and> L b = Some k \<and> n \<le> k)"
  show "\<exists>b k. q = of_nat (b + HDR) \<and> L b = Some k \<and> j \<le> k"
    using a by (cases "q = of_nat (b + HDR)") (auto simp del: of_nat_add)
qed auto

text \<open>The bytes of an allocation are data bytes of a live block.\<close>

lemma client_byte_at:
  assumes "client_inv s A bs" and "A p = Some n" and "i < n"
  obtains b k where "p = of_nat (b + HDR)" "live_map H0 bs b = Some k" "n \<le> k"
    "unat (p + of_nat i) = b + HDR + i"
proof -
  obtain b k where b: "p = of_nat (b + HDR)" "live_map H0 bs b = Some k" "n \<le> k"
    using client_invD [OF assms(1,2)] .
  have le: "b + HDR + k \<le> HE" using assms(1) b(2) unfolding client_inv_def by (blast intro: heap_inv_HE)
  have "unat (of_nat (b + HDR + i) :: u64) = b + HDR + i"
    using le b(3) assms(3) by (intro unat_of_nat_u64) simp
  moreover have "p + of_nat i = of_nat (b + HDR + i)" by (simp add: b(1))
  ultimately show ?thesis using that [OF b] by (simp del: of_nat_add)
qed

lemma client_byte:
  assumes "client_inv s A bs" and "A p = Some n" and "i < n"
  shows "unat (p + of_nat i) \<in> live_bytes bs"
  by (rule client_byte_at [OF assms]) (use assms(3) in \<open>auto intro: live_bytesI\<close>)

lemma layout_range: "heap_inv s bs \<Longrightarrow> live_map H0 bs c = Some j \<Longrightarrow> c + HDR \<le> HE"
  using heap_inv_HE by fastforce

lemma heap_inv_emit [simp]: "heap_inv (emit cs s) bs = heap_inv s bs"
  by (simp add: heap_inv_def)

lemma heap_inv_counters [simp]:
  "heap_inv (s\<lparr>failed_allocations := x\<rparr>) bs = heap_inv s bs"
  by (simp add: heap_inv_def)

lemma alloc_ptr_not_null:
  assumes "heap_inv s bs" and "alloc_layout n H0 bs = Some (b, bs')"
  shows "(of_nat (b + HDR) :: u64) \<noteq> NULL"
proof -
  obtain k where "live_map H0 bs' b = Some k" using alloc_layout_live [OF assms(2)] by auto
  from live_map_range [OF this] show ?thesis
    using assms(1) alloc_layout_endof [OF assms(2)] by (intro of_nat_ne_0) (auto simp: heap_inv_def)
qed

text \<open>A request that yields \<open>NULL\<close> changes no memory.\<close>

lemma kmalloc_aligned_fails:
  assumes inv: "heap_inv s bs" and run: "kmalloc_aligned sz al s = Some (NULL, s')"
  shows "ram s' = ram s" "heap_inv s' bs"
proof -
  have "ram s' = ram s \<and> heap_inv s' bs"
  proof (cases "sz = 0")
    case True
    then show ?thesis using run inv by (auto simp: kmalloc_aligned_def heap_inv_def)
  next
    case False
    note r = kmalloc_aligned_refines [OF inv False refl, of al]
    show ?thesis
    proof (cases "alloc_layout (unat (align_up sz (alignment_used al))) H0 bs")
      case None
      then show ?thesis using r run inv by auto
    next
      case (Some x)
      then show ?thesis
        using r run alloc_ptr_not_null [OF inv, of _ "fst x" "snd x"]
        by (cases x) (auto simp del: of_nat_add)
    qed
  qed
  then show "ram s' = ram s" "heap_inv s' bs" by auto
qed

section \<open>Every operation keeps the client's invariant\<close>

lemma client_malloc:
  assumes ci: "client_inv s A bs" and sz: "unat sz \<le> MAX_REQUEST"
    and run: "kmalloc_aligned sz al s = Some (p, s')"
  obtains bs' where "client_inv s' (if p = NULL then A else A(p \<mapsto> unat sz)) bs'"
    "\<forall>x. unat x \<in> live_bytes bs \<longrightarrow> ram s' x = ram s x"
    "p \<noteq> NULL \<Longrightarrow> p \<notin> dom A" "p \<noteq> NULL \<Longrightarrow> \<forall>i < unat sz. ram s' (p + of_nat i) = 0"
proof (cases "p = NULL")
  case True
  have inv: "heap_inv s bs" using ci by (simp add: client_inv_def)
  have "ram s' = ram s \<and> heap_inv s' bs"
    using kmalloc_aligned_fails [OF inv] run True by blast
  then show ?thesis using that [of bs] ci True by (simp add: client_inv_def)
next
  case False
  have inv: "heap_inv s bs" using ci by (simp add: client_inv_def)
  have sz0: "sz \<noteq> 0"
    using run False inv by (auto simp: kmalloc_aligned_def heap_inv_def)
  obtain b k bs' where r: "p = of_nat (b + HDR)" "heap_inv s' bs'"
    "live_map H0 bs' = (live_map H0 bs)(b \<mapsto> k)" "live_map H0 bs b = None"
    "unat (align_up sz (alignment_used al)) \<le> k"
    "\<forall>x \<in> {b + HDR..<b + HDR + unat (align_up sz (alignment_used al))}. ram s' (of_nat x) = 0"
    "\<forall>x. unat x \<in> live_bytes bs \<longrightarrow> ram s' x = ram s x"
    "no_adjacent_free bs \<Longrightarrow> no_adjacent_free bs'"
    by (rule kmalloc_aligned_live [OF inv sz0 refl run False]) blast
  note keeps = align_up_keeps [OF sz, of al]
  have "live_map H0 bs' b = Some k" by (simp add: r(3))
  from layout_range [OF r(2) this] have ow: "owned (A(p \<mapsto> unat sz)) (live_map H0 bs')"
    unfolding r(1,3) using ci r(4,5) keeps layout_range [OF inv]
    by (intro owned_alloc) (auto simp: client_inv_def)
  have new: "p \<notin> dom A"
  proof
    assume "p \<in> dom A"
    then obtain c j where c: "p = of_nat (c + HDR)" "live_map H0 bs c = Some j"
      using client_invD [OF ci] by (metis domD)
    have "c = b"
      using r(1) c(1) heap_inv_HE [OF inv c(2)] heap_inv_HE [OF r(2), of b k] r(3)
      by (intro block_ptr_inj) auto
    then show False using c r(4) by simp
  qed
  have zero: "ram s' (p + of_nat i) = 0" if "i < unat sz" for i
    using r(6) [rule_format, of "b + HDR + i"] keeps that by (simp add: r(1))
  show ?thesis
    by (rule that [of bs'])
      (use ow r ci False new zero in \<open>simp_all add: client_inv_def\<close>)
qed

lemma client_free:
  assumes ci: "client_inv s A bs" and p: "A p = Some n" and run: "kfree p s = Some s'"
  obtains bs' where "client_inv s' (A(p := None)) bs'"
    "\<forall>x. unat x \<in> live_bytes bs \<longrightarrow> ram s' x = ram s x"
proof -
  obtain b k where b: "p = of_nat (b + HDR)" "live_map H0 bs b = Some k"
    using client_invD [OF ci p] by blast
  have inv: "heap_inv s bs" using ci by (simp add: client_inv_def)
  obtain s1 bs' where f: "kfree (of_nat (b + HDR)) s = Some s1" "heap_inv s1 bs'"
    "live_map H0 bs' = (live_map H0 bs)(b := None)"
    "\<forall>x. unat x \<in> live_bytes bs \<longrightarrow> ram s1 x = ram s x" "no_adjacent_free bs \<Longrightarrow> no_adjacent_free bs'"
    by (rule kfree_live [OF inv b(2)]) blast
  have "owned (A(p := None)) (live_map H0 bs')"
    unfolding b(1) f(3) using ci b(2) layout_range [OF inv]
    by (intro owned_free) (auto simp: client_inv_def)
  with f ci run b(1) show ?thesis by (intro that [of bs']) (auto simp: client_inv_def)
qed

lemma client_write:
  assumes ci: "client_inv s A bs" and p: "A p = Some n" and i: "i < n"
  shows "client_inv (s\<lparr>ram := (ram s)(p + of_nat i := v)\<rparr>) A bs"
proof -
  have b: "unat (p + of_nat i) \<in> live_bytes bs" by (rule client_byte [OF ci p i])
  have "same_except (ram s) ((ram s)(p + of_nat i := v)) {unat (p + of_nat i)}"
    by (auto simp: same_except_def)
  then have "heap_inv (s\<lparr>ram := (ram s)(p + of_nat i := v)\<rparr>) bs"
    by (rule heap_inv_write [rotated]) (use ci b live_bytes_hdrs [of bs] in \<open>auto simp: client_inv_def\<close>)
  then show ?thesis using ci by (simp add: client_inv_def)
qed

lemma client_realloc:
  assumes ci: "client_inv s A bs" and p: "A p = Some n" and sz0: "0 < sz" and sz: "unat sz \<le> MAX_REQUEST"
    and run: "krealloc p sz s = Some (q, s')"
  obtains bs' where "client_inv s' (if q = NULL then A else A(p := None, q \<mapsto> unat sz)) bs'"
    "q \<noteq> NULL \<Longrightarrow> \<forall>i < min n (unat sz). ram s' (q + of_nat i) = ram s (p + of_nat i)"
    "\<And>r m i. A r = Some m \<Longrightarrow> q = NULL \<or> r \<noteq> p \<Longrightarrow> i < m \<Longrightarrow> ram s' (r + of_nat i) = ram s (r + of_nat i)"
proof -
  obtain b k where b: "p = of_nat (b + HDR)" "live_map H0 bs b = Some k" "n \<le> k"
    using client_invD [OF ci p] .
  have inv: "heap_inv s bs" using ci by (simp add: client_inv_def)
  note v = live_valid [OF inv b(2)]
  show ?thesis
  proof (cases "unat sz \<le> k")
    case True
    have r: "q = p" "s' = s" using krealloc_keeps_small [OF inv b(2) sz0 True] run b(1) by auto
    have "owned (A(p := None, p \<mapsto> unat sz)) (live_map H0 bs)"
      using owned_self [where A = A and L = "live_map H0 bs" and b = b, OF _ _ b(2) True] ci p
      by (simp add: client_inv_def b(1) del: of_nat_add)
    then show ?thesis using that [of bs] r ci v(4) by (auto simp: client_inv_def b(1))
  next
    case False
    have al: "alignment_used HEAP_ALIGNMENT = HEAP_ALIGNMENT"
      by (simp add: alignment_used_def HEAP_ALIGNMENT_def)
    have big: "unat sz \<le> unat (align_up sz HEAP_ALIGNMENT)" using align_up_keeps [OF sz, of HEAP_ALIGNMENT] al by simp
    show ?thesis
    proof (cases "q = NULL")
      case True
      have k64: "unat (of_nat k :: u64) = k" using v(6) by (intro unat_of_nat_u64) simp
      have nle: "\<not> sz \<le> of_nat k" using False by (simp add: word_le_nat_alt k64)
      have "sz \<noteq> 0" using sz0 by auto
      then obtain q1 s1 where km: "kmalloc_aligned sz HEAP_ALIGNMENT s = Some (q1, s1)"
        "q1 = NULL \<Longrightarrow> s' = s1" "q1 \<noteq> NULL \<Longrightarrow> q = q1"
        using run v nle b(1) by (auto simp: krealloc_def kmalloc_def ptr_to_block_nat Let_def
          simp del: of_nat_add split: bind_splits if_splits)
      have s1: "q1 = NULL" "s' = s1" using km True by auto
      note r = kmalloc_aligned_fails [OF inv km(1) [unfolded s1(1)]]
      show ?thesis using that [of bs] ci r True s1 by (simp add: client_inv_def)
    next
      case nn: False
      obtain c j bs' where c: "q = of_nat (c + HDR)" "heap_inv s' bs'"
        "unat (align_up sz HEAP_ALIGNMENT) \<le> j" "c \<noteq> b"
        "live_map H0 bs' = (live_map H0 bs)(c \<mapsto> j, b := None)" "live_map H0 bs c = None"
        "\<forall>i < k. ram s' (of_nat (c + HDR + i)) = ram s (of_nat (b + HDR + i))"
        "\<forall>x. unat x \<in> live_bytes bs - {b + HDR..<b + HDR + k} \<longrightarrow> ram s' x = ram s x"
        "no_adjacent_free bs \<Longrightarrow> no_adjacent_free bs'"
        by (rule krealloc_moves [OF inv b(2) _ refl big run [unfolded b(1)] nn]) (use False in auto)
      have cr: "c + HDR \<le> HE" using layout_range [OF c(2), of c] c(4,5) by simp
      have pq: "p \<noteq> q"
        using block_ptr_inj [of c b] cr layout_range [OF inv b(2)] c(4) by (auto simp: b(1) c(1))
      have "owned (A(q \<mapsto> unat sz)) ((live_map H0 bs)(c \<mapsto> j))"
        unfolding c(1) using ci c(3,6) big cr layout_range [OF inv]
        by (intro owned_alloc) (auto simp: client_inv_def)
      then have "owned ((A(q \<mapsto> unat sz))(p := None)) (live_map H0 bs')"
        unfolding b(1) c(5) using b(2) c(4) cr layout_range [OF inv]
        by (intro owned_free) (auto split: if_splits)
      then have "owned (A(p := None, q \<mapsto> unat sz)) (live_map H0 bs')"
        using pq by (simp add: fun_upd_twist)
      then have "client_inv s' (if q = NULL then A else A(p := None, q \<mapsto> unat sz)) bs'"
        using c nn ci by (simp add: client_inv_def)
      moreover have "\<forall>i < min n (unat sz). ram s' (q + of_nat i) = ram s (p + of_nat i)"
        using c(7) b(1,3) c(1) by (auto simp: add.assoc)
      moreover have "ram s' (r + of_nat i) = ram s (r + of_nat i)"
        if r: "A r = Some m" "q = NULL \<or> r \<noteq> p" "i < m" for r m i
      proof -
        obtain d l where d: "r = of_nat (d + HDR)" "live_map H0 bs d = Some l" "m \<le> l"
          "unat (r + of_nat i) = d + HDR + i"
          by (rule client_byte_at [OF ci r(1,3)])
        have "d \<noteq> b" using r(2) nn d(1) b(1) by auto
        then have "unat (r + of_nat i) \<notin> {b + HDR..<b + HDR + k}"
          using live_map_disjoint [OF d(2) b(2)] d(3,4) r(3) by auto
        then show ?thesis using c(8) client_byte [OF ci r(1,3)] by blast
      qed
      ultimately show ?thesis by (rule that)
    qed
  qed
qed

text \<open>The overflow test of \<open>kcalloc\<close> recognises exactly the products that do not fit.\<close>

lemma calloc_test:
  fixes x y :: u64
  shows "(x \<noteq> 0 \<and> x * y div x \<noteq> y) \<longleftrightarrow> 18446744073709551616 \<le> unat x * unat y"
proof (cases "unat x * unat y < 18446744073709551616")
  case True
  then have "unat (x * y) = unat x * unat y" by (rule unat_mult_u64)
  then have "x \<noteq> 0 \<Longrightarrow> unat (x * y div x) = unat y" by (simp add: unat_div unat_gt_0)
  then show ?thesis using True by (auto simp: word_unat_eq_iff)
next
  case False
  have x: "x \<noteq> 0" using False by auto
  have "x * y div x \<noteq> y"
  proof
    assume a: "x * y div x = y"
    have "unat (x * y) = unat x * unat y mod 18446744073709551616" by (simp add: unat_word_ariths)
    moreover have "unat (x * y) div unat x = unat y" using a by (metis unat_div)
    moreover have "unat x * (unat (x * y) div unat x) \<le> unat (x * y)" by simp
    ultimately have "unat x * unat y \<le> unat x * unat y mod 18446744073709551616" by simp
    moreover have "unat x * unat y mod 18446744073709551616 < 18446744073709551616" by simp
    ultimately show False using False by linarith
  qed
  then show ?thesis using x False by simp
qed

lemma kcalloc_cases:
  "kcalloc nmemb sz s =
    (if 18446744073709551616 \<le> unat nmemb * unat sz
     then Some (NULL, emit [Color VGA_COLOR_LIGHT_RED, Line ''[ERROR] kcalloc: overflow detectado'']
                       (s\<lparr>failed_allocations := failed_allocations s + 1\<rparr>))
     else kmalloc (nmemb * sz) s)"
  unfolding kcalloc_def Let_def calloc_test ..

theorem heap_client_inv: "heap_client s A \<Longrightarrow> \<exists>bs. client_inv s A bs"
proof (induction rule: heap_client.induct)
  case (start s)
  have "client_inv (heap_init s) Map.empty [(2097123, True)]"
    by (simp add: client_inv_def heap_init_inv no_adjacent_free_def owned_def)
  then show ?case by blast
next
  case (malloc s A sz al p s')
  then show ?case by (meson client_malloc)
next
  case (calloc s A nmemb sz p s')
  then obtain bs where bs: "client_inv s A bs" by blast
  show ?case
  proof (cases "18446744073709551616 \<le> unat nmemb * unat sz")
    case True
    then show ?thesis using calloc(3) bs by (auto simp: kcalloc_cases client_inv_def)
  next
    case False
    then have "unat (nmemb * sz) = unat nmemb * unat sz" by (intro unat_mult_u64) simp
    then show ?thesis
      using False calloc(2,3) client_malloc [OF bs calloc(2)]
      by (metis kcalloc_cases kmalloc_def)
  qed
next
  case (free s A p n s')
  then show ?case by (meson client_free)
next
  case (realloc s A p n sz q s')
  then show ?case by (meson client_realloc)
next
  case (store s A p n i v)
  then obtain bs where "client_inv s A bs" by blast
  from client_write [OF this store(2,3)] show ?case ..
qed

lemma heap_clientE:
  assumes "heap_client s A"
  obtains bs where "client_inv s A bs" "heap_inv s bs" "no_adjacent_free bs" "owned A (live_map H0 bs)"
  using heap_client_inv [OF assms] unfolding client_inv_def by blast

end
