(* ===== verification/Heap_Claims.thy ===== *)
theory Heap_Claims
  imports Heap_Client
begin

text \<open>
  What the heap guarantees, as properties of the operations of \<open>kmalloc.c\<close>: the walks for
  statistics and validation, the safety of allocations, and the two places where the code
  does less than its header file says (\<open>align_up\<close> and the alignment of pointers).
\<close>

section \<open>The walks over the block list\<close>

definition used_sizes :: "layout \<Rightarrow> nat" where
  "used_sizes bs = sum_list (map fst (filter (\<lambda>b. \<not> snd b) bs))"

definition free_sizes :: "layout \<Rightarrow> nat" where
  "free_sizes bs = sum_list (map fst (filter snd bs))"

lemma sizes_simps [simp]:
  "used_sizes [] = 0" "used_sizes ((k, f) # bs) = (if f then 0 else k) + used_sizes bs"
  "free_sizes [] = 0" "free_sizes ((k, f) # bs) = (if f then k else 0) + free_sizes bs"
  by (simp_all add: used_sizes_def free_sizes_def)

lemma sizes_endof: "a + HDR * length bs + used_sizes bs + free_sizes bs = endof a bs"
  by (induction a bs rule: endof.induct) auto

lemma stats_walk_chain:
  "chain m p a bs \<Longrightarrow> endof a bs = HE \<Longrightarrow> H0 \<le> a \<Longrightarrow>
   stats_walk (of_nat (nextptr a)) m st =
     Some (st\<lparr>stat_used_size := stat_used_size st + of_nat (used_sizes bs),
              stat_free_size := stat_free_size st + of_nat (free_sizes bs),
              stat_block_count := stat_block_count st + of_nat (length bs),
              stat_free_block_count := stat_free_block_count st + of_nat (length (filter snd bs)),
              stat_used_block_count := stat_used_block_count st + of_nat (length (filter (\<lambda>b. \<not> snd b) bs))\<rparr>)"
proof (induction m p a bs arbitrary: st rule: chain.induct)
  case (1 m p a)
  then show ?case by (subst stats_walk.simps) simp
next
  case (2 m p a k f bs)
  have a: "a + HDR + k \<le> HE" using 2(3) endof_ge [of "a + HDR + k" bs] by simp
  then have ptr: "nextptr a = a" "(of_nat a :: u64) \<noteq> 0"
    using 2(4) of_nat_ne_0 [of a] by (auto simp: nextptr_def)
  have blk: "block_at m a k f (nextptr (a + HDR + k)) p" using 2(2) by simp
  have "is_valid_block m (of_nat a)" using block_at_valid [OF blk] 2(4) a by simp
  moreover have "load_block m (of_nat a) = \<lparr>magic = HEAP_MAGIC, block_size = of_nat k, is_free = f,
       next_block = of_nat (nextptr (a + HDR + k)), prev_block = of_nat p\<rparr>"
    using blk by (simp add: block_at_def)
  ultimately show ?case
    using 2(1) [of "let st = st\<lparr>stat_block_count := stat_block_count st + 1\<rparr> in
       if f then st\<lparr>stat_free_size := stat_free_size st + of_nat k,
                    stat_free_block_count := stat_free_block_count st + 1\<rparr>
       else st\<lparr>stat_used_size := stat_used_size st + of_nat k,
               stat_used_block_count := stat_used_block_count st + 1\<rparr>"] 2(2,3,4) ptr
    by (subst stats_walk.simps) (cases f, simp_all add: Let_def ac_simps)
qed

lemma validate_walk_chain:
  "chain m p a bs \<Longrightarrow> endof a bs = HE \<Longrightarrow> H0 \<le> a \<Longrightarrow> validate_walk (of_nat (nextptr a)) n m = None"
proof (induction m p a bs arbitrary: n rule: chain.induct)
  case (1 m p a)
  then show ?case by (subst validate_walk.simps) simp
next
  case (2 m p a k f bs)
  have a: "a + HDR + k \<le> HE" using 2(3) endof_ge [of "a + HDR + k" bs] by simp
  then have ptr: "nextptr a = a" using 2(4) by (auto simp: nextptr_def)
  have blk: "block_at m a k f (nextptr (a + HDR + k)) p" using 2(2) by simp
  then have "is_valid_block m (of_nat a)" using block_at_valid [OF blk] 2(4) a by simp
  moreover have "next_block (load_block m (of_nat a)) = of_nat (nextptr (a + HDR + k))"
    using blk by (simp add: block_at_def)
  ultimately show ?case
    using 2 ptr by (subst validate_walk.simps) simp
qed

text \<open>The number of live blocks.\<close>

lemma card_live: "finite (dom (live_map a bs)) \<and>
    card (dom (live_map a bs)) = length (filter (\<lambda>b. \<not> snd b) bs)"
proof (induction a bs rule: live_map.induct)
  case (2 a k f bs)
  have "a \<notin> dom (live_map (a + HDR + k) bs)"
    using live_map_outside [of a "a + HDR + k" bs] by (simp add: domIff)
  then show ?case using 2 by (cases f) (simp_all add: dom_fun_upd [folded fun_upd_def] del: fun_upd_apply)
qed simp

lemma card_owned:
  assumes "owned A L" and "finite (dom L)" and L: "\<And>c j. L c = Some j \<Longrightarrow> c + HDR \<le> HE"
  shows "card (dom A) = card (dom L)"
proof -
  have "bij_betw (\<lambda>b. of_nat (b + HDR)) (dom L) (dom A)"
  proof (rule bij_betwI')
    show "(of_nat (b + HDR) = (of_nat (c + HDR) :: u64)) = (b = c)" if "b \<in> dom L" "c \<in> dom L" for b c
      using that L block_ptr_inj [of b c] by (auto simp del: of_nat_add)
    show "of_nat (b + HDR) \<in> dom A" if "b \<in> dom L" for b
      using that assms(1) unfolding owned_def by blast
    show "\<exists>b \<in> dom L. p = of_nat (b + HDR)" if "p \<in> dom A" for p
      using that assms(1) unfolding owned_def by blast
  qed
  then show ?thesis by (simp add: bij_betw_same_card)
qed

text \<open>Releasing what was just allocated restores the layout.\<close>

lemma absorb_stop: "ys = [] \<or> \<not> snd (hd ys) \<Longrightarrow> absorb k ys = (k, ys)"
  by (cases "(k, ys)" rule: absorb.cases) auto

lemma coal_stop: "rxs = [] \<or> \<not> snd (hd rxs) \<Longrightarrow> coal rxs k ys = rev rxs @ (fst (absorb k ys), True) # snd (absorb k ys)"
  by (cases "(rxs, k, ys)" rule: coal.cases) auto

lemma no_adjacent_around:
  assumes "no_adjacent_free (xs @ (k, True) # ys)"
  shows "ys = [] \<or> \<not> snd (hd ys)" "rev xs = [] \<or> \<not> snd (hd (rev xs))"
  using assms by (auto simp: no_adjacent_free_def successively_append_iff successively_Cons hd_rev neq_Nil_conv)

lemma free_after_alloc:
  assumes "no_adjacent_free bs" and "alloc_layout n H0 bs = Some (b, bs')"
  shows "free_layout [] H0 bs' b = Some bs"
  using assms(2)
proof (cases rule: alloc_layout_split)
  case (1 xs k ys)
  note ends = no_adjacent_around [of xs k ys, folded 1(1), OF assms(1)]
  show ?thesis
  proof (cases "n + 45 \<le> k")
    case True
    have "k = n + HDR + (k - n - HDR)" using True by simp
    then have "absorb n ((k - n - HDR, True) # ys) = (k, ys)"
      using absorb_stop [OF ends(1), of k] by simp
    then show ?thesis
      using free_layout_at [of "[]" xs n "(k - n - HDR, True) # ys"] coal_stop [OF ends(2)] 1 True by simp
  next
    case False
    then show ?thesis
      using free_layout_at [of "[]" xs k ys] coal_stop [OF ends(2)] absorb_stop [OF ends(1), of k] 1 by simp
  qed
qed

text \<open>\<open>krealloc\<close> of a live block to a non-zero size returns.\<close>

lemma krealloc_returns:
  assumes inv: "heap_inv s bs" and live: "live_map H0 bs b = Some k" and sz: "0 < sz" "unat sz \<le> MAX_REQUEST"
  shows "\<exists>q s'. krealloc (of_nat (b + HDR)) sz s = Some (q, s')"
proof (cases "unat sz \<le> k")
  case True
  then show ?thesis using krealloc_keeps_small [OF inv live sz(1)] by simp
next
  case False
  have sz0: "sz \<noteq> 0" using sz(1) by auto
  have al: "alignment_used HEAP_ALIGNMENT = HEAP_ALIGNMENT"
    by (simp add: alignment_used_def HEAP_ALIGNMENT_def)
  obtain q s1 where q: "kmalloc_aligned sz HEAP_ALIGNMENT s = Some (q, s1)"
    using kmalloc_aligned_refines [OF inv sz0 refl, of HEAP_ALIGNMENT] by (auto split: option.splits)
  show ?thesis
  proof (cases "q = NULL")
    case True
    note v = live_valid [OF inv live]
    have "unat (of_nat k :: u64) = k" using v(6) by (intro unat_of_nat_u64) simp
    then have "\<not> sz \<le> of_nat k" using False by (simp add: word_le_nat_alt)
    then show ?thesis
      using v q True sz0 by (simp add: krealloc_def kmalloc_def ptr_to_block_nat Let_def del: of_nat_add)
  next
    case nn: False
    have "unat sz \<le> unat (align_up sz HEAP_ALIGNMENT)"
      using align_up_keeps [OF sz(2), of HEAP_ALIGNMENT] al by simp
    then show ?thesis
      using krealloc_relocates [OF inv live _ refl _ q nn] False by (metis not_le)
  qed
qed

section \<open>A heap to instantiate the properties on\<close>

definition boot_heap :: heap where
  "boot_heap = \<lparr>ram = \<lambda>_. 0,
    console = [], heap_head = NULL, heap_initialized = False, total_allocations = 0, total_frees = 0,
    failed_allocations = 0\<rparr>"

lemma alloc_step:
  assumes "heap_inv s bs" and "sz \<noteq> 0"
  shows "\<exists>p s'. kmalloc_aligned sz al s = Some (p, s') \<and>
    (case alloc_layout (unat (align_up sz (alignment_used al))) H0 bs of
       None \<Rightarrow> p = NULL \<and> heap_inv s' bs \<and> ram s' = ram s
     | Some (b, bs') \<Rightarrow> p = of_nat (b + HDR) \<and> p \<noteq> NULL \<and> heap_inv s' bs')"
proof (cases "alloc_layout (unat (align_up sz (alignment_used al))) H0 bs")
  case None
  then show ?thesis
    using kmalloc_aligned_refines [OF assms refl, of al] assms(1) by simp
next
  case (Some r)
  obtain b bs' where r: "r = (b, bs')" by (cases r)
  note nn = alloc_ptr_not_null [OF assms(1) Some [unfolded r]]
  obtain s' where run: "kmalloc_aligned sz al s = Some (of_nat (b + HDR), s')"
    using kmalloc_aligned_refines [OF assms refl, of al] Some r by simp
  obtain bs'' where "heap_inv s' bs''" "alloc_layout (unat (align_up sz (alignment_used al))) H0 bs = Some (b, bs'')"
    by (rule kmalloc_aligned_live [OF assms refl run nn]) (use Some r in auto)
  with Some r run nn show ?thesis by (auto simp del: of_nat_add)
qed

text \<open>The first allocation of a fresh heap, whatever its alignment.\<close>

lemma first_alloc:
  assumes "sz \<noteq> 0" and "unat (align_up sz (alignment_used al)) + 45 \<le> 2097123"
  shows "\<exists>s'. kmalloc_aligned sz al (heap_init s) = Some (0x30001D, s') \<and>
    heap_inv s' [(unat (align_up sz (alignment_used al)), False),
                 (2097123 - unat (align_up sz (alignment_used al)) - HDR, True)]"
  using alloc_step [OF heap_init_inv [of s] assms(1), of al] assms(2) by (auto simp: add.commute)

text \<open>Two allocations, of 100 and 50 bytes.\<close>

lemma two_allocs:
  "\<exists>s1 s2. kmalloc_aligned 100 16 (heap_init boot_heap) = Some (0x30001D, s1) \<and>
    heap_inv s1 [(112, False), (2096982, True)] \<and>
    kmalloc_aligned 50 16 s1 = Some (0x3000AA, s2) \<and>
    heap_inv s2 [(112, False), (64, False), (2096889, True)]"
proof -
  have n: "unat (align_up 100 (alignment_used 16)) = 112" "unat (align_up 50 (alignment_used 16)) = 64"
    by (simp_all add: align_up_def alignment_used_def)
  obtain s1 where s1: "kmalloc_aligned 100 16 (heap_init boot_heap) = Some (0x30001D, s1)"
    "heap_inv s1 [(112, False), (2096982, True)]"
    using first_alloc [of 100 16 boot_heap] by (auto simp: n)
  moreover obtain s2 where "kmalloc_aligned 50 16 s1 = Some (0x3000AA, s2)"
    "heap_inv s2 [(112, False), (64, False), (2096889, True)]"
    using alloc_step [OF s1(2), of 50 16] by (auto simp: n)
  ultimately show ?thesis by blast
qed

lemma two_clients:
  "\<exists>(s1 :: heap) s2. heap_client s1 [0x30001D \<mapsto> 100] \<and> heap_inv s1 [(112, False), (2096982, True)] \<and>
    kmalloc_aligned 50 16 s1 = Some (0x3000AA, s2) \<and>
    heap_client s2 [0x30001D \<mapsto> 100, 0x3000AA \<mapsto> 50]"
proof -
  obtain s1 s2 where s: "kmalloc_aligned 100 16 (heap_init boot_heap) = Some (0x30001D, s1)"
    "heap_inv s1 [(112, False), (2096982, True)]" "kmalloc_aligned 50 16 s1 = Some (0x3000AA, s2)"
    using two_allocs by blast
  have "heap_client s1 (if 0x30001D = NULL then Map.empty else [0x30001D \<mapsto> unat (100::u64)])"
    by (rule heap_client.malloc [OF heap_client.start _ s(1)]) simp
  then have c1: "heap_client s1 [0x30001D \<mapsto> 100]" by simp
  have "heap_client s2 (if 0x3000AA = NULL then [0x30001D \<mapsto> 100] else [0x30001D \<mapsto> 100, 0x3000AA \<mapsto> unat (50::u64)])"
    by (rule heap_client.malloc [OF c1 _ s(3)]) simp
  with c1 s show ?thesis by auto
qed

section \<open>Allocation\<close>

text \<open>
  C1: In every state a well-behaved client can reach, from \<open>heap_init\<close> through any sequence of
  \<open>kmalloc_aligned\<close>, \<open>kcalloc\<close>, \<open>kfree\<close>, \<open>krealloc\<close> and writes to its allocations, two
  allocations are disjoint, with the 29 bytes of a header between them, and lie inside the
  heap region.
\<close>

theorem allocations_disjoint:
  assumes "heap_client s A" and "A p = Some n" and "A q = Some m" and "p \<noteq> q"
  shows "H0 + HDR \<le> unat p \<and> unat p + n \<le> HE \<and>
    (unat p + n + HDR \<le> unat q \<or> unat q + m + HDR \<le> unat p)"
proof -
  obtain bs where bs: "client_inv s A bs" "heap_inv s bs" by (rule heap_clientE [OF assms(1)])
  obtain b k where b: "p = of_nat (b + HDR)" "live_map H0 bs b = Some k" "n \<le> k"
    using client_invD [OF bs(1) assms(2)] .
  obtain c j where c: "q = of_nat (c + HDR)" "live_map H0 bs c = Some j" "m \<le> j"
    using client_invD [OF bs(1) assms(3)] .
  note r = live_valid(5,6) [OF bs(2) b(2)] live_valid(5,6) [OF bs(2) c(2)]
  have "unat p = b + HDR" "unat q = c + HDR"
    unfolding b(1) c(1) using r by (auto intro!: unat_of_nat_u64 simp del: of_nat_add)
  moreover have "b \<noteq> c" using assms(4) b(1) c(1) by auto
  ultimately show ?thesis
    using live_map_disjoint [OF b(2) c(2)] b(3) c(3) r by auto
qed

theorem allocations_disjoint_witness:
  "\<exists>s :: heap. heap_client s [0x30001D \<mapsto> 100, 0x3000AA \<mapsto> 50] \<and>
    unat (0x30001D :: u64) + 100 + HDR \<le> unat (0x3000AA :: u64)"
proof -
  obtain s :: heap where s: "heap_client s [0x30001D \<mapsto> 100, 0x3000AA \<mapsto> 50]" using two_clients by blast
  from allocations_disjoint [OF this, of "0x30001D" 100 "0x3000AA" 50] s show ?thesis by auto
qed

text \<open>
  C2: \<open>kmalloc_aligned\<close> returns in every reachable heap. The pointer is \<open>NULL\<close>, or new and
  followed by as many zero bytes as were asked for; no byte of an existing allocation changes.
\<close>

theorem kmalloc_delivers:
  assumes "heap_client s A" and "unat sz \<le> MAX_REQUEST"
  shows "\<exists>p s'. kmalloc_aligned sz al s = Some (p, s') \<and>
    (p = NULL \<or> p \<notin> dom A \<and> (\<forall>i < unat sz. ram s' (p + of_nat i) = 0)) \<and>
    (\<forall>q n i. A q = Some n \<and> i < n \<longrightarrow> ram s' (q + of_nat i) = ram s (q + of_nat i))"
proof -
  obtain bs where bs: "client_inv s A bs" "heap_inv s bs" by (rule heap_clientE [OF assms(1)])
  obtain p s' where run: "kmalloc_aligned sz al s = Some (p, s')"
    using kmalloc_aligned_refines [OF bs(2) _ refl, of sz al] bs(2)
    by (cases "sz = 0") (auto simp: kmalloc_aligned_def heap_inv_def split: option.splits)
  show ?thesis
    by (rule client_malloc [OF bs(1) assms(2) run], intro exI [of _ p] exI [of _ s'] conjI)
      (use run client_byte [OF bs(1)] in auto)
qed

theorem kmalloc_delivers_witness:
  "\<exists>(s :: heap) p s'. heap_client s [0x30001D \<mapsto> 100] \<and> kmalloc_aligned 50 16 s = Some (p, s') \<and>
    (\<forall>i < 100. ram s' (0x30001D + of_nat i) = ram s (0x30001D + of_nat i))"
proof -
  obtain s :: heap where s: "heap_client s [0x30001D \<mapsto> 100]" using two_clients by blast
  from kmalloc_delivers [OF this, where sz = 50 and al = 16] s show ?thesis by fastforce
qed

text \<open>
  C4: Allocation refines first fit on the list of blocks: the block used is the lowest free one
  of at least the rounded size, split when 45 bytes would remain; \<open>NULL\<close> is returned exactly
  when no free block is large enough.
\<close>

theorem kmalloc_first_fit:
  assumes "heap_inv s bs" and "sz \<noteq> 0"
  shows "\<exists>p s'. kmalloc_aligned sz al s = Some (p, s') \<and>
    (case alloc_layout (unat (align_up sz (alignment_used al))) H0 bs of
       None \<Rightarrow> p = NULL \<and> heap_inv s' bs \<and> ram s' = ram s
     | Some (b, bs') \<Rightarrow> p = of_nat (b + HDR) \<and> p \<noteq> NULL \<and> heap_inv s' bs')"
  using alloc_step [OF assms] .

theorem kmalloc_first_fit_witness:
  "\<exists>s'. kmalloc_aligned 100 16 (heap_init boot_heap) = Some (0x30001D, s') \<and>
    heap_inv s' [(112, False), (2096982, True)]"
  using kmalloc_first_fit [OF heap_init_inv [of boot_heap], of 100 16]
  by (simp add: align_up_def alignment_used_def)

section \<open>Release\<close>

text \<open>
  C3: \<open>kfree\<close> of a live block returns; it releases that block only, merges it with its free
  neighbours on both sides, so that no two neighbours are both free, and keeps the data of all
  other blocks.
\<close>

theorem kfree_coalesces:
  assumes "heap_inv s bs" and "no_adjacent_free bs" and "live_map H0 bs b = Some k"
  shows "\<exists>s' bs'. kfree (of_nat (b + HDR)) s = Some s' \<and> free_layout [] H0 bs b = Some bs' \<and>
    heap_inv s' bs' \<and> no_adjacent_free bs' \<and> live_map H0 bs' = (live_map H0 bs)(b := None) \<and>
    (\<forall>x. unat x \<in> live_bytes bs' \<longrightarrow> ram s' x = ram s x)"
proof (rule kfree_live [OF assms(1,3)])
  fix s' bs'
  assume a: "kfree (of_nat (b + HDR)) s = Some s'" "heap_inv s' bs'" "free_layout [] H0 bs b = Some bs'"
    "live_map H0 bs' = (live_map H0 bs)(b := None)"
    "\<forall>x. unat x \<in> live_bytes bs \<longrightarrow> ram s' x = ram s x" "no_adjacent_free bs \<Longrightarrow> no_adjacent_free bs'"
  have "live_bytes bs' \<subseteq> live_bytes bs"
    using a(4) by (fastforce simp: live_bytes_def split: if_splits)
  with a assms(2) show ?thesis by (intro exI [of _ s'] exI [of _ bs']) auto
qed

theorem kfree_coalesces_witness:
  "\<exists>(s :: heap) s'. kfree 0x30001D s = Some s' \<and> heap_inv s [(112, False), (2096982, True)] \<and>
    heap_inv s' [(2097123, True)]"
proof -
  obtain s :: heap where s: "heap_inv s [(112, False), (2096982, True)]" using two_clients by blast
  from kfree_coalesces [OF s, of H0 112] show ?thesis
    using s by (auto simp: no_adjacent_free_def)
qed

text \<open>
  Releasing an allocation right after making it restores the block list exactly: the
  split is undone and no fragment is left.
\<close>

theorem kmalloc_kfree_restores:
  assumes "heap_inv s bs" and "no_adjacent_free bs"
    and "kmalloc_aligned sz al s = Some (p, s1)" and "p \<noteq> NULL"
  shows "\<exists>s2. kfree p s1 = Some s2 \<and> heap_inv s2 bs"
proof -
  have sz: "sz \<noteq> 0"
    using assms(1,3,4) by (auto simp: kmalloc_aligned_def heap_inv_def)
  obtain b k bs' where r: "p = of_nat (b + HDR)"
    "alloc_layout (unat (align_up sz (alignment_used al))) H0 bs = Some (b, bs')" "heap_inv s1 bs'"
    "live_map H0 bs' = (live_map H0 bs)(b \<mapsto> k)"
    by (rule kmalloc_aligned_live [OF assms(1) sz refl assms(3,4)]) blast
  have "live_map H0 bs' b = Some k" by (simp add: r(4))
  from kfree_live [OF r(3) this] show ?thesis
    using free_after_alloc [OF assms(2) r(2)] r(1) by (metis option.inject)
qed

theorem kmalloc_kfree_restores_witness:
  "\<exists>s1 s2. kmalloc_aligned 100 16 (heap_init boot_heap) = Some (0x30001D, s1) \<and>
    kfree 0x30001D s1 = Some s2 \<and> heap_inv s2 [(2097123, True)]"
proof -
  obtain s1 where s1: "kmalloc_aligned 100 16 (heap_init boot_heap) = Some (0x30001D, s1)"
    using two_allocs by blast
  from kmalloc_kfree_restores [OF heap_init_inv _ s1] s1 show ?thesis
    by (auto simp: no_adjacent_free_def)
qed

section \<open>Reallocation, clearing allocation\<close>

text \<open>
  C5: \<open>krealloc\<close> to a non-zero size returns, keeps the old data up to the shorter of the two
  sizes, and leaves every other allocation as it is; when it returns \<open>NULL\<close> the old
  allocation is still there, unchanged.
\<close>

theorem krealloc_preserves:
  assumes "heap_client s A" and "A p = Some n" and "0 < sz" and "unat sz \<le> MAX_REQUEST"
  shows "\<exists>q s'. krealloc p sz s = Some (q, s') \<and>
    (q \<noteq> NULL \<longrightarrow> (\<forall>i < min n (unat sz). ram s' (q + of_nat i) = ram s (p + of_nat i))) \<and>
    (\<forall>r m i. A r = Some m \<and> (q = NULL \<or> r \<noteq> p) \<and> i < m \<longrightarrow> ram s' (r + of_nat i) = ram s (r + of_nat i))"
proof -
  obtain bs where bs: "client_inv s A bs" "heap_inv s bs" by (rule heap_clientE [OF assms(1)])
  obtain b k where b: "p = of_nat (b + HDR)" "live_map H0 bs b = Some k" "n \<le> k"
    using client_invD [OF bs(1) assms(2)] .
  obtain q s' where run: "krealloc p sz s = Some (q, s')"
    using krealloc_returns [OF bs(2) b(2) assms(3,4)] b(1) by blast
  show ?thesis
    by (rule client_realloc [OF bs(1) assms(2-4) run], intro exI [of _ q] exI [of _ s'] conjI)
      (use run in blast)+
qed

theorem krealloc_preserves_witness:
  "\<exists>(s :: heap) q s'. heap_client s [0x30001D \<mapsto> 100] \<and> krealloc 0x30001D 200 s = Some (q, s') \<and>
    (q \<noteq> NULL \<longrightarrow> (\<forall>i < 100. ram s' (q + of_nat i) = ram s (0x30001D + of_nat i)))"
proof -
  obtain s :: heap where s: "heap_client s [0x30001D \<mapsto> 100]" using two_clients by blast
  from krealloc_preserves [OF this, where p = "0x30001D" and n = 100 and sz = 200] s show ?thesis by auto
qed

text \<open>
  \<open>kcalloc\<close> refuses exactly the products that do not fit in 64 bits, with no change but the
  counter of failures, and otherwise allocates the true product.
\<close>

theorem kcalloc_overflow_checked:
  "if unat nmemb * unat sz < 2 ^ 64
   then kcalloc nmemb sz s = kmalloc (nmemb * sz) s \<and> unat (nmemb * sz) = unat nmemb * unat sz
   else \<exists>s'. kcalloc nmemb sz s = Some (NULL, s') \<and> ram s' = ram s \<and>
          failed_allocations s' = failed_allocations s + 1"
  using unat_mult_u64 [of nmemb sz] by (auto simp: kcalloc_cases)

section \<open>Validation and statistics\<close>

text \<open>
  C32: \<open>heap_validate\<close> accepts every heap that a well-behaved client can reach, and prints
  nothing.
\<close>

theorem heap_validate_accepts:
  assumes "heap_client s A"
  shows "heap_validate s = (True, s)"
proof -
  obtain bs where bs: "heap_inv s bs" by (rule heap_clientE [OF assms])
  then have "validate_walk (of_nat (nextptr H0)) 0 (ram s) = None"
    by (intro validate_walk_chain) (auto simp: heap_inv_def)
  then show ?thesis using bs by (simp add: heap_validate_def heap_inv_def nextptr_def)
qed

theorem heap_validate_accepts_witness:
  "\<exists>s :: heap. heap_client s [0x30001D \<mapsto> 100] \<and> heap_validate s = (True, s)"
  using two_clients heap_validate_accepts by blast

text \<open>
  C22: The statistics account for every byte: used and free data plus 29 bytes for each block
  make up the whole heap, and the used blocks are as many as the client's allocations.
\<close>

theorem heap_stats_account:
  assumes "heap_client s A"
  shows "\<exists>st. heap_get_stats st0 s = Some st \<and>
    unat (stat_used_size st) + unat (stat_free_size st) + 29 * unat (stat_block_count st)
      = unat (stat_total_size st) \<and>
    unat (stat_used_block_count st) = card (dom A) \<and>
    unat (stat_free_block_count st) + card (dom A) = unat (stat_block_count st)"
proof -
  obtain bs where bs: "heap_inv s bs" "owned A (live_map H0 bs)" by (rule heap_clientE [OF assms])
  have e: "HE = H0 + HDR * length bs + used_sizes bs + free_sizes bs"
    using sizes_endof [of H0 bs] bs(1) by (simp add: heap_inv_def)
  have "card (dom A) = length (filter (\<lambda>b. \<not> snd b) bs)"
    using card_owned [OF bs(2)] card_live [of H0 bs] layout_range [OF bs(1)] by simp
  moreover have "length (filter snd bs) + length (filter (\<lambda>b. \<not> snd b) bs) = length bs"
    by (rule sum_length_filter_compl)
  moreover have "stats_walk (heap_head s) (ram s) st =
     Some (st\<lparr>stat_used_size := stat_used_size st + of_nat (used_sizes bs),
              stat_free_size := stat_free_size st + of_nat (free_sizes bs),
              stat_block_count := stat_block_count st + of_nat (length bs),
              stat_free_block_count := stat_free_block_count st + of_nat (length (filter snd bs)),
              stat_used_block_count := stat_used_block_count st + of_nat (length (filter (\<lambda>b. \<not> snd b) bs))\<rparr>)" for st
    using stats_walk_chain [of "ram s" 0 H0 bs st] bs(1) by (simp add: heap_inv_def nextptr_def)
  moreover have "unat (of_nat (length bs) :: u32) = length bs"
    "unat (of_nat (length (filter snd bs)) :: u32) = length (filter snd bs)"
    "unat (of_nat (length (filter (\<lambda>b. \<not> snd b) bs)) :: u32) = length (filter (\<lambda>b. \<not> snd b) bs)"
    "unat (of_nat (used_sizes bs) :: u64) = used_sizes bs" "unat (of_nat (free_sizes bs) :: u64) = free_sizes bs"
    using e le_less_trans [OF length_filter_le, of bs "4294967296"]
    by (auto intro!: unat_of_nat_u32 unat_of_nat_u64)
  ultimately show ?thesis
    using bs(1) e by (simp add: heap_get_stats_def heap_inv_def HEAP_SIZE_def)
qed

theorem heap_stats_account_witness:
  "\<exists>s :: heap. heap_client s [0x30001D \<mapsto> 100] \<and>
     (\<forall>st0. \<exists>st. heap_get_stats st0 s = Some st \<and> unat (stat_used_block_count st) = 1)"
proof -
  obtain s :: heap where s: "heap_client s [0x30001D \<mapsto> 100]" using two_clients by blast
  from heap_stats_account [OF this] s show ?thesis by fastforce
qed

section \<open>Two limits of the code\<close>

text \<open>
  C33: \<open>align_up\<close> masks with a 32-bit constant: a request of \<open>2 ^ 32 - 1\<close> bytes is rounded to 0,
  so on a fresh heap \<open>kmalloc\<close> returns a pointer to a block of 0 bytes instead of \<open>NULL\<close>.
\<close>

theorem kmalloc_truncates:
  "\<exists>s'. kmalloc 0xFFFFFFFF (heap_init s) = Some (0x30001D, s') \<and>
    block_size (load_block (ram s') (ptr_to_block 0x30001D)) = 0"
proof -
  have n: "unat (align_up 0xFFFFFFFF (alignment_used HEAP_ALIGNMENT)) = 0"
    by (simp add: align_up_def alignment_used_def HEAP_ALIGNMENT_def)
  then obtain s' where s': "kmalloc_aligned 0xFFFFFFFF HEAP_ALIGNMENT (heap_init s) = Some (0x30001D, s')"
    "heap_inv s' [(0, False), (2097094, True)]"
    using first_alloc [of "0xFFFFFFFF" HEAP_ALIGNMENT s] by auto
  have "ptr_to_block 0x30001D = of_nat H0" by (simp add: ptr_to_block_def sizeof_heap_block_def)
  moreover have "block_at (ram s') H0 0 False (nextptr (H0 + HDR)) 0"
    using s'(2) by (simp add: heap_inv_def)
  ultimately show ?thesis using s'(1) by (auto simp: kmalloc_def block_at_def)
qed

text \<open>
  \<open>kmalloc_aligned\<close> aligns the size only. The first allocation of a fresh heap is at
  \<open>0x30001D\<close>, for every alignment, although the header file promises \<open>HEAP_ALIGNMENT\<close> (16).
\<close>

theorem kmalloc_aligned_misaligned:
  assumes "0 < sz" and "unat sz + unat (alignment_used al) \<le> 2000000"
  shows "\<exists>s'. kmalloc_aligned sz al (heap_init s) = Some (0x30001D, s') \<and> (0x30001D :: u64) mod 16 = 13"
proof -
  have "alignment_used al \<noteq> 0 \<and> alignment_used al AND (alignment_used al - 1) = 0"
    by (auto simp: alignment_used_def HEAP_ALIGNMENT_def)
  then obtain k where k: "k < 32" "alignment_used al = 2 ^ k" by (meson power_of_two_test)
  have "(2::nat) ^ k < 2 ^ 32" using k(1) by (intro power_strict_increasing) simp_all
  then have "unat (of_nat (2 ^ k) :: u32) = 2 ^ k" by (intro unat_of_nat_u32) simp
  then have u: "unat (alignment_used al) = 2 ^ k" by (simp add: k)
  have "unat (align_up sz (alignment_used al)) = (unat sz + 2 ^ k - 1) div 2 ^ k * 2 ^ k"
    using assms(2) u by (intro align_up_rounds [OF k]) simp
  also have "\<dots> \<le> unat sz + 2 ^ k - 1" by (rule div_times_less_eq_dividend)
  finally have "unat (align_up sz (alignment_used al)) + 45 \<le> 2097123" using assms(2) u by simp
  moreover have "sz \<noteq> 0" using assms(1) by auto
  ultimately show ?thesis using first_alloc [of sz al s] by auto
qed

theorem kmalloc_aligned_misaligned_witness:
  "\<exists>s'. kmalloc_aligned 4096 4096 (heap_init boot_heap) = Some (0x30001D, s')"
  using kmalloc_aligned_misaligned [of 4096 4096 boot_heap] by (simp add: alignment_used_def)

end
