(* ===== verification/Multiboot.thy ===== *)
theory Multiboot
  imports Kmalloc
begin

text \<open>
  Memory detection (first half of \<open>memory.c\<close>, structures of \<open>memory.h\<close> and
  \<open>multiboot_header.h\<close>): \<open>memory_detect\<close> walks the tags that the boot loader left in RAM
  and fills \<open>memory_info\<close>. Tags and map entries are read at their byte offsets. Both loops
  step by sizes read from RAM, so the walk is \<open>option\<close>-valued: \<open>None\<close> when it never ends.
  The array \<open>entries\<close> with its \<open>count\<close> is the list of its first \<open>count\<close> elements.
\<close>

section \<open>State\<close>

record memory_map_entry =
  base_addr :: u64
  entry_length :: u64
  entry_type :: u32

record memory_info =
  entries :: "memory_map_entry list"
  total_memory :: u64
  available_memory :: u64

record memory = heap +
  mem_info :: memory_info
  pmm_bitmap :: u64
  pmm_bitmap_size :: u64
  pmm_total_frames :: u64
  pmm_used_frames :: u64
  pmm_reserved_frames :: u64
  pmm_memory_base :: u64
  pmm_memory_size :: u64

lemma emit_memory [simp]:
  "mem_info (emit cs s) = mem_info s" "pmm_bitmap (emit cs s) = pmm_bitmap s"
  "pmm_bitmap_size (emit cs s) = pmm_bitmap_size s" "pmm_total_frames (emit cs s) = pmm_total_frames s"
  "pmm_used_frames (emit cs s) = pmm_used_frames s" "pmm_reserved_frames (emit cs s) = pmm_reserved_frames s"
  "pmm_memory_base (emit cs s) = pmm_memory_base s" "pmm_memory_size (emit cs s) = pmm_memory_size s"
  by (simp_all add: emit_def)

definition MEMORY_MAP_SIZE :: nat where "MEMORY_MAP_SIZE = 256"

definition MULTIBOOT_TAG_TYPE_END :: u32 where "MULTIBOOT_TAG_TYPE_END = 0"
definition MULTIBOOT_TAG_TYPE_CMDLINE :: u32 where "MULTIBOOT_TAG_TYPE_CMDLINE = 1"
definition MULTIBOOT_TAG_TYPE_BOOT_LOADER_NAME :: u32 where "MULTIBOOT_TAG_TYPE_BOOT_LOADER_NAME = 2"
definition MULTIBOOT_TAG_TYPE_BASIC_MEMINFO :: u32 where "MULTIBOOT_TAG_TYPE_BASIC_MEMINFO = 4"
definition MULTIBOOT_TAG_TYPE_MMAP :: u32 where "MULTIBOOT_TAG_TYPE_MMAP = 6"

definition MULTIBOOT_MEMORY_AVAILABLE :: u32 where "MULTIBOOT_MEMORY_AVAILABLE = 1"
definition MULTIBOOT_MEMORY_RESERVED :: u32 where "MULTIBOOT_MEMORY_RESERVED = 2"
definition MULTIBOOT_MEMORY_ACPI_RECLAIMABLE :: u32 where "MULTIBOOT_MEMORY_ACPI_RECLAIMABLE = 3"
definition MULTIBOOT_MEMORY_NVS :: u32 where "MULTIBOOT_MEMORY_NVS = 4"
definition MULTIBOOT_MEMORY_BADRAM :: u32 where "MULTIBOOT_MEMORY_BADRAM = 5"

lemmas tag_types = MULTIBOOT_TAG_TYPE_END_def MULTIBOOT_TAG_TYPE_CMDLINE_def
  MULTIBOOT_TAG_TYPE_BOOT_LOADER_NAME_def MULTIBOOT_TAG_TYPE_BASIC_MEMINFO_def MULTIBOOT_TAG_TYPE_MMAP_def

section \<open>Reading tags\<close>

definition tag_type :: "mem \<Rightarrow> u64 \<Rightarrow> u32" where "tag_type m tag = load32 m tag"
definition tag_size :: "mem \<Rightarrow> u64 \<Rightarrow> u32" where "tag_size m tag = load32 m (tag + 4)"

definition load_mmap_entry :: "mem \<Rightarrow> u64 \<Rightarrow> memory_map_entry" where
  "load_mmap_entry m p =
    \<lparr>base_addr = load64 m p, entry_length = load64 m (p + 8), entry_type = load32 m (p + 16)\<rparr>"

definition region_name :: "u32 \<Rightarrow> tcall" where
  "region_name ty =
    (if ty = MULTIBOOT_MEMORY_AVAILABLE then Text ''DISPONIBLE''
     else if ty = MULTIBOOT_MEMORY_RESERVED then Text ''RESERVADA''
     else if ty = MULTIBOOT_MEMORY_ACPI_RECLAIMABLE then Text ''ACPI RECUPERABLE''
     else if ty = MULTIBOOT_MEMORY_NVS then Text ''NVS''
     else if ty = MULTIBOOT_MEMORY_BADRAM then Text ''BAD RAM''
     else Text ''DESCONOCIDA'')"

definition print_entry :: "memory_map_entry \<Rightarrow> tcall list" where
  "print_entry e =
    [Text ''   '', Hex (base_addr e), Text '' - '', Hex (base_addr e + entry_length e - 1),
     Text '' ('', Dec (entry_length e div 1024), Text '' KB) - '', region_name (entry_type e), Line '''']"

section \<open>The walk\<close>

abbreviation upd_info :: "(memory_info \<Rightarrow> memory_info) \<Rightarrow> 'a memory_scheme \<Rightarrow> 'a memory_scheme" where
  "upd_info f s \<equiv> s\<lparr>mem_info := f (mem_info s)\<rparr>"

definition add_meminfo :: "u64 \<Rightarrow> 'a memory_scheme \<Rightarrow> 'a memory_scheme" where
  "add_meminfo tag s =
    (let low_memory = ucast (load32 (ram s) (tag + 8) * 1024);
         high_memory = ucast (load32 (ram s) (tag + 12) * 1024);
         s = upd_info (\<lambda>i. i\<lparr>total_memory := low_memory + high_memory\<rparr>) s;
         s = upd_info (\<lambda>i. i\<lparr>available_memory := total_memory i\<rparr>) s
     in emit [Write (lit ''Memoria b'' @ [0xC3, 0xA1] @ lit ''sica: ''), Dec (low_memory div 1024),
              Text ''KB baja + '', Dec (high_memory div 1024), Text ''KB alta = '',
              Dec (total_memory (mem_info s) div (1024 * 1024)), Line ''MB total''] s)"

definition add_entry :: "memory_map_entry \<Rightarrow> 'a memory_scheme \<Rightarrow> 'a memory_scheme" where
  "add_entry e s =
    (if length (entries (mem_info s)) < MEMORY_MAP_SIZE then
       let n = length (entries (mem_info s));
           s = upd_info (\<lambda>i. i\<lparr>total_memory := total_memory i + entry_length e\<rparr>) s;
           s = (if entry_type e = MULTIBOOT_MEMORY_AVAILABLE
                then upd_info (\<lambda>i. i\<lparr>available_memory := available_memory i + entry_length e\<rparr>) s else s);
           s = (if n < 5 then emit (print_entry e) s else s)
       in upd_info (\<lambda>i. i\<lparr>entries := entries i @ [e]\<rparr>) s
     else s)"

partial_function (option) mmap_loop :: "u64 \<Rightarrow> u64 \<Rightarrow> 'a memory_scheme \<Rightarrow> 'a memory_scheme option" where
  "mmap_loop tag entry_ptr s =
    (if entry_ptr < tag + ucast (tag_size (ram s) tag)
     then mmap_loop tag (entry_ptr + ucast (load32 (ram s) (tag + 8)))
            (add_entry (load_mmap_entry (ram s) entry_ptr) s)
     else Some s)"

definition add_mmap :: "u64 \<Rightarrow> 'a memory_scheme \<Rightarrow> 'a memory_scheme option" where
  "add_mmap tag s =
    Option.bind (mmap_loop tag (tag + 16) (emit [Line ''Mapa de memoria detectado:''] s)) (\<lambda>s.
      let n = length (entries (mem_info s))
      in Some (if 5 \<le> n
               then emit [Text ''   ... y '', Dec (of_nat n - 5),
                          Write (lit '' regiones m'' @ [0xC3, 0xA1] @ lit ''s'' @ [newline])] s
               else s))"

text \<open>\<open>terminal_writestring\<close> of a string in RAM; it does not return when there is no NUL byte.\<close>

definition emit_string :: "tcall \<Rightarrow> u64 \<Rightarrow> 'a memory_scheme \<Rightarrow> 'a memory_scheme option" where
  "emit_string prefix p s =
    Option.bind (strlen (ram s) p) (\<lambda>n. Some (emit [prefix, Write (bytes (ram s) p (unat n)), Line ''''] s))"

definition process_tag :: "u64 \<Rightarrow> 'a memory_scheme \<Rightarrow> 'a memory_scheme option" where
  "process_tag tag s =
    (let ty = tag_type (ram s) tag
     in if ty = MULTIBOOT_TAG_TYPE_BASIC_MEMINFO then Some (add_meminfo tag s)
        else if ty = MULTIBOOT_TAG_TYPE_MMAP then add_mmap tag s
        else if ty = MULTIBOOT_TAG_TYPE_CMDLINE
        then emit_string (Write (lit ''L'' @ [0xC3, 0xAD] @ lit ''nea de comandos: '')) (tag + 8) s
        else if ty = MULTIBOOT_TAG_TYPE_BOOT_LOADER_NAME
        then emit_string (Text ''Bootloader: '') (tag + 8) s
        else Some s)"

text \<open>\<open>(tag->size + 7) & ~7\<close> is computed in 32 bits.\<close>

definition tag_step :: "u32 \<Rightarrow> u64" where
  "tag_step sz = ucast ((sz + 7) AND NOT 7)"

partial_function (option) tag_loop :: "u64 \<Rightarrow> u64 \<Rightarrow> 'a memory_scheme \<Rightarrow> 'a memory_scheme option" where
  "tag_loop tag limit s =
    (if tag_type (ram s) tag \<noteq> MULTIBOOT_TAG_TYPE_END \<and> tag < limit
     then Option.bind (process_tag tag s) (\<lambda>s.
            tag_loop (tag + tag_step (tag_size (ram s) tag)) limit s)
     else Some s)"

definition memory_detect :: "u32 \<Rightarrow> 'a memory_scheme \<Rightarrow> 'a memory_scheme option" where
  "memory_detect multiboot_info s =
    (let s = s\<lparr>mem_info := \<lparr>entries = [], total_memory = 0, available_memory = 0\<rparr>\<rparr>
     in if multiboot_info = 0 then
          Some (emit [Write (lit ''No hay informaci'' @ [0xC3, 0xB3] @ lit ''n Multiboot2 disponible'' @ [newline])] s)
        else if multiboot_info AND 7 \<noteq> 0 then
          Some (emit [Text ''Puntero Multiboot no alineado: 0x'', Hex (ucast multiboot_info), Line ''''] s)
        else
          let total_size = load32 (ram s) (ucast multiboot_info);
              s = emit [Write (lit ''Tama'' @ [0xC3, 0xB1] @ lit ''o estructura Multiboot2: ''),
                        Dec (ucast total_size), Line '' bytes'',
                        Write (lit ''Analizando informaci'' @ [0xC3, 0xB3] @ lit ''n Multiboot2...'' @ [newline])] s
          in Option.bind (tag_loop (ucast (multiboot_info + 8)) (ucast multiboot_info + ucast total_size) s) (\<lambda>s.
               Some (emit [Write (lit ''Detecci'' @ [0xC3, 0xB3] @ lit ''n completada: ''),
                           Dec (of_nat (length (entries (mem_info s)))), Text '' regiones, '',
                           Dec (total_memory (mem_info s) div (1024 * 1024)), Text ''MB total, '',
                           Dec (available_memory (mem_info s) div (1024 * 1024)), Line ''MB disponible''] s)))"

text \<open>\<open>memory_get_info\<close> returns the address of the static variable; its readers take the field.\<close>

definition memory_get_info :: "'a memory_scheme \<Rightarrow> memory_info" where
  "memory_get_info s = mem_info s"

end
