(* ===== verification/Pmm.thy ===== *)
theory Pmm
  imports Multiboot
begin

text \<open>
  The physical memory manager (second half of \<open>memory.c\<close>): a bitmap in RAM with one bit for
  each 4 KiB frame above \<open>pmm_memory_base\<close>, and counters. A set bit is a frame in use. The
  operations are the code's, on the words in RAM; \<open>Frame_Map\<close> states the laws of testing, setting
  and clearing a frame that the search and marking loops rely on.
\<close>

definition PAGE_SIZE :: u64 where "PAGE_SIZE = 4096"

section \<open>The bitmap\<close>

definition bitmap_word :: "u64 \<Rightarrow> 'a memory_scheme \<Rightarrow> u64" where
  "bitmap_word index s = pmm_bitmap s + 4 * index"

definition frame_bit :: "u64 \<Rightarrow> u32" where
  "frame_bit frame_index = push_bit (unat (frame_index mod 32)) 1"

definition pmm_test_frame :: "u64 \<Rightarrow> 'a memory_scheme \<Rightarrow> bool" where
  "pmm_test_frame frame_index s =
    (if pmm_total_frames s \<le> frame_index then True
     else load32 (ram s) (bitmap_word (frame_index div 32) s) AND frame_bit frame_index \<noteq> 0)"

definition pmm_set_frame :: "u64 \<Rightarrow> 'a memory_scheme \<Rightarrow> 'a memory_scheme" where
  "pmm_set_frame frame_index s =
    (if pmm_total_frames s \<le> frame_index then s
     else
       let p = bitmap_word (frame_index div 32) s
       in s\<lparr>ram := store32 (ram s) p (load32 (ram s) p OR frame_bit frame_index)\<rparr>)"

definition pmm_clear_frame :: "u64 \<Rightarrow> 'a memory_scheme \<Rightarrow> 'a memory_scheme" where
  "pmm_clear_frame frame_index s =
    (if pmm_total_frames s \<le> frame_index then s
     else
       let p = bitmap_word (frame_index div 32) s
       in s\<lparr>ram := store32 (ram s) p (load32 (ram s) p AND NOT (frame_bit frame_index))\<rparr>)"

text \<open>The two loops of \<open>pmm_find_contiguous_frames\<close>, entered at frame \<open>i\<close>; \<open>-1\<close> is not found.\<close>

function find_one :: "u64 \<Rightarrow> 'a memory_scheme \<Rightarrow> u64" where
  "find_one i s =
    (if i < pmm_total_frames s then
       if \<not> pmm_test_frame i s then i else find_one (i + 1) s
     else - 1)"
  by pat_completeness auto
termination
  by (relation "measure (\<lambda>(i, s). unat (pmm_total_frames s) - unat i)")
    (auto simp: unat_inc_u64 word_less_nat_alt)

declare find_one.simps [simp del]

function find_run :: "u64 \<Rightarrow> u64 \<Rightarrow> u64 \<Rightarrow> u64 \<Rightarrow> 'a memory_scheme \<Rightarrow> u64" where
  "find_run count i contiguous start s =
    (if i < pmm_total_frames s then
       if \<not> pmm_test_frame i s then
         let start = (if contiguous = 0 then i else start);
             contiguous = contiguous + 1
         in if contiguous = count then start else find_run count (i + 1) contiguous start s
       else find_run count (i + 1) 0 start s
     else - 1)"
  by pat_completeness auto
termination
  by (relation "measure (\<lambda>(count, i, contiguous, start, s). unat (pmm_total_frames s) - unat i)")
    (auto simp: unat_inc_u64 word_less_nat_alt)

declare find_run.simps [simp del]

definition pmm_find_contiguous_frames :: "u64 \<Rightarrow> 'a memory_scheme \<Rightarrow> u64" where
  "pmm_find_contiguous_frames count s =
    (if count = 0 then - 1
     else if count = 1 then find_one 0 s
     else find_run count 0 0 0 s)"

section \<open>Initialisation\<close>

fun find_location :: "u64 \<Rightarrow> memory_map_entry list \<Rightarrow> u64" where
  "find_location bitmap_size [] = 0x200000"
| "find_location bitmap_size (e # es) =
    (if entry_type e = MULTIBOOT_MEMORY_AVAILABLE then
       let base = base_addr e; len = entry_length e
       in if base < 0x200000 then
            if 0x200000 - base < len then
              let base' = 0x200000; len' = len - (0x200000 - base_addr e)
              in if bitmap_size + 2 * PAGE_SIZE \<le> len' then base' + PAGE_SIZE
                 else find_location bitmap_size es
            else find_location bitmap_size es
          else if bitmap_size + 2 * PAGE_SIZE \<le> len then base + PAGE_SIZE
          else find_location bitmap_size es
     else find_location bitmap_size es)"

definition find_bitmap_location :: "u64 \<Rightarrow> 'a memory_scheme \<Rightarrow> u64" where
  "find_bitmap_location bitmap_size s = find_location bitmap_size (entries (memory_get_info s))"

definition count_used :: "'a memory_scheme \<Rightarrow> 'a memory_scheme" where
  "count_used s = s\<lparr>pmm_used_frames := pmm_used_frames s + 1\<rparr>"

definition clear_bitmap :: "'a memory_scheme \<Rightarrow> 'a memory_scheme" where
  "clear_bitmap s =
    for_u64 0 (pmm_bitmap_size s) (\<lambda>i s. s\<lparr>ram := store32 (ram s) (bitmap_word i s) 0\<rparr>) s"

definition reserve_entry :: "memory_map_entry \<Rightarrow> 'a memory_scheme \<Rightarrow> 'a memory_scheme" where
  "reserve_entry e s =
    (if entry_type e \<noteq> MULTIBOOT_MEMORY_AVAILABLE then
       let base = base_addr e; len = entry_length e
       in if pmm_memory_base s \<le> base \<and> base < pmm_memory_base s + pmm_memory_size s then
            let start_frame = (base - pmm_memory_base s) div PAGE_SIZE;
                end_frame = start_frame + (len + PAGE_SIZE - 1) div PAGE_SIZE;
                end_frame = (if pmm_total_frames s < end_frame then pmm_total_frames s else end_frame)
            in for_u64 start_frame end_frame (\<lambda>frame s. count_used (pmm_set_frame frame s)) s
          else s
     else s)"

text \<open>Mark a frame that is not in use yet: the body of the loops over the bitmap and the kernel.\<close>

definition claim_frame :: "u64 \<Rightarrow> 'a memory_scheme \<Rightarrow> 'a memory_scheme" where
  "claim_frame frame s = (if \<not> pmm_test_frame frame s then count_used (pmm_set_frame frame s) else s)"

definition reserve_bitmap :: "u64 \<Rightarrow> 'a memory_scheme \<Rightarrow> 'a memory_scheme" where
  "reserve_bitmap bitmap_bytes s =
    (let bitmap_start_frame = (pmm_bitmap s - pmm_memory_base s) div PAGE_SIZE;
         bitmap_frames = (bitmap_bytes + PAGE_SIZE - 1) div PAGE_SIZE;
         s = for_u64 0 bitmap_frames (\<lambda>i s.
               let frame = bitmap_start_frame + i
               in if frame < pmm_total_frames s then claim_frame frame s else s) s
     in s\<lparr>pmm_reserved_frames := pmm_reserved_frames s + bitmap_frames\<rparr>)"

text \<open>\<open>for (i = 0; i < kernel_frames && i < pmm_total_frames; i++)\<close>.\<close>

definition reserve_kernel :: "'a memory_scheme \<Rightarrow> 'a memory_scheme" where
  "reserve_kernel s =
    (let kernel_frames = (0x100000 + 0x100000) div PAGE_SIZE;
         s = for_u64 0 (min kernel_frames (pmm_total_frames s)) claim_frame s
     in s\<lparr>pmm_reserved_frames := pmm_reserved_frames s + kernel_frames\<rparr>)"

definition pmm_init :: "u64 \<Rightarrow> u64 \<Rightarrow> 'a memory_scheme \<Rightarrow> 'a memory_scheme" where
  "pmm_init memory_base memory_size s =
    (let s = s\<lparr>pmm_memory_base := memory_base, pmm_memory_size := memory_size,
               pmm_total_frames := memory_size div PAGE_SIZE,
               pmm_used_frames := 0, pmm_reserved_frames := 0\<rparr>;
         s = s\<lparr>pmm_bitmap_size := (pmm_total_frames s + 31) div 32\<rparr>;
         bitmap_bytes = pmm_bitmap_size s * 4;
         s = s\<lparr>pmm_bitmap := find_bitmap_location bitmap_bytes s\<rparr>;
         s = clear_bitmap s;
         s = fold reserve_entry (entries (memory_get_info s)) s;
         s = reserve_bitmap bitmap_bytes s;
         s = reserve_kernel s
     in emit [Text ''[OK] PMM inicializado: '', Dec (pmm_total_frames s), Text '' frames ('',
              Dec (pmm_total_frames s * PAGE_SIZE div (1024 * 1024)), Line '' MB)''] s)"

section \<open>Allocation and release\<close>

definition pmm_alloc_frame :: "'a memory_scheme \<Rightarrow> u64 \<times> 'a memory_scheme" where
  "pmm_alloc_frame s =
    (let frame_index = pmm_find_contiguous_frames 1 s
     in if sint frame_index < 0 then (0, s)
        else
          let s = count_used (pmm_set_frame frame_index s)
          in (pmm_memory_base s + frame_index * PAGE_SIZE, s))"

definition uncount_used :: "'a memory_scheme \<Rightarrow> 'a memory_scheme" where
  "uncount_used s = (if 0 < pmm_used_frames s then s\<lparr>pmm_used_frames := pmm_used_frames s - 1\<rparr> else s)"

definition release_frame :: "u64 \<Rightarrow> 'a memory_scheme \<Rightarrow> 'a memory_scheme" where
  "release_frame frame_index s =
    (if frame_index < pmm_total_frames s \<and> pmm_test_frame frame_index s
     then uncount_used (pmm_clear_frame frame_index s) else s)"

definition pmm_free_frame :: "u64 \<Rightarrow> 'a memory_scheme \<Rightarrow> 'a memory_scheme" where
  "pmm_free_frame frame_addr s =
    (if frame_addr < pmm_memory_base s \<or> pmm_memory_base s + pmm_memory_size s \<le> frame_addr then s
     else release_frame ((frame_addr - pmm_memory_base s) div PAGE_SIZE) s)"

definition pmm_alloc_frames :: "u64 \<Rightarrow> 'a memory_scheme \<Rightarrow> u64 \<times> 'a memory_scheme" where
  "pmm_alloc_frames count s =
    (if count = 0 then (0, s)
     else
       let start_frame = pmm_find_contiguous_frames count s
       in if sint start_frame < 0 then (0, s)
          else
            let s = for_u64 0 count (\<lambda>i s. pmm_set_frame (start_frame + i) s) s;
                s = s\<lparr>pmm_used_frames := pmm_used_frames s + count\<rparr>
            in (pmm_memory_base s + start_frame * PAGE_SIZE, s))"

definition pmm_free_frames :: "u64 \<Rightarrow> u64 \<Rightarrow> 'a memory_scheme \<Rightarrow> 'a memory_scheme" where
  "pmm_free_frames start_addr count s =
    (if count = 0 then s
     else if start_addr < pmm_memory_base s \<or> pmm_memory_base s + pmm_memory_size s \<le> start_addr then s
     else
       let start_frame = (start_addr - pmm_memory_base s) div PAGE_SIZE
       in for_u64 0 count (\<lambda>i s. release_frame (start_frame + i) s) s)"

section \<open>Statistics and printing\<close>

record pmm_stats =
  st_total_frames :: u64
  st_used_frames :: u64
  st_free_frames :: u64
  st_reserved_frames :: u64
  st_total_bytes :: u64
  st_used_bytes :: u64
  st_free_bytes :: u64
  st_usage_percent :: u32

definition pmm_get_stats :: "'a memory_scheme \<Rightarrow> pmm_stats" where
  "pmm_get_stats s =
    (let free_frames = pmm_total_frames s - pmm_used_frames s
     in \<lparr>st_total_frames = pmm_total_frames s, st_used_frames = pmm_used_frames s,
         st_free_frames = free_frames, st_reserved_frames = pmm_reserved_frames s,
         st_total_bytes = pmm_total_frames s * PAGE_SIZE, st_used_bytes = pmm_used_frames s * PAGE_SIZE,
         st_free_bytes = free_frames * PAGE_SIZE,
         st_usage_percent = (if 0 < pmm_total_frames s
           then ucast (pmm_used_frames s * 100 div pmm_total_frames s) else 0)\<rparr>)"

definition progress_bar :: "u32 \<Rightarrow> tcall list" where
  "progress_bar usage_percent =
    (let bar_length = 30 :: u32; filled = usage_percent * bar_length div 100
     in concat (map (\<lambda>i.
          if (of_nat i :: u32) < filled
          then [Color VGA_COLOR_GREEN, PutChar 0xDB]
          else [Color VGA_COLOR_DARK_GREY, PutChar SHADOW_CHAR]) [0..<unat bar_length]))"

definition pmm_print_stats :: "'a memory_scheme \<Rightarrow> 'a memory_scheme" where
  "pmm_print_stats s =
    (let stats = pmm_get_stats s
     in emit
       ([Color VGA_COLOR_LIGHT_CYAN, Line ''|=====================================|'',
         Write (lit ''  ESTAD'' @ [0xC3, 0x8D] @ lit ''STICAS DEL PMM (Detalladas) '' @ [newline]),
         Line ''|=====================================|'',
         Color VGA_COLOR_LIGHT_GREEN, Line ''Frames:'', Color VGA_COLOR_LIGHT_GREY,
         Text ''  Total:     '', Dec (st_total_frames stats), Text '' frames ('',
         Dec (st_total_bytes stats div (1024 * 1024)), Line '' MB)'',
         Text ''  Usados:    '', Dec (st_used_frames stats), Text '' frames ('',
         Dec (st_used_bytes stats div (1024 * 1024)), Line '' MB)'',
         Text ''  Libres:    '', Dec (st_free_frames stats), Text '' frames ('',
         Dec (st_free_bytes stats div (1024 * 1024)), Line '' MB)'',
         Text ''  Reservados: '', Dec (st_reserved_frames stats), Line '' frames (kernel + bitmap)'',
         Color VGA_COLOR_LIGHT_GREEN, Write (newline # lit ''Uso de memoria:'' @ [newline]),
         Color VGA_COLOR_LIGHT_GREY, Text ''  Porcentaje: '', Dec (ucast (st_usage_percent stats)), Line ''%'',
         Text ''  [''] @
        progress_bar (st_usage_percent stats) @
        [Color VGA_COLOR_LIGHT_GREY, Line '']'',
         Color VGA_COLOR_LIGHT_GREEN,
         Write (newline # lit ''Informaci'' @ [0xC3, 0xB3] @ lit ''n t'' @ [0xC3, 0xA9] @ lit ''cnica:'' @ [newline]),
         Color VGA_COLOR_LIGHT_GREY,
         Write (lit ''  Tama'' @ [0xC3, 0xB1] @ lit ''o de p'' @ [0xC3, 0xA1] @ lit ''gina: ''), Dec PAGE_SIZE,
         Line '' bytes'', Text ''  Bitmap en:        0x'', Hex (pmm_bitmap s), Line '''',
         Write (lit ''  Tama'' @ [0xC3, 0xB1] @ lit ''o bitmap:    ''), Dec (pmm_bitmap_size s * 4), Line '' bytes'']) s)"

definition pmm_get_free_memory :: "'a memory_scheme \<Rightarrow> u64" where
  "pmm_get_free_memory s = (pmm_total_frames s - pmm_used_frames s) * PAGE_SIZE"

definition pmm_get_total_memory :: "'a memory_scheme \<Rightarrow> u64" where
  "pmm_get_total_memory s = pmm_total_frames s * PAGE_SIZE"

definition pmm_get_used_memory :: "'a memory_scheme \<Rightarrow> u64" where
  "pmm_get_used_memory s = pmm_used_frames s * PAGE_SIZE"

definition memory_print_info :: "'a memory_scheme \<Rightarrow> 'a memory_scheme" where
  "memory_print_info s =
    (let mi = memory_get_info s;
         s = emit
           [Color VGA_COLOR_LIGHT_CYAN, Write (lit ''INFORMACI'' @ [0xC3, 0x93] @ lit ''N DE MEMORIA'' @ [newline]),
            Line ''========================='',
            Color VGA_COLOR_LIGHT_GREEN, Text ''Memoria total detectada: '', Color VGA_COLOR_LIGHT_GREY,
            Dec (total_memory mi div (1024 * 1024)), Line '' MB'',
            Color VGA_COLOR_LIGHT_GREEN, Text ''Memoria disponible: '', Color VGA_COLOR_LIGHT_GREY,
            Dec (available_memory mi div (1024 * 1024)), Line '' MB'',
            Color VGA_COLOR_LIGHT_GREEN, Text ''Regiones de memoria: '', Color VGA_COLOR_LIGHT_GREY,
            Dec (of_nat (length (entries mi))), Line ''''] s
     in if pmm_bitmap s \<noteq> 0 then pmm_print_stats s else s)"

end
