(* ===== verification/Frame_Map.thy ===== *)
theory Frame_Map
  imports Pmm
begin

text \<open>
  The bitmap of the physical memory manager as a set of frames. The locale \<open>frame_map\<close> is
  the interface the search and marking loops rely on: testing, setting and clearing one
  frame. It is interpreted on \<open>pmm_test_frame\<close>, \<open>pmm_set_frame\<close> and \<open>pmm_clear_frame\<close>.
\<close>

section \<open>The interface\<close>

locale frame_map =
  fixes test :: "u64 \<Rightarrow> 's \<Rightarrow> bool"
    and mark :: "u64 \<Rightarrow> 's \<Rightarrow> 's"
    and unmark :: "u64 \<Rightarrow> 's \<Rightarrow> 's"
    and limit :: "'s \<Rightarrow> u64"
  assumes test_beyond: "limit s \<le> j \<Longrightarrow> test j s"
    and test_mark: "test j (mark i s) \<longleftrightarrow> test j s \<or> j = i"
    and test_unmark: "test j (unmark i s) \<longleftrightarrow> test j s \<and> (j \<noteq> i \<or> limit s \<le> j)"
    and limit_mark: "limit (mark i s) = limit s"
    and limit_unmark: "limit (unmark i s) = limit s"
begin

lemma test_mark_range:
  "test j (for_u64 0 n (\<lambda>i. mark (a + i)) s) \<longleftrightarrow> test j s \<or> (\<exists>i < unat n. j = a + of_nat i)"
proof -
  have "test j (fold (\<lambda>k. mark (a + of_nat k)) [0..<m] s) \<longleftrightarrow> test j s \<or> (\<exists>i < m. j = a + of_nat i)" for m
    by (induction m) (auto simp: test_mark less_Suc_eq)
  then show ?thesis by (simp add: for_u64_fold)
qed

lemma limit_mark_range: "limit (for_u64 0 n (\<lambda>i. mark (a + i)) s) = limit s"
proof -
  have "limit (fold (\<lambda>k. mark (a + of_nat k)) ks s) = limit s" for ks :: "nat list"
    by (induction ks arbitrary: s) (simp_all add: limit_mark)
  then show ?thesis by (simp add: for_u64_fold)
qed

lemma mark_unmark: "\<not> test i s \<Longrightarrow> test j (unmark i (mark i s)) \<longleftrightarrow> test j s"
  using test_beyond by (auto simp: test_mark test_unmark limit_mark)

end

section \<open>Bits of words in RAM\<close>

lemma test_bit: "pmm_test_frame j s \<longleftrightarrow>
    pmm_total_frames s \<le> j \<or> bit (load32 (ram s) (bitmap_word (j div 32) s)) (unat j mod 32)"
  by (simp add: pmm_test_frame_def frame_bit_def bit_iff_and_push_bit_not_eq_0 unat_mod)

lemma unat_div32: "unat (k div 32 :: u64) = unat k div 32"
  by (simp add: unat_div)

lemma words_apart:
  assumes "i div 32 \<noteq> (j div 32 :: u64)"
  shows "apart (bitmap_word (i div 32) s) 4 (bitmap_word (j div 32) s) 4"
proof -
  have w: "4 * (k div 32) = of_nat (4 * (unat k div 32))" for k :: u64
    by (simp add: unat_div32 [symmetric])
  have ne: "unat i div 32 \<noteq> unat j div 32" using assms by (simp add: word_unat_eq_iff unat_div32)
  have "apart (of_nat (4 * (unat i div 32))) 4 (of_nat (4 * (unat j div 32))) 4"
    using ne unat_lt_u64 [of i] unat_lt_u64 [of j] by (intro apart_nat) linarith+
  then show ?thesis unfolding bitmap_word_def apart_shift w .
qed

lemma same_word_bit:
  "i div 32 = (j div 32 :: u64) \<Longrightarrow> unat i mod 32 = unat j mod 32 \<longleftrightarrow> i = j"
  by (metis div_mult_mod_eq unat_div32 word_unat_eq_iff)

lemma frame_bit_bit: "bit (frame_bit i) n \<longleftrightarrow> n = unat i mod 32"
  by (auto simp: frame_bit_def bit_simps unat_mod)

lemma set_frame_fields [simp]:
  "pmm_total_frames (pmm_set_frame i s) = pmm_total_frames s"
  "pmm_total_frames (pmm_clear_frame i s) = pmm_total_frames s"
  "pmm_bitmap (pmm_set_frame i s) = pmm_bitmap s"
  "pmm_bitmap (pmm_clear_frame i s) = pmm_bitmap s"
  by (simp_all add: pmm_set_frame_def pmm_clear_frame_def Let_def)

lemma bitmap_word_cong: "pmm_bitmap s = pmm_bitmap s' \<Longrightarrow> bitmap_word k s = bitmap_word k s'"
  by (simp add: bitmap_word_def)

text \<open>What a write to one word of the bitmap does to the test of a frame.\<close>

lemma test_store:
  assumes "s' = s\<lparr>ram := store32 (ram s) (bitmap_word (i div 32) s) w\<rparr>"
  shows "pmm_test_frame j s' \<longleftrightarrow> pmm_total_frames s \<le> j \<or>
    (if j div 32 = i div 32 then bit w (unat j mod 32)
     else bit (load32 (ram s) (bitmap_word (j div 32) s)) (unat j mod 32))"
proof -
  have f: "pmm_total_frames s' = pmm_total_frames s" "bitmap_word k s' = bitmap_word k s" for k
    by (simp_all add: assms bitmap_word_def)
  show ?thesis
    using words_apart [of i j s]
    by (auto simp: test_bit f, auto simp: assms cell32.get_put cell32.get_put_apart)
qed

interpretation pmm_map: frame_map pmm_test_frame pmm_set_frame pmm_clear_frame pmm_total_frames
proof unfold_locales
  show "pmm_total_frames s \<le> j \<Longrightarrow> pmm_test_frame j s" for s j
    by (simp add: pmm_test_frame_def)
  show "pmm_test_frame j (pmm_set_frame i s) \<longleftrightarrow> pmm_test_frame j s \<or> j = i" for j i s
  proof (cases "pmm_total_frames s \<le> i")
    case True
    then show ?thesis by (auto simp: pmm_set_frame_def pmm_test_frame_def)
  next
    case False
    then show ?thesis
      using test_store [of "pmm_set_frame i s" s i "load32 (ram s) (bitmap_word (i div 32) s) OR frame_bit i" j]
        same_word_bit [of j i]
      by (auto simp: pmm_set_frame_def Let_def bit_or_iff frame_bit_bit test_bit)
  qed
  show "pmm_test_frame j (pmm_clear_frame i s) \<longleftrightarrow>
      pmm_test_frame j s \<and> (j \<noteq> i \<or> pmm_total_frames s \<le> j)" for j i s
  proof (cases "pmm_total_frames s \<le> i")
    case True
    then show ?thesis by (auto simp: pmm_clear_frame_def pmm_test_frame_def)
  next
    case False
    have "unat j mod 32 < 32" by simp
    then show ?thesis
      using False test_store [of "pmm_clear_frame i s" s i "load32 (ram s) (bitmap_word (i div 32) s) AND NOT (frame_bit i)" j]
        same_word_bit [of j i]
      by (auto simp: pmm_clear_frame_def Let_def bit_and_iff bit_not_iff frame_bit_bit test_bit)
  qed
qed simp_all

section \<open>The set of used frames\<close>

definition used :: "'a memory_scheme \<Rightarrow> nat set" where
  "used s = {k. k < unat (pmm_total_frames s) \<and> pmm_test_frame (of_nat k) s}"

lemma used_subset: "used s \<subseteq> {..<unat (pmm_total_frames s)}"
  by (auto simp: used_def)

lemma finite_used [simp]: "finite (used s)"
  using used_subset by (rule finite_subset) simp

lemma used_iff: "unat i \<in> used s \<longleftrightarrow> i < pmm_total_frames s \<and> pmm_test_frame i s"
  by (simp add: used_def word_less_nat_alt)

lemma test_used: "pmm_test_frame i s \<longleftrightarrow> pmm_total_frames s \<le> i \<or> unat i \<in> used s"
  using pmm_map.test_beyond [of s i] by (auto simp: used_iff)

lemma of_nat_frame: "k < unat (pmm_total_frames s) \<Longrightarrow> unat (of_nat k :: u64) = k"
  using unat_lt_u64 [of "pmm_total_frames s"] by (intro unat_of_nat_u64) linarith

lemma used_set: "i < pmm_total_frames s \<Longrightarrow> used (pmm_set_frame i s) = insert (unat i) (used s)"
proof (rule set_eqI)
  fix k assume i: "i < pmm_total_frames s"
  show "k \<in> used (pmm_set_frame i s) \<longleftrightarrow> k \<in> insert (unat i) (used s)"
    using i of_nat_frame [of k s]
    by (cases "k < unat (pmm_total_frames s)")
      (auto simp: used_def pmm_map.test_mark word_less_nat_alt)
qed

lemma used_clear: "used (pmm_clear_frame i s) = used s - {unat i}"
proof (rule set_eqI)
  fix k
  show "k \<in> used (pmm_clear_frame i s) \<longleftrightarrow> k \<in> used s - {unat i}"
    using of_nat_frame [of k s]
    by (cases "k < unat (pmm_total_frames s)")
      (auto simp: used_def pmm_map.test_unmark word_le_nat_alt)
qed

lemma used_counters [simp]:
  "used (s\<lparr>pmm_used_frames := x\<rparr>) = used s" "used (s\<lparr>pmm_reserved_frames := x\<rparr>) = used s"
  "used (emit cs s) = used s"
  by (simp_all add: used_def pmm_test_frame_def bitmap_word_def emit_def)

end
