(* ===== verification/Pmm_Props.thy ===== *)
theory Pmm_Props
  imports Frame_Map
begin

text \<open>
  The operations of the physical memory manager on the set of used frames: the searches find
  the lowest free run, allocation adds exactly that run, release removes, and
  \<open>pmm_used_frames\<close> stays the number of used frames.
\<close>

section \<open>Frame condition\<close>

text \<open>Only the bytes of the bitmap and the two counters of frames change.\<close>

definition pmm_frame :: "'a memory_scheme \<Rightarrow> 'a memory_scheme \<Rightarrow> bool" where
  "pmm_frame s s' \<longleftrightarrow>
    pmm_total_frames s' = pmm_total_frames s \<and> pmm_bitmap s' = pmm_bitmap s \<and>
    pmm_memory_base s' = pmm_memory_base s \<and> pmm_memory_size s' = pmm_memory_size s \<and>
    mem_info s' = mem_info s \<and> pmm_bitmap_size s' = pmm_bitmap_size s \<and> console s' = console s \<and>
    (\<forall>x. 4 * ((unat (pmm_total_frames s) + 31) div 32) \<le> unat (x - pmm_bitmap s) \<longrightarrow> ram s' x = ram s x)"

lemma pmm_frame_refl [simp]: "pmm_frame s s"
  by (simp add: pmm_frame_def)

lemma pmm_frame_fields:
  assumes "pmm_frame s s'"
  shows "pmm_total_frames s' = pmm_total_frames s" "pmm_bitmap s' = pmm_bitmap s"
    "pmm_memory_base s' = pmm_memory_base s" "pmm_memory_size s' = pmm_memory_size s"
    "mem_info s' = mem_info s" "pmm_bitmap_size s' = pmm_bitmap_size s" "console s' = console s"
  using assms by (simp_all add: pmm_frame_def)

lemma pmm_frame_trans [trans]: "pmm_frame s s' \<Longrightarrow> pmm_frame s' s'' \<Longrightarrow> pmm_frame s s''"
  by (simp add: pmm_frame_def)

lemma pmm_frame_used [simp]: "pmm_frame s (s\<lparr>pmm_used_frames := x\<rparr>)"
  "pmm_frame s (s\<lparr>pmm_reserved_frames := x\<rparr>)"
  by (simp_all add: pmm_frame_def)

text \<open>The word of a frame lies inside the bitmap.\<close>

lemma frame_word_inside:
  assumes "i < pmm_total_frames s"
    and "4 * ((unat (pmm_total_frames s) + 31) div 32) \<le> unat (x - pmm_bitmap s)"
  shows "4 \<le> unat (x - bitmap_word (i div 32) s)"
proof -
  have "unat (4 * (i div 32)) = 4 * (unat i div 32)"
  proof -
    have "unat i div 32 < 4611686018427387904"
      using unat_lt_u64 [of i] by (intro less_mult_imp_div_less) linarith
    then show ?thesis by (subst unat_mult_u64) (simp_all add: unat_div32)
  qed
  moreover have "4 * (unat i div 32) + 4 \<le> 4 * ((unat (pmm_total_frames s) + 31) div 32)"
  proof -
    have "(unat i + 32) div 32 \<le> (unat (pmm_total_frames s) + 31) div 32"
      using assms(1) by (intro div_le_mono) (simp add: word_less_nat_alt)
    moreover have "(unat i + 32) div 32 = unat i div 32 + 1" by simp
    ultimately show ?thesis by linarith
  qed
  ultimately show ?thesis
    unfolding bitmap_word_def by (intro outside_field [OF assms(2)]) simp
qed

lemma pmm_frame_set [simp]: "pmm_frame s (pmm_set_frame i s)"
  using frame_word_inside [of i s]
  by (auto simp: pmm_frame_def pmm_set_frame_def Let_def cell32.put_outside)

lemma pmm_frame_clear [simp]: "pmm_frame s (pmm_clear_frame i s)"
  using frame_word_inside [of i s]
  by (auto simp: pmm_frame_def pmm_clear_frame_def Let_def cell32.put_outside)

section \<open>The searches\<close>

lemma find_one_spec:
  "unat i \<le> unat (pmm_total_frames s) \<Longrightarrow>
   (find_one i s = - 1 \<and> {unat i..<unat (pmm_total_frames s)} \<subseteq> used s) \<or>
   (\<exists>k. find_one i s = of_nat k \<and> unat i \<le> k \<and> k < unat (pmm_total_frames s) \<and> k \<notin> used s \<and>
        {unat i..<k} \<subseteq> used s)"
proof (induction i s rule: find_one.induct)
  case (1 i s)
  consider (last) "\<not> i < pmm_total_frames s" | (free) "i < pmm_total_frames s" "\<not> pmm_test_frame i s"
    | (taken) "i < pmm_total_frames s" "pmm_test_frame i s" by blast
  then show ?case
  proof cases
    case last
    then show ?thesis by (subst find_one.simps) (simp add: word_less_nat_alt)
  next
    case free
    then have "find_one i s = of_nat (unat i)" by (subst find_one.simps) simp
    then show ?thesis
      using free by (intro disjI2 exI [of _ "unat i"]) (simp add: used_iff word_less_nat_alt)
  next
    case taken
    then have step: "find_one i s = find_one (i + 1) s" by (subst find_one.simps) simp
    have i: "unat (i + 1) = Suc (unat i)" using taken(1) by (rule unat_inc_u64)
    have "unat i \<in> used s" using taken by (simp add: used_iff)
    then have sub: "{Suc (unat i)..<m} \<subseteq> used s \<Longrightarrow> {unat i..<m} \<subseteq> used s" for m
    proof -
      assume a: "{Suc (unat i)..<m} \<subseteq> used s"
      have "{unat i..<m} \<subseteq> insert (unat i) {Suc (unat i)..<m}" by auto
      then show ?thesis using a \<open>unat i \<in> used s\<close> by blast
    qed
    have "unat (i + 1) \<le> unat (pmm_total_frames s)" using taken(1) i by (simp add: word_less_nat_alt)
    from 1(1) [OF taken(1) _ this] taken(2)
    consider "find_one (i + 1) s = - 1" "{Suc (unat i)..<unat (pmm_total_frames s)} \<subseteq> used s"
      | k where "find_one (i + 1) s = of_nat k" "Suc (unat i) \<le> k" "k < unat (pmm_total_frames s)"
        "k \<notin> used s" "{Suc (unat i)..<k} \<subseteq> used s"
      unfolding i by blast
    then show ?thesis
    proof cases
      case 1
      then show ?thesis using sub by (simp add: step)
    next
      case 2
      then show ?thesis using sub [of k] unfolding step by (intro disjI2 exI [of _ k]) simp
    qed
  qed
qed

text \<open>\<open>free_run s a n\<close>: the \<open>n\<close> frames from \<open>a\<close> exist and are free.\<close>

definition free_run :: "'a memory_scheme \<Rightarrow> nat \<Rightarrow> nat \<Rightarrow> bool" where
  "free_run s a n \<longleftrightarrow> a + n \<le> unat (pmm_total_frames s) \<and> {a..<a + n} \<inter> used s = {}"

lemma find_run_spec:
  assumes "unat c < unat count" and "unat c \<le> unat i" and "unat i \<le> unat (pmm_total_frames s)"
    and "{unat i - unat c..<unat i} \<inter> used s = {}" and "c \<noteq> 0 \<Longrightarrow> unat start = unat i - unat c"
    and "\<forall>a < unat i - unat c. \<exists>k \<in> used s. a \<le> k \<and> k < a + unat count \<and> k < unat i"
  shows "(find_run count i c start s = - 1 \<and> (\<forall>a. \<not> free_run s a (unat count))) \<or>
    (\<exists>a. find_run count i c start s = of_nat a \<and> free_run s a (unat count) \<and>
         (\<forall>b < a. \<not> free_run s b (unat count)))"
  using assms
proof (induction count i c start s rule: find_run.induct)
  case (1 count i c start s)
  let ?T = "unat (pmm_total_frames s)"
  have no_run: "\<not> free_run s a (unat count)" if "a < unat i - unat c" for a
  proof -
    obtain k where "k \<in> used s" "a \<le> k" "k < a + unat count" using 1(8) \<open>a < _\<close> by blast
    then show ?thesis unfolding free_run_def by fastforce
  qed
  consider (last) "\<not> i < pmm_total_frames s" | (free) "i < pmm_total_frames s" "\<not> pmm_test_frame i s"
    | (taken) "i < pmm_total_frames s" "pmm_test_frame i s" by blast
  then show ?case
  proof cases
    case last
    then have "unat i = ?T" using 1(5) by (simp add: word_less_nat_alt)
    then have "\<not> free_run s a (unat count)" for a
      using no_run [of a] 1(3,4) by (cases "a < unat i - unat c") (auto simp: free_run_def)
    then show ?thesis using last by (subst find_run.simps) simp
  next
    case free
    have i: "unat (i + 1) = Suc (unat i)" using free(1) by (rule unat_inc_u64)
    have "c < count" using 1(3) by (simp add: word_less_nat_alt)
    then have c: "unat (c + 1) = Suc (unat c)" by (rule unat_inc_u64)
    define start' where "start' = (if c = 0 then i else start)"
    have st: "unat start' = unat i - unat c" using 1(7) by (simp add: start'_def)
    have new: "{unat i - unat c..<Suc (unat i)} \<inter> used s = {}"
    proof -
      have "unat i \<notin> used s" using free by (simp add: used_iff)
      moreover have "{unat i - unat c..<Suc (unat i)} = insert (unat i) {unat i - unat c..<unat i}"
        by auto
      ultimately show ?thesis using 1(6) by simp
    qed
    show ?thesis
    proof (cases "c + 1 = count")
      case True
      have "find_run count i c start s = of_nat (unat start')"
        using True free by (subst find_run.simps) (simp add: Let_def start'_def)
      moreover have "free_run s (unat start') (unat count)"
        using True c st new 1(4) free(1) by (auto simp: free_run_def word_less_nat_alt)
      ultimately show ?thesis using no_run st by metis
    next
      case False
      have step: "find_run count i c start s = find_run count (i + 1) (c + 1) start' s"
        using False free by (subst find_run.simps) (simp add: Let_def start'_def)
      have "unat (c + 1) < unat count"
        using False c 1(3) by (metis Suc_lessI word_unat_eq_iff)
      moreover have "\<forall>a < unat (i + 1) - unat (c + 1). \<exists>k \<in> used s. a \<le> k \<and> k < a + unat count \<and> k < unat (i + 1)"
        using 1(8) i c by (simp add: less_Suc_eq) blast
      ultimately show ?thesis
        unfolding step
        using 1(1) [OF free start'_def refl False] 1(4) i c st new free(1)
        by (simp add: word_less_nat_alt)
    qed
  next
    case taken
    have i: "unat (i + 1) = Suc (unat i)" using taken(1) by (rule unat_inc_u64)
    have step: "find_run count i c start s = find_run count (i + 1) 0 start s"
      using taken by (subst find_run.simps) simp
    have iu: "unat i \<in> used s" using taken by (simp add: used_iff)
    have "\<exists>k \<in> used s. a \<le> k \<and> k < a + unat count \<and> k < Suc (unat i)" if "a < Suc (unat i)" for a
    proof (cases "a < unat i - unat c")
      case True
      then show ?thesis using 1(8) by (metis less_SucI)
    next
      case False
      then show ?thesis using iu that 1(3) by (intro bexI [of _ "unat i"]) auto
    qed
    moreover have "0 < unat count" using 1(3) by simp
    ultimately show ?thesis
      unfolding step using 1(2) taken i by (simp add: word_less_nat_alt)
  qed
qed

section \<open>The invariant\<close>

definition pmm_ok :: "'a memory_scheme \<Rightarrow> bool" where
  "pmm_ok s \<longleftrightarrow>
    pmm_total_frames s = pmm_memory_size s div PAGE_SIZE \<and>
    unat (pmm_memory_base s) + unat (pmm_memory_size s) < 18446744073709551616 \<and>
    pmm_used_frames s = of_nat (card (used s))"

lemma total_frames_bound:
  "pmm_ok s \<Longrightarrow> 4096 * unat (pmm_total_frames s) \<le> unat (pmm_memory_size s)"
  by (simp add: pmm_ok_def PAGE_SIZE_def unat_div)

lemma total_frames_small: "pmm_ok s \<Longrightarrow> unat (pmm_total_frames s) < 4503599627370496"
  using total_frames_bound [of s] unat_lt_u64 [of "pmm_memory_size s"] by linarith

lemma card_used_le: "card (used s) \<le> unat (pmm_total_frames s)"
  using card_mono [OF _ used_subset [of s]] by simp

lemma unat_card_used: "unat (of_nat (card (used s)) :: u64) = card (used s)"
  using card_used_le [of s] unat_lt_u64 [of "pmm_total_frames s"] by (intro unat_of_nat_u64) linarith

lemma count_used_simps [simp]:
  "used (count_used s) = used s" "pmm_frame s (count_used s)"
  "pmm_total_frames (count_used s) = pmm_total_frames s"
  by (simp_all add: count_used_def)

lemma pmm_ok_frame:
  "pmm_ok s \<Longrightarrow> pmm_frame s s' \<Longrightarrow> pmm_used_frames s' = of_nat (card (used s')) \<Longrightarrow> pmm_ok s'"
  using pmm_frame_fields [of s s'] by (simp add: pmm_ok_def)

text \<open>Taking a free frame and giving back a used one.\<close>

lemma take_frame:
  assumes "pmm_ok s" and "i < pmm_total_frames s" and "unat i \<notin> used s"
  shows "pmm_ok (count_used (pmm_set_frame i s))"
    and "used (count_used (pmm_set_frame i s)) = insert (unat i) (used s)"
    and "pmm_frame s (count_used (pmm_set_frame i s))"
proof -
  show fr: "pmm_frame s (count_used (pmm_set_frame i s))"
    using pmm_frame_trans [OF pmm_frame_set count_used_simps(2)] .
  show us: "used (count_used (pmm_set_frame i s)) = insert (unat i) (used s)"
    using assms(2) by (simp add: used_set)
  have "pmm_used_frames (pmm_set_frame i s) = pmm_used_frames s"
    by (simp add: pmm_set_frame_def Let_def)
  then show "pmm_ok (count_used (pmm_set_frame i s))"
    using assms by (intro pmm_ok_frame [OF assms(1) fr]) (simp add: us count_used_def used_set pmm_ok_def)
qed

lemma release_frame_spec:
  assumes "pmm_ok s"
  shows "pmm_ok (release_frame i s)" "used (release_frame i s) = used s - {unat i}"
    "pmm_frame s (release_frame i s)"
proof -
  have "pmm_ok (release_frame i s) \<and> used (release_frame i s) = used s - {unat i} \<and>
    pmm_frame s (release_frame i s)"
  proof (cases "unat i \<in> used s")
    case False
    then have "\<not> (i < pmm_total_frames s \<and> pmm_test_frame i s)" by (simp add: used_iff)
    then show ?thesis using False assms by (auto simp: release_frame_def)
  next
    case True
    let ?s = "pmm_clear_frame i s"
    have uf: "pmm_used_frames ?s = pmm_used_frames s" by (simp add: pmm_clear_frame_def Let_def)
    have "0 < card (used s)" using True by (auto simp: card_gt_0_iff)
    then have pos: "0 < pmm_used_frames s"
      using assms unat_card_used [of s] by (simp add: pmm_ok_def word_less_nat_alt)
    have rel: "release_frame i s = ?s\<lparr>pmm_used_frames := pmm_used_frames s - 1\<rparr>"
      using True pos uf by (simp add: release_frame_def uncount_used_def used_iff)
    have us: "used (release_frame i s) = used s - {unat i}" by (simp add: rel used_clear)
    have fr: "pmm_frame s (release_frame i s)"
      unfolding rel using pmm_frame_trans [OF pmm_frame_clear pmm_frame_used(1)] .
    have "pmm_used_frames (release_frame i s) = of_nat (card (used s - {unat i}))"
      using True assms \<open>0 < card (used s)\<close> by (simp add: rel pmm_ok_def of_nat_diff)
    then show ?thesis using pmm_ok_frame [OF assms fr] us fr by simp
  qed
  then show "pmm_ok (release_frame i s)" "used (release_frame i s) = used s - {unat i}"
    "pmm_frame s (release_frame i s)" by auto
qed

section \<open>Allocation\<close>

lemma index_not_negative: "pmm_ok s \<Longrightarrow> k < unat (pmm_total_frames s) \<Longrightarrow> \<not> sint (of_nat k :: u64) < 0"
proof -
  assume "pmm_ok s" "k < unat (pmm_total_frames s)"
  then have k: "k < 4503599627370496" using total_frames_small by fastforce
  then have "uint (of_nat k :: u64) = int k"
    by (simp add: unsigned_of_nat take_bit_eq_mod)
  then have "sint (of_nat k :: u64) = int k"
    using k by (simp add: sint_uint signed_take_bit_eq_if_positive bit_iff_odd take_bit_eq_mod)
  then show ?thesis by simp
qed

lemma alloc_frame_cases:
  assumes "pmm_ok s"
  obtains (full) "pmm_alloc_frame s = (0, s)" "used s = {..<unat (pmm_total_frames s)}"
    | (frame) k s' where "pmm_alloc_frame s = (pmm_memory_base s + of_nat (4096 * k), s')"
        "k < unat (pmm_total_frames s)" "k \<notin> used s" "{..<k} \<subseteq> used s"
        "used s' = insert k (used s)" "pmm_ok s'" "pmm_frame s s'"
proof -
  have find: "pmm_find_contiguous_frames 1 s = find_one 0 s" by (simp add: pmm_find_contiguous_frames_def)
  from find_one_spec [of 0 s]
  consider "find_one 0 s = - 1" "{0..<unat (pmm_total_frames s)} \<subseteq> used s"
    | k where "find_one 0 s = of_nat k" "k < unat (pmm_total_frames s)" "k \<notin> used s" "{0..<k} \<subseteq> used s"
    by auto
  then show thesis
  proof cases
    case 1
    have "pmm_alloc_frame s = (0, s)" by (simp add: pmm_alloc_frame_def find 1(1))
    then show ?thesis using 1(2) used_subset [of s] by (intro full) auto
  next
    case 2
    have u: "unat (of_nat k :: u64) = k" using 2(2) by (rule of_nat_frame)
    have lt: "(of_nat k :: u64) < pmm_total_frames s" using 2(2) u by (simp add: word_less_nat_alt)
    note t = take_frame [OF assms lt, unfolded u, OF 2(3)]
    have "pmm_alloc_frame s =
        (pmm_memory_base s + of_nat (4096 * k), count_used (pmm_set_frame (of_nat k) s))"
      using index_not_negative [OF assms 2(2)] pmm_frame_fields(3) [OF t(3)]
      by (simp add: pmm_alloc_frame_def find 2(1) PAGE_SIZE_def mult.commute Let_def)
    from frame [OF this 2(2,3) _ t(2,1,3)] 2(4) show ?thesis by (simp add: lessThan_atLeast0)
  qed
qed

lemma find_contiguous_spec:
  assumes "count \<noteq> 0"
  shows "(pmm_find_contiguous_frames count s = - 1 \<and> (\<forall>a. \<not> free_run s a (unat count))) \<or>
    (\<exists>a. pmm_find_contiguous_frames count s = of_nat a \<and> free_run s a (unat count) \<and>
         (\<forall>b < a. \<not> free_run s b (unat count)))"
proof (cases "count = 1")
  case True
  have one: "free_run s a (Suc 0) \<longleftrightarrow> a < unat (pmm_total_frames s) \<and> a \<notin> used s" for a
    by (auto simp: free_run_def)
  have f: "pmm_find_contiguous_frames count s = find_one 0 s"
    by (simp add: pmm_find_contiguous_frames_def True)
  from find_one_spec [of 0 s]
  consider "find_one 0 s = - 1" "{0..<unat (pmm_total_frames s)} \<subseteq> used s"
    | k where "find_one 0 s = of_nat k" "k < unat (pmm_total_frames s)" "k \<notin> used s" "{0..<k} \<subseteq> used s"
    by auto
  then show ?thesis
  proof cases
    case 1
    then have "\<not> free_run s a (Suc 0)" for a by (auto simp: one)
    then show ?thesis using 1(1) f True by simp
  next
    case 2
    then have "free_run s k (Suc 0) \<and> (\<forall>b < k. \<not> free_run s b (Suc 0))" by (auto simp: one)
    then show ?thesis using 2(1) f True by (intro disjI2 exI [of _ k]) simp
  qed
next
  case False
  have "0 < unat count" using assms by (simp add: unat_gt_0)
  then show ?thesis
    using find_run_spec [of 0 count 0 s 0] assms False
    by (simp add: pmm_find_contiguous_frames_def)
qed

text \<open>Marking a run of free frames.\<close>

lemma mark_run:
  assumes "free_run s a (unat count)"
  shows "used (for_u64 0 count (\<lambda>i. pmm_set_frame (of_nat a + i)) s) = used s \<union> {a..<a + unat count}"
    and "pmm_frame s (for_u64 0 count (\<lambda>i. pmm_set_frame (of_nat a + i)) s)"
    and "pmm_used_frames (for_u64 0 count (\<lambda>i. pmm_set_frame (of_nat a + i)) s) = pmm_used_frames s"
proof -
  let ?P = "\<lambda>k s'. used s' = used s \<union> {a..<a + k} \<and> pmm_frame s s' \<and> pmm_used_frames s' = pmm_used_frames s"
  have "?P (unat count) (for_u64 0 count (\<lambda>i. pmm_set_frame (of_nat a + i)) s)"
  proof (rule for_u64_inv)
    fix k s' assume k: "k < unat count" and P: "?P k s'"
    have t: "pmm_total_frames s' = pmm_total_frames s" using P pmm_frame_fields(1) by blast
    have lt: "a + k < unat (pmm_total_frames s')" using assms k t by (simp add: free_run_def)
    then have u: "unat (of_nat a + of_nat k :: u64) = a + k"
      using of_nat_frame [of "a + k" s'] by simp
    then have "of_nat a + of_nat k < pmm_total_frames s'" using lt by (simp add: word_less_nat_alt)
    then have "used (pmm_set_frame (of_nat a + of_nat k) s') = used s \<union> {a..<a + Suc k}"
      using P u by (auto simp: used_set)
    moreover have "pmm_frame s (pmm_set_frame (of_nat a + of_nat k) s')"
      using P pmm_frame_trans pmm_frame_set by blast
    moreover have "pmm_used_frames (pmm_set_frame (of_nat a + of_nat k) s') = pmm_used_frames s"
      using P by (simp add: pmm_set_frame_def Let_def)
    ultimately show "?P (Suc k) (pmm_set_frame (of_nat a + of_nat k) s')" by simp
  qed simp_all
  then show "used (for_u64 0 count (\<lambda>i. pmm_set_frame (of_nat a + i)) s) = used s \<union> {a..<a + unat count}"
    and "pmm_frame s (for_u64 0 count (\<lambda>i. pmm_set_frame (of_nat a + i)) s)"
    and "pmm_used_frames (for_u64 0 count (\<lambda>i. pmm_set_frame (of_nat a + i)) s) = pmm_used_frames s"
    by auto
qed

lemma alloc_frames_cases:
  assumes "pmm_ok s" and "count \<noteq> 0"
  obtains (full) "pmm_alloc_frames count s = (0, s)" "\<forall>a. \<not> free_run s a (unat count)"
    | (frames) a s' where "pmm_alloc_frames count s = (pmm_memory_base s + of_nat (4096 * a), s')"
        "free_run s a (unat count)" "\<forall>b < a. \<not> free_run s b (unat count)"
        "used s' = used s \<union> {a..<a + unat count}" "pmm_ok s'" "pmm_frame s s'"
proof -
  from find_contiguous_spec [OF assms(2), of s]
  consider "pmm_find_contiguous_frames count s = - 1" "\<forall>a. \<not> free_run s a (unat count)"
    | a where "pmm_find_contiguous_frames count s = of_nat a" "free_run s a (unat count)"
        "\<forall>b < a. \<not> free_run s b (unat count)" by blast
  then show thesis
  proof cases
    case 1
    have "pmm_alloc_frames count s = (0, s)" using assms(2) by (simp add: pmm_alloc_frames_def 1(1) Let_def)
    then show ?thesis using 1(2) by (rule full)
  next
    case 2
    define s1 where "s1 = for_u64 0 count (\<lambda>i. pmm_set_frame (of_nat a + i)) s"
    note m = mark_run [OF 2(2), folded s1_def]
    have "0 < unat count" using assms(2) by (simp add: unat_gt_0)
    then have a: "a < unat (pmm_total_frames s)" using 2(2) by (simp add: free_run_def)
    have "pmm_alloc_frames count s =
        (pmm_memory_base s + of_nat (4096 * a), s1\<lparr>pmm_used_frames := pmm_used_frames s1 + count\<rparr>)"
      using index_not_negative [OF assms(1) a] pmm_frame_fields(3) [OF m(2)] assms(2)
      by (simp add: pmm_alloc_frames_def 2(1) PAGE_SIZE_def mult.commute Let_def s1_def)
    moreover have fr: "pmm_frame s (s1\<lparr>pmm_used_frames := pmm_used_frames s1 + count\<rparr>)"
      using pmm_frame_trans [OF m(2) pmm_frame_used(1)] .
    moreover have "card (used s \<union> {a..<a + unat count}) = card (used s) + unat count"
      using 2(2) by (subst card_Un_disjoint) (auto simp: free_run_def)
    then have "pmm_ok (s1\<lparr>pmm_used_frames := pmm_used_frames s1 + count\<rparr>)"
      using assms(1) by (intro pmm_ok_frame [OF assms(1) fr]) (simp add: m pmm_ok_def)
    ultimately show ?thesis using 2(2,3) m(1) by (intro frames) auto
  qed
qed

section \<open>Release\<close>

text \<open>The index of the frame that holds an address, when the address is managed at all.\<close>

definition managed :: "'a memory_scheme \<Rightarrow> u64 \<Rightarrow> bool" where
  "managed s addr \<longleftrightarrow>
    unat (pmm_memory_base s) \<le> unat addr \<and> unat addr < unat (pmm_memory_base s) + unat (pmm_memory_size s)"

definition frame_of :: "'a memory_scheme \<Rightarrow> u64 \<Rightarrow> nat" where
  "frame_of s addr = (unat addr - unat (pmm_memory_base s)) div 4096"

lemma managed_test:
  assumes "pmm_ok s"
  shows "addr < pmm_memory_base s \<or> pmm_memory_base s + pmm_memory_size s \<le> addr \<longleftrightarrow> \<not> managed s addr"
proof -
  have "unat (pmm_memory_base s + pmm_memory_size s) = unat (pmm_memory_base s) + unat (pmm_memory_size s)"
    using assms by (intro unat_add_u64) (simp add: pmm_ok_def)
  then show ?thesis by (auto simp: managed_def word_less_nat_alt word_le_nat_alt)
qed

lemma managed_index:
  "managed s addr \<Longrightarrow> unat ((addr - pmm_memory_base s) div PAGE_SIZE) = frame_of s addr"
  by (simp add: managed_def frame_of_def PAGE_SIZE_def unat_div unat_diff_u64)

lemma free_frame_spec:
  assumes "pmm_ok s"
  shows "pmm_ok (pmm_free_frame addr s) \<and> pmm_frame s (pmm_free_frame addr s) \<and>
    used (pmm_free_frame addr s) = used s - (if managed s addr then {frame_of s addr} else {})"
proof (cases "managed s addr")
  case True
  then have "pmm_free_frame addr s = release_frame ((addr - pmm_memory_base s) div PAGE_SIZE) s"
    using managed_test [OF assms, of addr] by (simp add: pmm_free_frame_def)
  then show ?thesis using release_frame_spec [OF assms] managed_index [OF True] True by simp
next
  case False
  then show ?thesis using managed_test [OF assms, of addr] assms by (simp add: pmm_free_frame_def)
qed

lemma free_frames_spec:
  assumes "pmm_ok s" and "frame_of s addr + unat count \<le> 18446744073709551616"
  shows "pmm_ok (pmm_free_frames addr count s) \<and> pmm_frame s (pmm_free_frames addr count s) \<and>
    used (pmm_free_frames addr count s) =
      used s - (if managed s addr then {frame_of s addr..<frame_of s addr + unat count} else {})"
proof (cases "managed s addr \<and> count \<noteq> 0")
  case True
  let ?f = "(addr - pmm_memory_base s) div PAGE_SIZE"
  let ?P = "\<lambda>k s'. used s' = used s - {frame_of s addr..<frame_of s addr + k} \<and> pmm_ok s' \<and> pmm_frame s s'"
  have run: "pmm_free_frames addr count s = for_u64 0 count (\<lambda>i. release_frame (?f + i)) s"
    using True managed_test [OF assms(1), of addr] by (simp add: pmm_free_frames_def)
  have "?P (unat count) (for_u64 0 count (\<lambda>i. release_frame (?f + i)) s)"
  proof (rule for_u64_inv)
    fix k s' assume k: "k < unat count" and P: "?P k s'"
    have "unat (?f + of_nat k) = frame_of s addr + k"
    proof -
      have uk: "unat (of_nat k :: u64) = k" using k unat_lt_u64 [of count] by (intro unat_of_nat_u64) linarith
      show ?thesis
        using managed_index [of s addr] True k assms(2) uk by (subst unat_add_u64) auto
    qed
    then show "?P (Suc k) (release_frame (?f + of_nat k) s')"
      using release_frame_spec [of s' "?f + of_nat k"] P pmm_frame_trans by auto
  qed (use assms in auto)
  then show ?thesis using run True by simp
next
  case False
  then show ?thesis
    using managed_test [OF assms(1), of addr] assms(1) by (auto simp: pmm_free_frames_def)
qed

end
