(* ===== verification/Pmm_Init.thy ===== *)
theory Pmm_Init
  imports Pmm_Props
begin

text \<open>
  \<open>pmm_init\<close>: where the bitmap goes, and which frames are in use after the initialisation.
\<close>

section \<open>Clearing the bitmap\<close>

lemma word_apart:
  assumes "j \<noteq> k" and "j < 576460752303423488" and "k < 576460752303423488"
  shows "apart (bitmap_word (of_nat j) s) 4 (bitmap_word (of_nat k) s) 4"
proof -
  have "apart (of_nat (4 * j)) 4 (of_nat (4 * k)) 4" using assms by (intro apart_nat) linarith+
  then show ?thesis by (simp add: bitmap_word_def apart_shift)
qed

lemma bitmap_words:
  assumes "pmm_bitmap_size s = (pmm_total_frames s + 31) div 32"
    and "unat (pmm_total_frames s) < 4503599627370496"
  shows "unat (pmm_bitmap_size s) = (unat (pmm_total_frames s) + 31) div 32"
proof -
  have "unat (pmm_total_frames s + 31) = unat (pmm_total_frames s) + 31"
    using assms(2) by (subst unat_add_u64) simp_all
  then show ?thesis by (simp add: assms(1) unat_div32)
qed

lemma clear_bitmap_spec:
  assumes size: "pmm_bitmap_size s = (pmm_total_frames s + 31) div 32"
    and small: "unat (pmm_total_frames s) < 4503599627370496"
  shows "used (clear_bitmap s) = {}" "pmm_frame s (clear_bitmap s)"
    "pmm_used_frames (clear_bitmap s) = pmm_used_frames s"
proof -
  let ?n = "unat (pmm_bitmap_size s)"
  note n = bitmap_words [OF size small]
  have n_small: "?n < 576460752303423488" using small n by linarith
  let ?P = "\<lambda>k s'. pmm_frame s s' \<and> pmm_used_frames s' = pmm_used_frames s \<and>
      (\<forall>j < k. load32 (ram s') (bitmap_word (of_nat j) s) = 0)"
  have inv: "?P ?n (clear_bitmap s)"
    unfolding clear_bitmap_def
  proof (rule for_u64_inv)
    fix k s' assume k: "k < ?n" and P: "?P k s'"
    let ?p = "bitmap_word (of_nat k) s"
    have bw: "bitmap_word (of_nat k) s' = ?p"
      using pmm_frame_fields(2) [OF conjunct1 [OF P]] by (simp add: bitmap_word_def)
    have "4 \<le> unat (x - ?p)" if "4 * ((unat (pmm_total_frames s) + 31) div 32) \<le> unat (x - pmm_bitmap s)" for x
    proof -
      have "unat (4 * of_nat k :: u64) = 4 * k"
      proof -
        have "4 * of_nat k = (of_nat (4 * k) :: u64)" by simp
        then show ?thesis using k n_small by (simp only: unat_of_nat_u64)
      qed
      then show ?thesis
        unfolding bitmap_word_def using k n by (intro outside_field [OF that]) simp
    qed
    then have "pmm_frame s' (s'\<lparr>ram := store32 (ram s') ?p 0\<rparr>)"
      using pmm_frame_fields [OF conjunct1 [OF P]] by (simp add: pmm_frame_def cell32.put_outside)
    moreover have "load32 (store32 (ram s') ?p 0) (bitmap_word (of_nat j) s) = 0" if "j < Suc k" for j
    proof (cases "j = k")
      case False
      then have "apart ?p 4 (bitmap_word (of_nat j) s) 4"
        using k n_small that by (intro word_apart) simp_all
      then show ?thesis using False that P by (simp add: cell32.get_put_apart)
    qed (simp add: cell32.get_put)
    ultimately show "?P (Suc k) (s'\<lparr>ram := store32 (ram s') (bitmap_word (of_nat k) s') 0\<rparr>)"
      using P pmm_frame_trans by (auto simp: bw)
  qed simp_all
  then show "pmm_frame s (clear_bitmap s)" "pmm_used_frames (clear_bitmap s) = pmm_used_frames s" by auto
  note f = pmm_frame_fields [OF conjunct1 [OF inv]]
  have "k \<notin> used (clear_bitmap s)" for k
  proof
    assume "k \<in> used (clear_bitmap s)"
    then have k: "k < unat (pmm_total_frames s)" "pmm_test_frame (of_nat k) (clear_bitmap s)"
      by (simp_all add: used_def f)
    have u: "unat (of_nat k :: u64) = k" using k(1) by (rule of_nat_frame)
    have w: "of_nat k div 32 = (of_nat (k div 32) :: u64)"
    proof -
      have "unat (of_nat (k div 32) :: u64) = k div 32"
        using k(1) small by (intro unat_of_nat_u64) linarith
      then show ?thesis using u by (simp add: word_unat_eq_iff unat_div32)
    qed
    have "k div 32 < ?n" using k(1) n div_le_mono [of "k + 32" "unat (pmm_total_frames s) + 31" 32] by simp
    then have "load32 (ram (clear_bitmap s)) (bitmap_word (of_nat k div 32) (clear_bitmap s)) = 0"
      using inv w f(2) by (simp add: bitmap_word_def)
    then show False using k u by (simp add: test_bit f word_le_nat_alt)
  qed
  then show "used (clear_bitmap s) = {}" by auto
qed

section \<open>Reserving regions\<close>

text \<open>The frames that a region of the memory map reserves: those of its first bytes rounded up.\<close>

definition entry_frames :: "u64 \<Rightarrow> u64 \<Rightarrow> memory_map_entry \<Rightarrow> nat set" where
  "entry_frames mb ms e =
    (let base = unat (base_addr e); first = (base - unat mb) div 4096
     in if entry_type e \<noteq> MULTIBOOT_MEMORY_AVAILABLE \<and> unat mb \<le> base \<and> base < unat mb + unat ms
        then {first..<min (unat ms div 4096) (first + (unat (entry_length e) + 4095) div 4096)}
        else {})"

text \<open>A loop that marks and counts the frames of an interval, whether or not they are marked.\<close>

lemma mark_all:
  assumes "unat lo \<le> unat hi" and "unat hi \<le> unat (pmm_total_frames s)"
  shows "used (for_u64 lo hi (\<lambda>f s. count_used (pmm_set_frame f s)) s) = used s \<union> {unat lo..<unat hi}"
    and "pmm_frame s (for_u64 lo hi (\<lambda>f s. count_used (pmm_set_frame f s)) s)"
    and "pmm_used_frames (for_u64 lo hi (\<lambda>f s. count_used (pmm_set_frame f s)) s)
      = pmm_used_frames s + of_nat (unat hi - unat lo)"
proof -
  let ?P = "\<lambda>k s'. used s' = used s \<union> {unat lo..<k} \<and> pmm_frame s s' \<and>
    pmm_used_frames s' = pmm_used_frames s + of_nat (k - unat lo)"
  have "?P (unat hi) (for_u64 lo hi (\<lambda>f s. count_used (pmm_set_frame f s)) s)"
  proof (rule for_u64_inv [where P = ?P])
    fix k s' assume k: "unat lo \<le> k" "k < unat hi" and P: "?P k s'"
    have t: "pmm_total_frames s' = pmm_total_frames s" using P pmm_frame_fields(1) by blast
    have u: "unat (of_nat k :: u64) = k" using k(2) unat_lt_u64 [of hi] by (intro unat_of_nat_u64) linarith
    then have "of_nat k < pmm_total_frames s'" using k(2) assms(2) t by (simp add: word_less_nat_alt)
    then have "used (count_used (pmm_set_frame (of_nat k) s')) = used s \<union> {unat lo..<Suc k}"
      using P u k(1) by (auto simp: used_set)
    moreover have "pmm_frame s (count_used (pmm_set_frame (of_nat k) s'))"
      using P pmm_frame_trans pmm_frame_set count_used_simps(2) by blast
    moreover have "pmm_used_frames (count_used (pmm_set_frame (of_nat k) s'))
        = pmm_used_frames s + of_nat (Suc k - unat lo)"
      using P k(1) by (simp add: count_used_def pmm_set_frame_def Let_def Suc_diff_le)
    ultimately show "?P (Suc k) (count_used (pmm_set_frame (of_nat k) s'))" by simp
  qed (use assms in simp_all)
  then show "used (for_u64 lo hi (\<lambda>f s. count_used (pmm_set_frame f s)) s) = used s \<union> {unat lo..<unat hi}"
    and "pmm_frame s (for_u64 lo hi (\<lambda>f s. count_used (pmm_set_frame f s)) s)"
    and "pmm_used_frames (for_u64 lo hi (\<lambda>f s. count_used (pmm_set_frame f s)) s)
      = pmm_used_frames s + of_nat (unat hi - unat lo)" by auto
qed

text \<open>The geometry that \<open>pmm_init\<close> establishes first.\<close>

definition pmm_geometry :: "'a memory_scheme \<Rightarrow> bool" where
  "pmm_geometry s \<longleftrightarrow>
    pmm_total_frames s = pmm_memory_size s div PAGE_SIZE \<and>
    unat (pmm_memory_base s) + unat (pmm_memory_size s) < 18446744073709551616"

lemma pmm_geometry_frame: "pmm_geometry s \<Longrightarrow> pmm_frame s s' \<Longrightarrow> pmm_geometry s'"
  using pmm_frame_fields [of s s'] by (simp add: pmm_geometry_def)

lemma pmm_geometry_total: "pmm_geometry s \<Longrightarrow> unat (pmm_total_frames s) = unat (pmm_memory_size s) div 4096"
  by (simp add: pmm_geometry_def PAGE_SIZE_def unat_div)

lemma pmm_geometry_small: "pmm_geometry s \<Longrightarrow> unat (pmm_total_frames s) < 4503599627370496"
  using pmm_geometry_total [of s] unat_lt_u64 [of "pmm_memory_size s"]
  by (simp add: less_mult_imp_div_less)

lemma reserve_entry_spec:
  assumes g: "pmm_geometry s" and len: "unat (entry_length e) + 4095 < 18446744073709551616"
  defines "F \<equiv> entry_frames (pmm_memory_base s) (pmm_memory_size s) e"
  shows "used (reserve_entry e s) = used s \<union> F" "pmm_frame s (reserve_entry e s)"
    "pmm_used_frames (reserve_entry e s) = pmm_used_frames s + of_nat (card F)"
proof -
  have top: "unat (pmm_memory_base s + pmm_memory_size s) = unat (pmm_memory_base s) + unat (pmm_memory_size s)"
    using g by (intro unat_add_u64) (simp add: pmm_geometry_def)
  have "used (reserve_entry e s) = used s \<union> F \<and> pmm_frame s (reserve_entry e s) \<and>
    pmm_used_frames (reserve_entry e s) = pmm_used_frames s + of_nat (card F)"
  proof (cases "entry_type e \<noteq> MULTIBOOT_MEMORY_AVAILABLE \<and> pmm_memory_base s \<le> base_addr e \<and>
      base_addr e < pmm_memory_base s + pmm_memory_size s")
    case True
    define lo where "lo = (base_addr e - pmm_memory_base s) div PAGE_SIZE"
    define n where "n = (entry_length e + PAGE_SIZE - 1) div PAGE_SIZE"
    define hi where "hi = (if pmm_total_frames s < lo + n then pmm_total_frames s else lo + n)"
    have run: "reserve_entry e s = for_u64 lo hi (\<lambda>f s. count_used (pmm_set_frame f s)) s"
      using True by (simp add: reserve_entry_def Let_def lo_def n_def hi_def)
    have b: "unat (pmm_memory_base s) \<le> unat (base_addr e)"
      "unat (base_addr e) < unat (pmm_memory_base s) + unat (pmm_memory_size s)"
      using True top by (simp_all add: word_le_nat_alt word_less_nat_alt)
    have ulo: "unat lo = (unat (base_addr e) - unat (pmm_memory_base s)) div 4096"
      using b by (simp add: lo_def PAGE_SIZE_def unat_div unat_diff_u64)
    have un: "unat n = (unat (entry_length e) + 4095) div 4096"
    proof -
      have "unat (entry_length e + 4095) = unat (entry_length e) + 4095"
        using len by (subst unat_add_u64) simp_all
      moreover have "entry_length e + PAGE_SIZE - 1 = entry_length e + 4095"
        by (simp add: PAGE_SIZE_def)
      ultimately show ?thesis by (simp only: n_def) (simp add: PAGE_SIZE_def unat_div)
    qed
    have lo_T: "unat lo \<le> unat (pmm_total_frames s)"
      unfolding ulo pmm_geometry_total [OF g] using b by (intro div_le_mono) simp
    have uhi: "unat hi = min (unat (pmm_total_frames s)) (unat lo + unat n)"
    proof -
      have "unat n \<le> 4503599627370496" using un len by linarith
      then have "unat (lo + n) = unat lo + unat n"
        using lo_T pmm_geometry_small [OF g] by (intro unat_add_u64) simp
      then show ?thesis by (auto simp: hi_def word_less_nat_alt)
    qed
    have F: "F = {unat lo..<unat hi}"
      using True b unfolding F_def entry_frames_def Let_def uhi
      by (simp add: ulo un pmm_geometry_total [OF g])
    have lohi: "unat lo \<le> unat hi" "unat hi \<le> unat (pmm_total_frames s)" using uhi lo_T by simp_all
    show ?thesis using mark_all [OF lohi] by (simp add: run F)
  next
    case False
    then have "F = {}"
      using top by (auto simp: F_def entry_frames_def Let_def word_le_nat_alt word_less_nat_alt)
    moreover have "reserve_entry e s = s" using False by (auto simp: reserve_entry_def Let_def)
    ultimately show ?thesis by simp
  qed
  then show "used (reserve_entry e s) = used s \<union> F" "pmm_frame s (reserve_entry e s)"
    "pmm_used_frames (reserve_entry e s) = pmm_used_frames s + of_nat (card F)" by auto
qed

text \<open>All regions, when no two of them share a frame.\<close>

fun separate :: "nat set list \<Rightarrow> bool" where
  "separate [] = True"
| "separate (S # Ss) \<longleftrightarrow> S \<inter> \<Union> (set Ss) = {} \<and> separate Ss"

lemma finite_entry_frames [simp]: "finite (entry_frames mb ms e)"
  by (simp add: entry_frames_def Let_def)

lemma entry_frames_bound: "entry_frames mb ms e \<subseteq> {..<unat ms div 4096}"
  by (auto simp: entry_frames_def Let_def)

definition counted :: "'a memory_scheme \<Rightarrow> bool" where
  "counted s \<longleftrightarrow> pmm_used_frames s = of_nat (card (used s))"

lemma reserve_entries_spec:
  assumes "pmm_geometry s" and "counted s"
    and "\<forall>e \<in> set es. unat (entry_length e) + 4095 < 18446744073709551616"
    and "separate (map (entry_frames (pmm_memory_base s) (pmm_memory_size s)) es)"
    and "used s \<inter> (\<Union>e \<in> set es. entry_frames (pmm_memory_base s) (pmm_memory_size s) e) = {}"
  shows "used (fold reserve_entry es s) =
      used s \<union> (\<Union>e \<in> set es. entry_frames (pmm_memory_base s) (pmm_memory_size s) e) \<and>
    pmm_frame s (fold reserve_entry es s) \<and> counted (fold reserve_entry es s)"
  using assms
proof (induction es arbitrary: s)
  case Nil
  then show ?case by simp
next
  case (Cons e es)
  let ?F = "entry_frames (pmm_memory_base s) (pmm_memory_size s)"
  have len: "unat (entry_length e) + 4095 < 18446744073709551616" using Cons.prems(3) by simp
  note r = reserve_entry_spec [OF Cons.prems(1) len]
  note f = pmm_frame_fields [OF r(2)]
  have "card (used (reserve_entry e s)) = card (used s) + card (?F e)"
    unfolding r(1) using Cons.prems(5) by (intro card_Un_disjoint) auto
  then have c: "counted (reserve_entry e s)" using Cons.prems(2) r(3) by (simp add: counted_def)
  have dis: "used (reserve_entry e s) \<inter> (\<Union>e \<in> set es. ?F e) = {}"
    unfolding r(1) using Cons.prems(4,5) by auto
  have "used (fold reserve_entry es (reserve_entry e s)) =
      used (reserve_entry e s) \<union> (\<Union>e \<in> set es. ?F e) \<and>
    pmm_frame (reserve_entry e s) (fold reserve_entry es (reserve_entry e s)) \<and>
    counted (fold reserve_entry es (reserve_entry e s))"
    using Cons.IH [of "reserve_entry e s"] pmm_geometry_frame [OF Cons.prems(1) r(2)] c Cons.prems(3,4) dis
    by (simp add: f)
  then show ?case using r pmm_frame_trans by auto
qed

section \<open>Reserving the bitmap and the kernel\<close>

lemma claim_frame_spec:
  assumes "counted s"
  shows "counted (claim_frame i s)" "pmm_frame s (claim_frame i s)"
    "used (claim_frame i s) = used s \<union> ({unat i} \<inter> {..<unat (pmm_total_frames s)})"
proof -
  have "counted (claim_frame i s) \<and> pmm_frame s (claim_frame i s) \<and>
    used (claim_frame i s) = used s \<union> ({unat i} \<inter> {..<unat (pmm_total_frames s)})"
  proof (cases "pmm_test_frame i s")
    case True
    then show ?thesis
      using assms test_used [of i s] by (auto simp: claim_frame_def word_le_nat_alt)
  next
    case False
    then have i: "i < pmm_total_frames s" "unat i \<notin> used s" by (auto simp: test_used)
    have "pmm_used_frames (pmm_set_frame i s) = pmm_used_frames s"
      by (simp add: pmm_set_frame_def Let_def)
    then have "counted (count_used (pmm_set_frame i s))"
      using assms i by (simp add: counted_def count_used_def used_set)
    moreover have "pmm_frame s (count_used (pmm_set_frame i s))"
      using pmm_frame_trans [OF pmm_frame_set count_used_simps(2)] .
    moreover have "used (count_used (pmm_set_frame i s)) = insert (unat i) (used s)"
      using i(1) by (simp add: used_set)
    ultimately show ?thesis using False i(1) by (simp add: claim_frame_def word_less_nat_alt)
  qed
  then show "counted (claim_frame i s)" "pmm_frame s (claim_frame i s)"
    "used (claim_frame i s) = used s \<union> ({unat i} \<inter> {..<unat (pmm_total_frames s)})" by auto
qed

text \<open>A loop of claims from frame \<open>f\<close> on.\<close>

lemma claim_range:
  assumes "counted s" and "unat f + unat n \<le> 18446744073709551616"
    and body: "\<And>i s'. i < n \<Longrightarrow> counted s' \<Longrightarrow> body i s' = claim_frame (f + i) s'"
  shows "used (for_u64 0 n body s) = used s \<union> ({unat f..<unat f + unat n} \<inter> {..<unat (pmm_total_frames s)})"
    "pmm_frame s (for_u64 0 n body s)" "counted (for_u64 0 n body s)"
proof -
  let ?P = "\<lambda>k s'. used s' = used s \<union> ({unat f..<unat f + k} \<inter> {..<unat (pmm_total_frames s)}) \<and>
    pmm_frame s s' \<and> counted s'"
  have "?P (unat n) (for_u64 0 n body s)"
  proof (rule for_u64_inv [where P = ?P])
    fix k s' assume k: "k < unat n" and P: "?P k s'"
    have uk: "unat (of_nat k :: u64) = k" using k unat_lt_u64 [of n] by (intro unat_of_nat_u64) linarith
    then have "of_nat k < n" using k by (simp add: word_less_nat_alt)
    then have b: "body (of_nat k) s' = claim_frame (f + of_nat k) s'" using P by (intro body) simp_all
    have "unat f + unat (of_nat k :: u64) < 18446744073709551616" unfolding uk using k assms(2) by linarith
    from unat_add_u64 [OF this] have u: "unat (f + of_nat k) = unat f + k" unfolding uk .
    have c: "counted s'" using P by simp
    note cl = claim_frame_spec [OF c, of "f + of_nat k", unfolded u]
    have t: "pmm_total_frames s' = pmm_total_frames s" using P pmm_frame_fields(1) by blast
    have "used (claim_frame (f + of_nat k) s') =
        used s \<union> ({unat f..<unat f + Suc k} \<inter> {..<unat (pmm_total_frames s)})"
    proof -
      have "{unat f..<unat f + Suc k} = insert (unat f + k) {unat f..<unat f + k}" by auto
      moreover have "used s' = used s \<union> ({unat f..<unat f + k} \<inter> {..<unat (pmm_total_frames s)})"
        using P by simp
      ultimately show ?thesis unfolding cl(3) t by blast
    qed
    then show "?P (Suc k) (body (of_nat k) s')"
      unfolding b using cl(1,2) P pmm_frame_trans by blast
  qed (use assms in simp_all)
  then show "used (for_u64 0 n body s) = used s \<union> ({unat f..<unat f + unat n} \<inter> {..<unat (pmm_total_frames s)})"
    "pmm_frame s (for_u64 0 n body s)" "counted (for_u64 0 n body s)" by auto
qed

lemma counted_reserved [simp]: "counted (s\<lparr>pmm_reserved_frames := x\<rparr>) = counted s"
  by (simp add: counted_def)

text \<open>The frames of the bitmap, as \<open>pmm_init\<close> counts them.\<close>

definition bitmap_frames_of :: "'a memory_scheme \<Rightarrow> nat set" where
  "bitmap_frames_of s =
    (let first = unat ((pmm_bitmap s - pmm_memory_base s) div PAGE_SIZE)
     in {first..<first + (4 * unat (pmm_bitmap_size s) + 4095) div 4096} \<inter> {..<unat (pmm_total_frames s)})"

lemma reserve_bitmap_spec:
  assumes c: "counted s" and small: "unat (pmm_bitmap_size s) < 1152921504606846976"
  shows "used (reserve_bitmap (pmm_bitmap_size s * 4) s) = used s \<union> bitmap_frames_of s"
    "pmm_frame s (reserve_bitmap (pmm_bitmap_size s * 4) s)"
    "counted (reserve_bitmap (pmm_bitmap_size s * 4) s)"
proof -
  define f where "f = (pmm_bitmap s - pmm_memory_base s) div PAGE_SIZE"
  define n where "n = (pmm_bitmap_size s * 4 + PAGE_SIZE - 1) div PAGE_SIZE"
  let ?body = "\<lambda>i s. let frame = f + i in if frame < pmm_total_frames s then claim_frame frame s else s"
  have b4: "unat (pmm_bitmap_size s * 4) = 4 * unat (pmm_bitmap_size s)"
    using small by (subst unat_mult_u64) simp_all
  have un: "unat n = (4 * unat (pmm_bitmap_size s) + 4095) div 4096"
  proof -
    have "pmm_bitmap_size s * 4 + PAGE_SIZE - 1 = pmm_bitmap_size s * 4 + 4095"
      by (simp add: PAGE_SIZE_def)
    moreover have "unat (pmm_bitmap_size s * 4 + 4095) = 4 * unat (pmm_bitmap_size s) + 4095"
      using b4 small by (subst unat_add_u64) simp_all
    ultimately show ?thesis by (simp only: n_def) (simp add: PAGE_SIZE_def unat_div)
  qed
  have "unat f < 4503599627370497"
    using unat_lt_u64 [of "pmm_bitmap s - pmm_memory_base s"]
    by (simp add: f_def PAGE_SIZE_def unat_div less_mult_imp_div_less del: unat_lt_u64)
  moreover have "unat n \<le> 1152921504606846976" unfolding un using small by linarith
  ultimately have fn: "unat f + unat n \<le> 18446744073709551616" by linarith
  have body: "?body i s' = claim_frame (f + i) s'" for i s'
    using pmm_map.test_beyond [of s' "f + i"] by (auto simp: claim_frame_def Let_def)
  note r = claim_range [of s f n ?body, OF c fn body]
  have run: "\<exists>x. reserve_bitmap (pmm_bitmap_size s * 4) s = (for_u64 0 n ?body s)\<lparr>pmm_reserved_frames := x\<rparr>"
    by (simp add: reserve_bitmap_def f_def n_def Let_def) (rule exI, rule refl)
  have "used (for_u64 0 n ?body s) = used s \<union> bitmap_frames_of s"
    unfolding r(1) un by (simp add: bitmap_frames_of_def f_def Let_def)
  then show "used (reserve_bitmap (pmm_bitmap_size s * 4) s) = used s \<union> bitmap_frames_of s"
    "pmm_frame s (reserve_bitmap (pmm_bitmap_size s * 4) s)"
    "counted (reserve_bitmap (pmm_bitmap_size s * 4) s)"
    using run r(2,3) pmm_frame_trans [OF r(2) pmm_frame_used(2)] by auto
qed

lemma reserve_kernel_spec:
  assumes c: "counted s"
  shows "used (reserve_kernel s) = used s \<union> {..<min 512 (unat (pmm_total_frames s))}"
    "pmm_frame s (reserve_kernel s)" "counted (reserve_kernel s)"
proof -
  have m: "unat (min 512 (pmm_total_frames s)) = min 512 (unat (pmm_total_frames s))"
    by (simp add: min_def word_le_nat_alt)
  have fn: "unat (0::u64) + unat (min 512 (pmm_total_frames s)) \<le> 18446744073709551616" by (simp add: m)
  note r = claim_range [of s 0 "min 512 (pmm_total_frames s)" claim_frame, OF c fn]
  have run: "\<exists>x. reserve_kernel s = (for_u64 0 (min 512 (pmm_total_frames s)) claim_frame s)\<lparr>pmm_reserved_frames := x\<rparr>"
    by (simp add: reserve_kernel_def Let_def PAGE_SIZE_def) (rule exI, rule refl)
  have "{unat (0::u64)..<unat (0::u64) + unat (min 512 (pmm_total_frames s))} \<inter> {..<unat (pmm_total_frames s)}
      = {..<min 512 (unat (pmm_total_frames s))}"
    unfolding m by (auto simp: min_def)
  then have "used (for_u64 0 (min 512 (pmm_total_frames s)) claim_frame s) =
      used s \<union> {..<min 512 (unat (pmm_total_frames s))}"
    using r(1) by simp
  then show "used (reserve_kernel s) = used s \<union> {..<min 512 (unat (pmm_total_frames s))}"
    "pmm_frame s (reserve_kernel s)" "counted (reserve_kernel s)"
    using run r(2,3) pmm_frame_trans [OF r(2) pmm_frame_used(2)] by auto
qed

section \<open>The whole initialisation\<close>

text \<open>The state after the assignments at the start of \<open>pmm_init\<close>.\<close>

definition init_start :: "u64 \<Rightarrow> u64 \<Rightarrow> 'a memory_scheme \<Rightarrow> 'a memory_scheme" where
  "init_start mb ms s =
    (let s = s\<lparr>pmm_memory_base := mb, pmm_memory_size := ms, pmm_total_frames := ms div PAGE_SIZE,
               pmm_used_frames := 0, pmm_reserved_frames := 0,
               pmm_bitmap_size := (ms div PAGE_SIZE + 31) div 32\<rparr>
     in s\<lparr>pmm_bitmap := find_bitmap_location (pmm_bitmap_size s * 4) s\<rparr>)"

lemma pmm_init_stages:
  "pmm_init mb ms s =
    (let s1 = init_start mb ms s;
         s2 = clear_bitmap s1;
         s3 = fold reserve_entry (entries (mem_info s2)) s2;
         s4 = reserve_bitmap (pmm_bitmap_size s1 * 4) s3;
         s5 = reserve_kernel s4
     in emit [Text ''[OK] PMM inicializado: '', Dec (pmm_total_frames s5), Text '' frames ('',
              Dec (pmm_total_frames s5 * PAGE_SIZE div (1024 * 1024)), Line '' MB)''] s5)"
  by (simp add: pmm_init_def init_start_def memory_get_info_def Let_def)

lemma pmm_init_spec:
  assumes mbs: "unat mb + unat ms < 18446744073709551616"
    and len: "\<forall>e \<in> set (entries (mem_info s)). unat (entry_length e) + 4095 < 18446744073709551616"
    and sep: "separate (map (entry_frames mb ms) (entries (mem_info s)))"
  shows "pmm_ok (pmm_init mb ms s)"
    and "pmm_total_frames (pmm_init mb ms s) = ms div PAGE_SIZE"
    and "pmm_memory_base (pmm_init mb ms s) = mb"
    and "pmm_bitmap (pmm_init mb ms s) = find_bitmap_location ((ms div PAGE_SIZE + 31) div 32 * 4) s"
    and "used (pmm_init mb ms s) = (\<Union>e \<in> set (entries (mem_info s)). entry_frames mb ms e) \<union>
          bitmap_frames_of (pmm_init mb ms s) \<union> {..<min 512 (unat (ms div PAGE_SIZE))}"
    and "\<forall>x. 4 * ((unat (ms div PAGE_SIZE) + 31) div 32) \<le> unat (x - pmm_bitmap (pmm_init mb ms s)) \<longrightarrow>
          ram (pmm_init mb ms s) x = ram s x"
    and "pmm_bitmap_size (pmm_init mb ms s) = (ms div PAGE_SIZE + 31) div 32"
proof -
  define s1 where "s1 = init_start mb ms s"
  define s2 where "s2 = clear_bitmap s1"
  define s3 where "s3 = fold reserve_entry (entries (mem_info s2)) s2"
  have f1: "pmm_memory_base s1 = mb" "pmm_memory_size s1 = ms" "pmm_total_frames s1 = ms div PAGE_SIZE"
    "pmm_bitmap_size s1 = (ms div PAGE_SIZE + 31) div 32" "pmm_used_frames s1 = 0" "ram s1 = ram s"
    "mem_info s1 = mem_info s" "pmm_bitmap s1 = find_bitmap_location ((ms div PAGE_SIZE + 31) div 32 * 4) s"
    by (simp_all add: s1_def init_start_def Let_def find_bitmap_location_def memory_get_info_def)
  have g1: "pmm_geometry s1" using mbs by (simp add: pmm_geometry_def f1)
  have bs1: "pmm_bitmap_size s1 = (pmm_total_frames s1 + 31) div 32" by (simp add: f1)
  note c2 = clear_bitmap_spec [OF bs1 pmm_geometry_small [OF g1], folded s2_def]
  note f2 = pmm_frame_fields [OF c2(2)]
  have k2: "counted s2" by (simp add: counted_def c2 f1)
  have s3: "used s3 = (\<Union>e \<in> set (entries (mem_info s)). entry_frames mb ms e)" "pmm_frame s2 s3" "counted s3"
    using reserve_entries_spec [OF pmm_geometry_frame [OF g1 c2(2)] k2, of "entries (mem_info s2)"] len sep
    by (simp_all add: f1 f2 c2 s3_def)
  have f3: "pmm_frame s1 s3" using pmm_frame_trans [OF c2(2) s3(2)] .
  note f3' = pmm_frame_fields [OF f3]
  have small: "unat (pmm_bitmap_size s3) < 1152921504606846976"
    unfolding f3'(6) using bitmap_words [OF bs1 pmm_geometry_small [OF g1]] pmm_geometry_small [OF g1]
    by linarith
  define s4 where "s4 = reserve_bitmap (pmm_bitmap_size s1 * 4) s3"
  define s5 where "s5 = reserve_kernel s4"
  note r4 = reserve_bitmap_spec [OF s3(3) small, unfolded f3'(6), folded s4_def]
  note r5 = reserve_kernel_spec [OF r4(3), folded s5_def]
  have f5: "pmm_frame s1 s5" using f3 r4(2) r5(2) pmm_frame_trans by blast
  note f5' = pmm_frame_fields [OF f5]
  obtain cs where run: "pmm_init mb ms s = emit cs s5"
    by (simp add: pmm_init_stages s1_def s2_def s3_def s4_def s5_def Let_def)
  show "pmm_total_frames (pmm_init mb ms s) = ms div PAGE_SIZE"
    "pmm_memory_base (pmm_init mb ms s) = mb"
    "pmm_bitmap (pmm_init mb ms s) = find_bitmap_location ((ms div PAGE_SIZE + 31) div 32 * 4) s"
    "pmm_bitmap_size (pmm_init mb ms s) = (ms div PAGE_SIZE + 31) div 32"
    by (simp_all add: run f5' f1)
  show "pmm_ok (pmm_init mb ms s)"
    using r5(3) mbs f5' f1 by (simp add: run pmm_ok_def counted_def)
  have "bitmap_frames_of (pmm_init mb ms s) = bitmap_frames_of s3"
    by (simp add: run bitmap_frames_of_def f5' f3' Let_def)
  moreover have "pmm_total_frames s4 = ms div PAGE_SIZE"
    using pmm_frame_fields(1) [OF r4(2)] f3' f1 by simp
  ultimately show "used (pmm_init mb ms s) = (\<Union>e \<in> set (entries (mem_info s)). entry_frames mb ms e) \<union>
          bitmap_frames_of (pmm_init mb ms s) \<union> {..<min 512 (unat (ms div PAGE_SIZE))}"
    using r4(1) r5(1) s3(1) by (simp add: run)
  show "\<forall>x. 4 * ((unat (ms div PAGE_SIZE) + 31) div 32) \<le> unat (x - pmm_bitmap (pmm_init mb ms s)) \<longrightarrow>
          ram (pmm_init mb ms s) x = ram s x"
    using f5 f1 f5' by (simp add: run pmm_frame_def)
qed

text \<open>\<open>memory.more\<close> is the state of the components above the memory manager.\<close>

lemma pmm_more [simp]:
  "memory.more (pmm_set_frame i s) = memory.more s" "memory.more (count_used s) = memory.more s"
  "memory.more (claim_frame i s) = memory.more s" "memory.more (emit cs s) = memory.more s"
  by (simp_all add: pmm_set_frame_def count_used_def claim_frame_def Let_def emit_def)

lemma loop_more:
  "(\<And>k s. memory.more (body k s) = memory.more s) \<Longrightarrow> memory.more (for_u64 lo hi body s) = memory.more s"
  by (rule for_u64_preserves [where P = "\<lambda>s'. memory.more s' = memory.more s"]) simp_all

lemma pmm_init_more [simp]: "memory.more (pmm_init mb ms s) = memory.more s"
proof -
  have clear: "memory.more (clear_bitmap s) = memory.more s" for s :: "'a memory_scheme"
    by (simp add: clear_bitmap_def loop_more)
  have entry: "memory.more (reserve_entry e s) = memory.more s" for e and s :: "'a memory_scheme"
    by (simp add: reserve_entry_def Let_def loop_more)
  have entries: "memory.more (fold reserve_entry es s) = memory.more s" for es and s :: "'a memory_scheme"
    by (induction es arbitrary: s) (simp_all add: entry)
  have bitmap: "memory.more (reserve_bitmap b s) = memory.more s" for b and s :: "'a memory_scheme"
    by (simp add: reserve_bitmap_def Let_def loop_more)
  have kernel: "memory.more (reserve_kernel s) = memory.more s" for s :: "'a memory_scheme"
    by (simp add: reserve_kernel_def Let_def loop_more)
  show ?thesis by (simp add: pmm_init_def Let_def clear entries bitmap kernel)
qed

end
