(* ===== verification/Pmm_Claims.thy ===== *)
theory Pmm_Claims
  imports Pmm_Init
begin

text \<open>
  What the physical memory manager guarantees, as properties of the operations of
  \<open>memory.c\<close>.
\<close>

text \<open>
  States that any sequence of calls can reach from an initialised manager. The arguments
  are arbitrary: wrong addresses and double releases are allowed.
\<close>

inductive pmm_reach :: "'a memory_scheme \<Rightarrow> 'a memory_scheme \<Rightarrow> bool" for s0 :: "'a memory_scheme" where
  start: "pmm_reach s0 s0"
| alloc: "pmm_reach s0 s \<Longrightarrow> pmm_reach s0 (snd (pmm_alloc_frame s))"
| alloc_many: "pmm_reach s0 s \<Longrightarrow> pmm_reach s0 (snd (pmm_alloc_frames count s))"
| release: "pmm_reach s0 s \<Longrightarrow> pmm_reach s0 (pmm_free_frame addr s)"
| release_many: "pmm_reach s0 s \<Longrightarrow> unat count \<le> 9223372036854775808 \<Longrightarrow>
    pmm_reach s0 (pmm_free_frames addr count s)"

lemma frame_of_small: "frame_of s addr < 4503599627370496"
  unfolding frame_of_def using unat_lt_u64 [of addr] by (intro less_mult_imp_div_less) linarith

lemma alloc_frame_keeps:
  assumes "pmm_ok s"
  shows "pmm_ok (snd (pmm_alloc_frame s)) \<and> pmm_frame s (snd (pmm_alloc_frame s))"
  using assms
proof (cases rule: alloc_frame_cases)
  case full
  then show ?thesis using assms by simp
next
  case (frame k s')
  then show ?thesis by simp
qed

lemma alloc_frames_keeps:
  assumes "pmm_ok s"
  shows "pmm_ok (snd (pmm_alloc_frames count s)) \<and> pmm_frame s (snd (pmm_alloc_frames count s))"
proof (cases "count = 0")
  case True
  then show ?thesis using assms by (simp add: pmm_alloc_frames_def)
next
  case False
  show ?thesis
    using assms False
  proof (cases rule: alloc_frames_cases)
    case full
    then show ?thesis using assms by simp
  next
    case (frames a s')
    then show ?thesis by simp
  qed
qed

lemma pmm_reach_inv:
  "pmm_reach s0 s \<Longrightarrow> pmm_ok s0 \<Longrightarrow> pmm_ok s \<and> pmm_frame s0 s"
proof (induction rule: pmm_reach.induct)
  case start
  then show ?case by simp
next
  case (alloc s)
  then show ?case using alloc_frame_keeps pmm_frame_trans by blast
next
  case (alloc_many s count)
  then show ?case using alloc_frames_keeps pmm_frame_trans by blast
next
  case (release s addr)
  then show ?case using free_frame_spec pmm_frame_trans by blast
next
  case (release_many s count addr)
  have "frame_of s addr + unat count \<le> 18446744073709551616"
    using frame_of_small [of s addr] release_many(2) by linarith
  then show ?case using release_many free_frames_spec pmm_frame_trans by blast
qed

section \<open>A manager to instantiate the properties on\<close>

text \<open>The memory map of a machine with 128 MiB, as the boot loader reports it.\<close>

definition map_128M :: "memory_map_entry list" where
  "map_128M =
    [\<lparr>base_addr = 0, entry_length = 0x9FC00, entry_type = 1\<rparr>,
     \<lparr>base_addr = 0x9FC00, entry_length = 0x400, entry_type = 2\<rparr>,
     \<lparr>base_addr = 0xF0000, entry_length = 0x10000, entry_type = 2\<rparr>,
     \<lparr>base_addr = 0x100000, entry_length = 0x7EE0000, entry_type = 1\<rparr>,
     \<lparr>base_addr = 0x7FE0000, entry_length = 0x20000, entry_type = 2\<rparr>,
     \<lparr>base_addr = 0xFFFC0000, entry_length = 0x40000, entry_type = 2\<rparr>]"

definition boot_memory :: memory where
  "boot_memory = \<lparr>ram = \<lambda>_. 0, console = [],
    heap_head = NULL, heap_initialized = False, total_allocations = 0, total_frees = 0,
    failed_allocations = 0, mem_info = \<lparr>entries = map_128M, total_memory = 0, available_memory = 0\<rparr>,
    pmm_bitmap = 0, pmm_bitmap_size = 0, pmm_total_frames = 0, pmm_used_frames = 0,
    pmm_reserved_frames = 0, pmm_memory_base = 0, pmm_memory_size = 0\<rparr>"

lemma map_128M_frames: "e \<in> set map_128M \<Longrightarrow> entry_frames 0x100000 0x7EE0000 e = {}"
  by (auto simp: map_128M_def entry_frames_def MULTIBOOT_MEMORY_AVAILABLE_def)

lemma map_128M_ok:
  "\<forall>e \<in> set map_128M. unat (entry_length e) + 4095 < 18446744073709551616"
  "separate (map (entry_frames 0x100000 0x7EE0000) map_128M)"
proof -
  show "\<forall>e \<in> set map_128M. unat (entry_length e) + 4095 < 18446744073709551616"
    by (simp add: map_128M_def)
  have e: "map (entry_frames 0x100000 0x7EE0000) map_128M = replicate 6 {}"
    using map_128M_frames by (simp add: map_128M_def eval_nat_numeral)
  show "separate (map (entry_frames 0x100000 0x7EE0000) map_128M)"
    unfolding e by (simp add: eval_nat_numeral)
qed

lemma map_128M_location: "find_location b map_128M = 0x201000" if "unat b \<le> 100000000"
proof -
  have "unat (b + 8192) = unat b + 8192" using that by (subst unat_add_u64) simp_all
  then have "b + 8192 \<le> 0x7DE0000" using that by (simp add: word_le_nat_alt)
  then show ?thesis
    by (simp add: map_128M_def MULTIBOOT_MEMORY_AVAILABLE_def PAGE_SIZE_def Let_def)
qed

text \<open>The manager that the kernel sets up on this machine, from any state that holds the map.\<close>

lemma init_128M:
  assumes "entries (mem_info s) = map_128M"
  shows "pmm_ok (pmm_init 0x100000 0x7EE0000 s)"
    "pmm_total_frames (pmm_init 0x100000 0x7EE0000 s) = 0x7EE0"
    "pmm_memory_base (pmm_init 0x100000 0x7EE0000 s) = 0x100000"
    "k \<in> used (pmm_init 0x100000 0x7EE0000 s) \<longleftrightarrow> k < 512"
proof -
  have mb: "unat (0x100000 :: u64) + unat (0x7EE0000 :: u64) < 18446744073709551616" by simp
  note i = pmm_init_spec [OF mb, of s, unfolded assms, OF map_128M_ok]
  have T: "(0x7EE0000 :: u64) div PAGE_SIZE = 0x7EE0" by (simp add: PAGE_SIZE_def)
  show "pmm_ok (pmm_init 0x100000 0x7EE0000 s)" "pmm_total_frames (pmm_init 0x100000 0x7EE0000 s) = 0x7EE0"
    "pmm_memory_base (pmm_init 0x100000 0x7EE0000 s) = 0x100000"
    using i(1,2,3) by (simp_all add: T)
  have loc: "pmm_bitmap (pmm_init 0x100000 0x7EE0000 s) = 0x201000"
    unfolding i(4) T find_bitmap_location_def memory_get_info_def assms
    by (rule map_128M_location) simp
  have "pmm_bitmap_size (pmm_init 0x100000 0x7EE0000 s) = 0x3F7"
    unfolding i(7) T by simp
  then have "bitmap_frames_of (pmm_init 0x100000 0x7EE0000 s) = {257}"
    using i(2,3) loc by (auto simp: bitmap_frames_of_def PAGE_SIZE_def T Let_def)
  moreover have "min 512 (unat ((0x7EE0000 :: u64) div PAGE_SIZE)) = 512" by (simp add: T)
  ultimately show "k \<in> used (pmm_init 0x100000 0x7EE0000 s) \<longleftrightarrow> k < 512"
    unfolding i(5) using map_128M_frames by auto
qed

lemma init_128M_bitmap:
  assumes "entries (mem_info s) = map_128M"
  shows "pmm_bitmap (pmm_init 0x100000 0x7EE0000 s) = 0x201000"
proof -
  have mb: "unat (0x100000 :: u64) + unat (0x7EE0000 :: u64) < 18446744073709551616" by simp
  have T: "(0x7EE0000 :: u64) div PAGE_SIZE = 0x7EE0" by (simp add: PAGE_SIZE_def)
  show ?thesis
    unfolding pmm_init_spec(4) [OF mb, of s, unfolded assms, OF map_128M_ok] T find_bitmap_location_def
      memory_get_info_def assms
    by (rule map_128M_location) simp
qed

section \<open>Allocation and release\<close>

text \<open>
  \<open>pmm_alloc_frame\<close> returns 0 and changes nothing when all frames are in use; otherwise it
  returns the address of the lowest free frame, and exactly this frame becomes used.
\<close>

theorem pmm_alloc_frame_lowest:
  assumes "pmm_ok s"
  shows "if used s = {..<unat (pmm_total_frames s)} then pmm_alloc_frame s = (0, s)
    else \<exists>k s'. pmm_alloc_frame s = (pmm_memory_base s + of_nat (4096 * k), s') \<and>
      k < unat (pmm_total_frames s) \<and> k \<notin> used s \<and> {..<k} \<subseteq> used s \<and>
      used s' = insert k (used s) \<and> pmm_ok s'"
  using assms
proof (cases rule: alloc_frame_cases)
  case full
  then show ?thesis by simp
next
  case (frame k s')
  then have "used s \<noteq> {..<unat (pmm_total_frames s)}" by auto
  then show ?thesis using frame by auto
qed

theorem pmm_alloc_frame_lowest_witness:
  "\<exists>s'. pmm_alloc_frame (pmm_init 0x100000 0x7EE0000 boot_memory) = (0x300000, s') \<and> 512 \<in> used s'"
proof -
  let ?s = "pmm_init 0x100000 0x7EE0000 boot_memory"
  have e: "entries (mem_info boot_memory) = map_128M" by (simp add: boot_memory_def)
  note i = init_128M [OF e]
  have "600 \<notin> used ?s" by (simp add: i(4))
  then have "used ?s \<noteq> {..<unat (pmm_total_frames ?s)}" unfolding i(2) by force
  with pmm_alloc_frame_lowest [OF i(1)] obtain k s' where
    k: "pmm_alloc_frame ?s = (pmm_memory_base ?s + of_nat (4096 * k), s')"
      "k \<notin> used ?s" "{..<k} \<subseteq> used ?s" "used s' = insert k (used ?s)" by (auto split: if_splits)
  have "\<not> 512 < k" using k(3) i(4) [of 512] by (meson lessThan_iff less_irrefl subsetD)
  then have "k = 512" using k(2) by (simp add: i(4))
  then show ?thesis using k(1,4) by (simp add: i(3))
qed

text \<open>
  C12: \<open>pmm_alloc_frames\<close> returns 0 and changes nothing when there is no run of \<open>count\<close> free frames;
  otherwise it returns the lowest such run, and exactly its frames become used.
\<close>

theorem pmm_alloc_frames_lowest_run:
  assumes "pmm_ok s" and "count \<noteq> 0"
  shows "if \<forall>a. \<not> free_run s a (unat count) then pmm_alloc_frames count s = (0, s)
    else \<exists>a s'. pmm_alloc_frames count s = (pmm_memory_base s + of_nat (4096 * a), s') \<and>
      free_run s a (unat count) \<and> (\<forall>b < a. \<not> free_run s b (unat count)) \<and>
      used s' = used s \<union> {a..<a + unat count} \<and> pmm_ok s'"
  using assms
proof (cases rule: alloc_frames_cases)
  case full
  then show ?thesis by simp
next
  case (frames a s')
  then show ?thesis by auto
qed

theorem pmm_alloc_frames_lowest_run_witness:
  "\<exists>s'. pmm_alloc_frames 3 (pmm_init 0x100000 0x7EE0000 boot_memory) = (0x300000, s') \<and> 514 \<in> used s'"
proof -
  let ?s = "pmm_init 0x100000 0x7EE0000 boot_memory"
  have e: "entries (mem_info boot_memory) = map_128M" by (simp add: boot_memory_def)
  note i = init_128M [OF e]
  have fr: "free_run ?s a 3 \<longleftrightarrow> 512 \<le> a \<and> a + 3 \<le> 32480" for a
  proof -
    have "{a..<a + 3} \<inter> used ?s = {} \<longleftrightarrow> 512 \<le> a"
    proof
      assume d: "{a..<a + 3} \<inter> used ?s = {}"
      have "a \<in> {a..<a + 3}" by simp
      then have "a \<notin> used ?s" using d by blast
      then show "512 \<le> a" by (simp add: i(4))
    next
      assume "512 \<le> a"
      then show "{a..<a + 3} \<inter> used ?s = {}" using i(4) by fastforce
    qed
    then show ?thesis unfolding free_run_def i(2) by auto
  qed
  have three: "unat (3::u64) = 3" by simp
  have "\<not> (\<forall>a. \<not> free_run ?s a 3)" using fr [of 512] by auto
  with pmm_alloc_frames_lowest_run [OF i(1), of 3, unfolded three] obtain a s' where
    a: "pmm_alloc_frames 3 ?s = (pmm_memory_base ?s + of_nat (4096 * a), s')" "free_run ?s a 3"
      "\<forall>b < a. \<not> free_run ?s b 3" "used s' = used ?s \<union> {a..<a + 3}"
    by (auto split: if_splits)
  have "\<not> 512 < a" using a(3) fr [of 512] by auto
  then have "a = 512" using a(2) fr by simp
  then show ?thesis using a(1,4) by (simp add: i(3))
qed

text \<open>
  Releasing \<open>count\<close> frames at an address frees exactly the frames from the one that holds the
  address on; addresses outside the managed range change nothing. Frames that are free
  already stay free, and the counter of used frames stays exact.
\<close>

theorem pmm_free_frames_exact:
  assumes "pmm_ok s" and "unat count \<le> 9223372036854775808"
  shows "used (pmm_free_frames addr count s) =
      used s - (if managed s addr then {frame_of s addr..<frame_of s addr + unat count} else {}) \<and>
    pmm_ok (pmm_free_frames addr count s) \<and>
    used (pmm_free_frame addr s) = used s - (if managed s addr then {frame_of s addr} else {}) \<and>
    pmm_ok (pmm_free_frame addr s)"
proof -
  have "frame_of s addr + unat count \<le> 18446744073709551616"
    using frame_of_small [of s addr] assms(2) by linarith
  then show ?thesis using free_frames_spec [OF assms(1)] free_frame_spec [OF assms(1)] by blast
qed

theorem pmm_free_frames_exact_witness:
  "0 \<notin> used (pmm_free_frames 0x100000 2 (pmm_init 0x100000 0x7EE0000 boot_memory)) \<and>
   2 \<in> used (pmm_free_frames 0x100000 2 (pmm_init 0x100000 0x7EE0000 boot_memory))"
proof -
  let ?s = "pmm_init 0x100000 0x7EE0000 boot_memory"
  have e: "entries (mem_info boot_memory) = map_128M" by (simp add: boot_memory_def)
  note i = init_128M [OF e]
  have "pmm_memory_size ?s \<noteq> 0"
    using i(1,2) by (auto simp: pmm_ok_def PAGE_SIZE_def)
  then have m: "managed ?s 0x100000" "frame_of ?s 0x100000 = 0"
    by (simp_all add: managed_def frame_of_def i(3) unat_gt_0)
  have two: "unat (2::u64) = 2" by simp
  have "used (pmm_free_frames 0x100000 2 ?s) = used ?s - {0..<0 + 2}"
    using pmm_free_frames_exact [OF i(1), of 2 "0x100000"] unfolding two m(2) by (simp add: m(1))
  then show ?thesis by (simp add: i(4))
qed

text \<open>
  A frame that was just allocated can be given back: \<open>pmm_free_frame\<close> of the address
  restores the set of used frames and the counter.
\<close>

theorem pmm_alloc_free_roundtrip:
  assumes "pmm_ok s" and "pmm_alloc_frame s = (addr, s')" and "addr \<noteq> 0"
  shows "used (pmm_free_frame addr s') = used s \<and>
    pmm_used_frames (pmm_free_frame addr s') = pmm_used_frames s"
  using assms(1)
proof (cases rule: alloc_frame_cases)
  case full
  then show ?thesis using assms(2,3) by simp
next
  case (frame k t)
  have addr: "addr = pmm_memory_base s + of_nat (4096 * k)" and t: "s' = t" using assms(2) frame(1) by auto
  note f = pmm_frame_fields [OF frame(7)]
  have "4096 * k < unat (pmm_memory_size s)"
    using total_frames_bound [OF assms(1)] frame(2) by linarith
  then have k: "unat (pmm_memory_base s) + 4096 * k < 18446744073709551616"
    using assms(1) by (simp add: pmm_ok_def)
  then have "unat (of_nat (4096 * k) :: u64) = 4096 * k" by (intro unat_of_nat_u64) simp
  then have ua: "unat addr = unat (pmm_memory_base s) + 4096 * k"
    unfolding addr using k by (subst unat_add_u64) simp_all
  have "managed t addr" "frame_of t addr = k"
    using ua \<open>4096 * k < _\<close> by (simp_all add: managed_def frame_of_def f)
  then have us: "used (pmm_free_frame addr s') = used s" "pmm_ok (pmm_free_frame addr s')"
    using free_frame_spec [OF frame(6), of addr] frame(3,5) by (auto simp: t)
  then show ?thesis using assms(1) by (simp add: pmm_ok_def)
qed

theorem pmm_alloc_free_roundtrip_witness:
  "\<exists>addr s'. pmm_alloc_frame (pmm_init 0x100000 0x7EE0000 boot_memory) = (addr, s') \<and>
    (addr \<noteq> 0 \<longrightarrow> 512 \<notin> used (pmm_free_frame addr s'))"
proof -
  have "entries (mem_info boot_memory) = map_128M" by (simp add: boot_memory_def)
  note i = init_128M [OF this]
  show ?thesis
    using pmm_alloc_free_roundtrip [OF i(1)] i(4)
    by (cases "pmm_alloc_frame (pmm_init 0x100000 0x7EE0000 boot_memory)") auto
qed

section \<open>Accounting\<close>

lemma accounting:
  assumes "pmm_ok s"
  shows "unat (pmm_get_used_memory s) = 4096 * card (used s)"
    "unat (pmm_get_free_memory s) = 4096 * (unat (pmm_total_frames s) - card (used s))"
    "unat (pmm_get_total_memory s) = 4096 * unat (pmm_total_frames s)"
    "unat (st_usage_percent (pmm_get_stats s)) \<le> 100"
proof -
  have c: "card (used s) \<le> unat (pmm_total_frames s)" by (rule card_used_le)
  have T: "unat (pmm_total_frames s) < 4503599627370496" by (rule total_frames_small [OF assms])
  have u: "unat (pmm_used_frames s) = card (used s)"
    using assms unat_card_used [of s] by (simp add: pmm_ok_def)
  have fr: "unat (pmm_total_frames s - pmm_used_frames s) = unat (pmm_total_frames s) - card (used s)"
    using c u by (simp add: unat_diff_u64)
  have P: "unat PAGE_SIZE = 4096" by (simp add: PAGE_SIZE_def)
  have m: "unat (x * PAGE_SIZE) = 4096 * unat x" if "unat x < 4503599627370496" for x
    using that P by (subst unat_mult_u64) simp_all
  show "unat (pmm_get_used_memory s) = 4096 * card (used s)"
    unfolding pmm_get_used_memory_def using c T u by (subst m) simp_all
  show "unat (pmm_get_free_memory s) = 4096 * (unat (pmm_total_frames s) - card (used s))"
    unfolding pmm_get_free_memory_def using T fr by (subst m) simp_all
  show "unat (pmm_get_total_memory s) = 4096 * unat (pmm_total_frames s)"
    unfolding pmm_get_total_memory_def using T by (subst m) simp_all
  show "unat (st_usage_percent (pmm_get_stats s)) \<le> 100"
  proof (cases "pmm_total_frames s = 0")
    case True
    then show ?thesis by (simp add: pmm_get_stats_def Let_def)
  next
    case False
    let ?q = "pmm_used_frames s * 100 div pmm_total_frames s"
    have T0: "0 < unat (pmm_total_frames s)" using False by (simp add: unat_gt_0)
    have "unat (pmm_used_frames s * 100) = card (used s) * 100"
      using u c T by (subst unat_mult_u64) simp_all
    then have "unat ?q = card (used s) * 100 div unat (pmm_total_frames s)" by (simp add: unat_div)
    also have "\<dots> \<le> unat (pmm_total_frames s) * 100 div unat (pmm_total_frames s)"
      using c by (intro div_le_mono) simp
    also have "\<dots> = 100" using T0 by simp
    finally have q: "unat ?q \<le> 100" .
    have "unat (ucast ?q :: u32) = unat ?q"
      using q by (simp add: unsigned_ucast_eq take_bit_eq_mod)
    then show ?thesis using q False by (simp add: pmm_get_stats_def Let_def word_gt_0)
  qed
qed

text \<open>
  C21: Whatever the calls, also with wrong addresses and double releases, the counters stay
  exact: used and free bytes are those of the frames marked in the bitmap and add up to the
  total, and the percentage stays within 100.
\<close>

theorem pmm_accounting:
  assumes "pmm_ok s0" and "pmm_reach s0 s"
  shows "unat (pmm_get_used_memory s) = 4096 * card (used s) \<and>
    unat (pmm_get_used_memory s) + unat (pmm_get_free_memory s) = unat (pmm_get_total_memory s) \<and>
    unat (pmm_get_total_memory s) = unat (pmm_get_total_memory s0) \<and>
    unat (st_usage_percent (pmm_get_stats s)) \<le> 100"
proof -
  have ok: "pmm_ok s" "pmm_frame s0 s" using pmm_reach_inv [OF assms(2,1)] by auto
  show ?thesis
    using accounting [OF ok(1)] accounting(3) [OF assms(1)] pmm_frame_fields(1) [OF ok(2)] card_used_le [of s]
    by simp
qed

theorem pmm_accounting_witness:
  "\<exists>s. s = pmm_free_frame 0x100000 (snd (pmm_alloc_frame (pmm_init 0x100000 0x7EE0000 boot_memory))) \<and>
    unat (pmm_get_used_memory s) = 4096 * card (used s)"
proof -
  have "entries (mem_info boot_memory) = map_128M" by (simp add: boot_memory_def)
  note i = init_128M [OF this]
  show ?thesis
    using pmm_accounting [OF i(1) pmm_reach.release [OF pmm_reach.alloc [OF pmm_reach.start]]] by blast
qed

text \<open>
  The manager never writes outside its bitmap: every other byte of RAM, the memory map and
  the geometry keep their values through any sequence of calls.
\<close>

theorem pmm_writes_bitmap_only:
  assumes "pmm_ok s0" and "pmm_reach s0 s"
    and "4 * ((unat (pmm_total_frames s0) + 31) div 32) \<le> unat (x - pmm_bitmap s0)"
  shows "ram s x = ram s0 x \<and> mem_info s = mem_info s0 \<and> pmm_bitmap s = pmm_bitmap s0 \<and>
    pmm_total_frames s = pmm_total_frames s0 \<and> pmm_memory_base s = pmm_memory_base s0"
  using pmm_reach_inv [OF assms(2,1)] assms(3) by (simp add: pmm_frame_def)

theorem pmm_writes_bitmap_only_witness:
  "\<exists>(s :: memory) s0. pmm_bitmap s0 = 0x201000 \<and> s = snd (pmm_alloc_frame s0) \<and> ram s 0x300000 = ram s0 0x300000"
proof -
  let ?s0 = "pmm_init 0x100000 0x7EE0000 boot_memory"
  have e: "entries (mem_info boot_memory) = map_128M" by (simp add: boot_memory_def)
  note i = init_128M [OF e]
  have b: "pmm_bitmap ?s0 = 0x201000" using init_128M_bitmap [OF e] .
  have "4 * ((unat (pmm_total_frames ?s0) + 31) div 32) \<le> unat (0x300000 - pmm_bitmap ?s0)"
    by (simp add: i(2) b)
  from pmm_writes_bitmap_only [OF i(1) pmm_reach.alloc [OF pmm_reach.start] this] b show ?thesis by blast
qed

section \<open>Initialisation\<close>



section \<open>Where the bitmap goes\<close>

text \<open>The usable bytes of a region: those at or above 2 MiB.\<close>

definition usable :: "memory_map_entry \<Rightarrow> nat" where
  "usable e = unat (base_addr e) + unat (entry_length e) - max 0x200000 (unat (base_addr e))"

definition has_room :: "u64 \<Rightarrow> memory_map_entry \<Rightarrow> bool" where
  "has_room sz e \<longleftrightarrow> entry_type e = MULTIBOOT_MEMORY_AVAILABLE \<and> unat sz + 8192 \<le> usable e"

text \<open>One step of the search, on naturals.\<close>

lemma find_location_step:
  assumes "unat sz + 8192 < 18446744073709551616"
  shows "find_location sz (e # es) =
    (if has_room sz e then of_nat (max 0x200000 (unat (base_addr e)) + 4096) else find_location sz es)"
proof -
  have P: "unat (sz + 2 * PAGE_SIZE) = unat sz + 8192"
    using assms by (simp add: PAGE_SIZE_def) (subst unat_add_u64, simp_all)
  show ?thesis
  proof (cases "base_addr e < 0x200000")
    case True
    then have b: "unat (base_addr e) < 0x200000" by (simp add: word_less_nat_alt)
    have d: "unat (0x200000 - base_addr e) = 0x200000 - unat (base_addr e)"
      using b by (simp add: unat_diff_u64)
    have l: "unat (entry_length e - (0x200000 - base_addr e)) = unat (entry_length e) - (0x200000 - unat (base_addr e))"
      if "0x200000 - base_addr e < entry_length e"
      using that d by (simp add: unat_diff_u64 word_less_nat_alt)
    show ?thesis
      using True b d l P
      by (auto simp: Let_def has_room_def usable_def word_less_nat_alt word_le_nat_alt PAGE_SIZE_def)
  next
    case False
    then have "0x200000 \<le> unat (base_addr e)" by (simp add: word_less_nat_alt)
    then show ?thesis
      using False P
      by (auto simp: Let_def has_room_def usable_def word_le_nat_alt PAGE_SIZE_def max_def)
  qed
qed

text \<open>
  The bitmap goes into an available region with room for it, one page above the start of
  the region or above 2 MiB, and ends at least one page before the region's end; when no
  region has room it is put at 2 MiB all the same.
\<close>

theorem bitmap_location_in_region:
  assumes "unat sz + 8192 < 2 ^ 64"
    and "\<forall>e \<in> set (entries (mem_info s)). unat (base_addr e) + unat (entry_length e) \<le> 2 ^ 64"
  shows "if \<exists>e \<in> set (entries (mem_info s)). has_room sz e
    then \<exists>e \<in> set (entries (mem_info s)). has_room sz e \<and>
      unat (find_bitmap_location sz s) = max 0x200000 (unat (base_addr e)) + 4096 \<and>
      unat (find_bitmap_location sz s) + unat sz + 4096 \<le> unat (base_addr e) + unat (entry_length e)
    else find_bitmap_location sz s = 0x200000"
proof -
  have sz: "unat sz + 8192 < 18446744073709551616" using assms(1) by simp
  have "if \<exists>e \<in> set es. has_room sz e
    then \<exists>e \<in> set es. has_room sz e \<and>
      unat (find_location sz es) = max 0x200000 (unat (base_addr e)) + 4096 \<and>
      unat (find_location sz es) + unat sz + 4096 \<le> unat (base_addr e) + unat (entry_length e)
    else find_location sz es = 0x200000"
    if "\<forall>e \<in> set es. unat (base_addr e) + unat (entry_length e) \<le> 18446744073709551616" for es
    using that
  proof (induction es)
    case Nil
    then show ?case by simp
  next
    case (Cons e es)
    show ?case
    proof (cases "has_room sz e")
      case True
      let ?a = "max 0x200000 (unat (base_addr e)) + 4096"
      have b: "?a + unat sz + 4096 \<le> unat (base_addr e) + unat (entry_length e)"
        using True unfolding has_room_def usable_def by linarith
      moreover have "unat (of_nat ?a :: u64) = ?a"
      proof (rule unat_of_nat_u64)
        have "unat (base_addr e) + unat (entry_length e) \<le> 18446744073709551616"
          using Cons.prems by simp
        then show "?a < 18446744073709551616" using b by linarith
      qed
      ultimately show ?thesis
        using True by (auto simp add: find_location_step [OF sz] simp del: of_nat_add find_location.simps)
    next
      case False
      then have f: "find_location sz (e # es) = find_location sz es"
        by (simp add: find_location_step [OF sz] del: find_location.simps)
      show ?thesis unfolding f using Cons False by auto
    qed
  qed
  then show ?thesis using assms(2) by (simp add: find_bitmap_location_def memory_get_info_def)
qed

theorem bitmap_location_in_region_witness:
  "\<exists>e \<in> set map_128M. has_room 4060 e \<and> unat (find_bitmap_location 4060 boot_memory) + 4060 + 4096
    \<le> unat (base_addr e) + unat (entry_length e)"
proof -
  have "has_room 4060 \<lparr>base_addr = 0x100000, entry_length = 0x7EE0000, entry_type = 1\<rparr>"
    by (simp add: has_room_def usable_def MULTIBOOT_MEMORY_AVAILABLE_def)
  then have "\<exists>e \<in> set (entries (mem_info boot_memory)). has_room 4060 e"
    by (simp add: boot_memory_def map_128M_def)
  then show ?thesis
    using bitmap_location_in_region [of 4060 boot_memory] by (auto simp: boot_memory_def map_128M_def)
qed

end
