(* ===== verification/Cstring_Claims.thy ===== *)
theory Cstring_Claims
  imports Cstring "HOL-Library.List_Lexorder"
begin

text \<open>What the functions of \<open>string.c\<close> guarantee, on byte lists and for overlapping ranges.\<close>

text \<open>A memory with the string \<open>xs\<close> at \<open>p\<close>, to instantiate the properties on.\<close>

definition with_string :: "u64 \<Rightarrow> u8 list \<Rightarrow> mem \<Rightarrow> mem" where
  "with_string p xs m = (\<lambda>x. if unat (x - p) < length xs then xs ! unat (x - p)
     else if unat (x - p) = length xs then 0 else m x)"

lemma cstr_with_string:
  assumes "0 \<notin> set xs" and "length xs < 18446744073709551616"
  shows "cstr (with_string p xs m) p xs"
  by (rule cstr_intro) (use assms in \<open>auto simp: with_string_def unat_of_nat_u64\<close>)

lemma cstr_with_string_apart:
  assumes "cstr m q ys" and "apart p (Suc (length xs)) q (Suc (length ys))"
  shows "cstr (with_string p xs m) q ys"
proof (rule cstr_intro)
  have l: "length ys < 18446744073709551616" by (rule cstr_length [OF assms(1)])
  have same: "with_string p xs m (q + of_nat i) = m (q + of_nat i)" if "i < Suc (length ys)" for i
    using apart_outside [OF assms(2) that] l by (auto simp: with_string_def)
  show "with_string p xs m (q + of_nat i) = ys ! i" if "i < length ys" for i
    using same [of i] cstr_nth [OF assms(1) that] that by simp
  show "with_string p xs m (q + of_nat (length ys)) = 0"
    using same [of "length ys"] cstr_end [OF assms(1)] by simp
  show "0 \<notin> set ys" by (rule cstr_no_nul [OF assms(1)])
qed

text \<open>
  C30: \<open>memmove\<close> copies all \<open>n\<close> bytes as they were before the call, for every overlap of the two
  ranges, as long as neither range passes the end of the address space.
\<close>

theorem memmove_exact:
  assumes "unat src + unat n \<le> 2 ^ 64" and "unat dest + unat n \<le> 2 ^ 64"
  shows "memmove m dest src n = copy_ref m dest src (unat n)"
proof (cases "dest < src")
  case True
  then have "unat dest \<le> unat src" by (simp add: word_less_nat_alt)
  with True show ?thesis
    using memcpy_upto [of dest src n m] assms(1) by (simp add: memmove_def memcpy_def)
next
  case False
  then have "unat src \<le> unat dest" by (simp add: word_less_nat_alt)
  with False show ?thesis using backward_copy [of src dest n m] assms(2) by (simp add: memmove_def)
qed

theorem memmove_exact_witness:
  "memmove (\<lambda>x. ucast x) 0x1002 0x1000 8 0x1005 = 3"
proof -
  have "memmove (\<lambda>x. ucast x :: u8) 0x1002 0x1000 8 = copy_ref (\<lambda>x. ucast x) 0x1002 0x1000 8"
    using memmove_exact [of "0x1000" 8 "0x1002" "\<lambda>x. ucast x"] by simp
  then show ?thesis by (simp add: copy_ref_def)
qed

text \<open>The sign of the difference that \<open>cmp_bytes\<close> returns.\<close>

lemma cmp_bytes_less:
  "0 \<notin> set xs \<Longrightarrow> 0 \<notin> set ys \<Longrightarrow> cmp_bytes xs ys < 0 \<longleftrightarrow> xs < ys"
proof (induction xs ys rule: cmp_bytes.induct)
  case (1 x xs y ys)
  then show ?case by (auto simp: word_less_def)
next
  case (2 y ys)
  then have "uint y \<noteq> 0" by (simp add: uint_0_iff)
  then have "0 < uint y" by (simp add: order_less_le)
  then show ?case by simp
next
  case (3 x xs)
  then show ?case by simp
qed simp

text \<open>
  On two strings, \<open>strcmp\<close> returns; its result is negative, zero or positive as the first
  string is lexicographically before, equal to or after the second, comparing unsigned bytes.
\<close>

theorem strcmp_orders:
  assumes "cstr m p xs" and "cstr m q ys"
  shows "\<exists>r. strcmp m p q = Some r \<and> (r < 0 \<longleftrightarrow> xs < ys) \<and> (r = 0 \<longleftrightarrow> xs = ys) \<and> (0 < r \<longleftrightarrow> ys < xs)"
proof -
  note nn = cstr_no_nul [OF assms(1)] cstr_no_nul [OF assms(2)]
  have z: "cmp_bytes xs ys = 0 \<longleftrightarrow> xs = ys" by (rule cmp_bytes_eq_0 [OF nn])
  have l: "cmp_bytes xs ys < 0 \<longleftrightarrow> xs < ys" by (rule cmp_bytes_less [OF nn])
  have "0 < cmp_bytes xs ys \<longleftrightarrow> ys < xs" using z l by (metis linorder_less_linear order_less_asym less_irrefl)
  with z l show ?thesis using strcmp_cstr [OF assms] by blast
qed

theorem strcmp_orders_witness:
  "\<exists>m r. strcmp m 0x1000 0x2000 = Some r \<and> r < 0 \<and> cstr m 0x1000 [0x61, 0x62] \<and> cstr m 0x2000 [0x61, 0x63]"
proof -
  let ?m = "with_string 0x1000 [0x61, 0x62] (with_string 0x2000 [0x61, 0x63] (\<lambda>_. 0))"
  have b: "cstr (with_string 0x2000 [0x61, 0x63] (\<lambda>_. 0)) 0x2000 [0x61, 0x63]" by (rule cstr_with_string) simp_all
  have q: "cstr ?m 0x2000 [0x61, 0x63]" by (rule cstr_with_string_apart [OF b]) (simp add: apart_def)
  have p: "cstr ?m 0x1000 [0x61, 0x62]" by (rule cstr_with_string) simp_all
  from strcmp_orders [OF p q] p q show ?thesis by auto
qed

text \<open>
  \<open>strcat\<close> of two strings returns and leaves their concatenation at \<open>dest\<close>; the source and
  every byte outside the bytes it appends are unchanged. The appended bytes, NUL included, must
  not overlap the source.
\<close>

theorem strcat_appends:
  assumes "cstr m d xs" and "cstr m s ys"
    and "apart (d + of_nat (length xs)) (Suc (length ys)) s (Suc (length ys))"
    and "length xs + length ys < 2 ^ 64"
  shows "\<exists>m'. strcat m d s = Some m' \<and> cstr m' d (xs @ ys) \<and> cstr m' s ys \<and>
    (\<forall>x. Suc (length ys) \<le> unat (x - (d + of_nat (length xs))) \<longrightarrow> m' x = m x)"
proof -
  let ?e = "d + of_nat (length xs)"
  let ?m = "copy_ref m ?e s (Suc (length ys))"
  note nn = cstr_no_nul [OF assms(1)] cstr_no_nul [OF assms(2)]
  have run: "strcat m d s = Some ?m"
    using skip_to_nul_cstr [OF assms(1)] strcpy_cstr [OF assms(2,3)] by (simp add: strcat_def)
  have tail: "cstr ?m ?e ys" by (rule cstr_copy_ref [OF assms(2)])
  have out: "?m x = m x" if "Suc (length ys) \<le> unat (x - ?e)" for x by (rule copy_ref_outside [OF that])
  have "cstr ?m d (xs @ ys)"
  proof (rule cstr_intro)
    fix i assume i: "i < length (xs @ ys)"
    show "?m (d + of_nat i) = (xs @ ys) ! i"
    proof (cases "i < length xs")
      case True
      have "unat (d + of_nat i - ?e) = 18446744073709551616 + i - length xs"
      proof -
        have "unat (of_nat i :: u64) = i" "unat (of_nat (length xs) :: u64) = length xs"
          using i assms(4) by (auto intro!: unat_of_nat_u64)
        then show ?thesis using True unat_diff_u64 [of "of_nat i" "of_nat (length xs)"] by simp
      qed
      then have "?m (d + of_nat i) = m (d + of_nat i)" using True assms(4) by (intro out) simp
      then show ?thesis using cstr_nth [OF assms(1) True] True by (simp add: nth_append)
    next
      case False
      then have "d + of_nat i = ?e + of_nat (i - length xs)" by (simp add: of_nat_diff)
      then show ?thesis
        using False cstr_nth [OF tail, of "i - length xs"] i by (simp add: nth_append)
    qed
  next
    show "0 \<notin> set (xs @ ys)" using nn by simp
    show "?m (d + of_nat (length (xs @ ys))) = 0" using cstr_end [OF tail] by (simp add: add.assoc)
  qed
  moreover have "cstr ?m s ys"
  proof (rule cstr_intro)
    have l: "Suc (length ys) \<le> 18446744073709551616" using cstr_length [OF assms(2)] by simp
    have same: "?m (s + of_nat i) = m (s + of_nat i)" if "i < Suc (length ys)" for i
      by (rule out [OF apart_outside [OF assms(3) that l]])
    show "?m (s + of_nat i) = ys ! i" if "i < length ys" for i
      using same [of i] cstr_nth [OF assms(2) that] that by simp
    show "?m (s + of_nat (length ys)) = 0" using same [of "length ys"] cstr_end [OF assms(2)] by simp
    show "0 \<notin> set ys" by (rule nn)
  qed
  ultimately show ?thesis using run out by blast
qed

theorem strcat_appends_witness:
  "\<exists>m m'. strcat m 0x1000 0x2000 = Some m' \<and> cstr m' 0x1000 [0x61, 0x62, 0x61, 0x63]"
proof -
  let ?m = "with_string 0x1000 [0x61, 0x62] (with_string 0x2000 [0x61, 0x63] (\<lambda>_. 0))"
  have b: "cstr (with_string 0x2000 [0x61, 0x63] (\<lambda>_. 0)) 0x2000 [0x61, 0x63]" by (rule cstr_with_string) simp_all
  have q: "cstr ?m 0x2000 [0x61, 0x63]" by (rule cstr_with_string_apart [OF b]) (simp add: apart_def)
  have p: "cstr ?m 0x1000 [0x61, 0x62]" by (rule cstr_with_string) simp_all
  have "apart (0x1000 + of_nat (length [0x61, 0x62 :: u8])) (Suc (length [0x61, 0x63 :: u8])) 0x2000
      (Suc (length [0x61, 0x63 :: u8]))" by (simp add: apart_def)
  from strcat_appends [OF p q this] show ?thesis by auto
qed

text \<open>
  \<open>strncpy\<close> writes exactly \<open>n\<close> bytes: the string cut at \<open>n\<close> and zeros after it. A string of
  \<open>n\<close> bytes or more is therefore left without a NUL.
\<close>

theorem strncpy_pads:
  assumes "cstr m s xs" and "apart d (unat n) s (Suc (length xs))"
  shows "bytes (strncpy m d s n) d (unat n) =
      take (unat n) xs @ replicate (unat n - length xs) 0 \<and>
    (\<forall>x. unat n \<le> unat (x - d) \<longrightarrow> strncpy m d s n x = m x)"
proof -
  note e = strncpy_cstr [OF assms]
  have u: "unat (of_nat i :: u64) = i" if "i < unat n" for i
    using that unat_lt_u64 [of n] by (intro unat_of_nat_u64) linarith
  have "bytes (strncpy m d s n) d (unat n) =
      take (unat n) xs @ replicate (unat n - length xs) 0"
    by (rule nth_equalityI) (auto simp: bytes_def e u nth_append)
  then show ?thesis by (simp add: e)
qed

theorem strncpy_pads_witness:
  "bytes (strncpy (with_string 0x2000 [0x61, 0x63] (\<lambda>_. 7)) 0x1000 0x2000 4) 0x1000 4 = [0x61, 0x63, 0, 0]"
proof -
  have b: "cstr (with_string 0x2000 [0x61, 0x63] (\<lambda>_. 7)) 0x2000 [0x61, 0x63]" by (rule cstr_with_string) simp_all
  have "apart 0x1000 (unat (4::u64)) 0x2000 (Suc (length [0x61, 0x63 :: u8]))" by (simp add: apart_def)
  moreover have "unat (4 :: u64) = 4" by simp
  ultimately show ?thesis using strncpy_pads [OF b, of "0x1000" 4] by (simp add: numeral_2_eq_2)
qed

end
