(* ===== verification/Terminal_Props.thy ===== *)
theory Terminal_Props
  imports Terminal
begin

text \<open>
  The terminal against a screen of 25 rows of 80 cells: the abstract screen is a list of rows
  with a cursor, and the operations on the cell array refine the operations on it. All writes
  stay inside the 2000 cells.
\<close>

section \<open>Cells by number\<close>

lemma cell_index: "y < 25 \<Longrightarrow> x < 80 \<Longrightarrow> unat (of_nat y * VGA_WIDTH + of_nat x) = 80 * y + x"
  by (simp add: VGA_WIDTH_def unat_word_ariths unat_of_nat_u64)

lemma unat_of_small [simp]: "n \<le> 2000 \<Longrightarrow> unat (of_nat n :: u64) = n"
  by (rule unat_of_nat_u64) simp

text \<open>The contents after writing one cell, by the number of the cell.\<close>

definition cells :: "terminal \<Rightarrow> nat \<Rightarrow> u16" where
  "cells t n = terminal_buffer t (of_nat n)"

lemma cells_fields [simp]:
  "cells (t\<lparr>terminal_row := a\<rparr>) = cells t" "cells (t\<lparr>terminal_column := a\<rparr>) = cells t"
  "cells (t\<lparr>terminal_color := b\<rparr>) = cells t"
  by (simp_all add: cells_def fun_eq_iff)

definition with_buffer :: "(nat \<Rightarrow> u16) \<Rightarrow> terminal \<Rightarrow> terminal" where
  "with_buffer b t = t\<lparr>terminal_buffer := \<lambda>i. b (unat i)\<rparr>"

lemma with_buffer_simps [simp]:
  "terminal_row (with_buffer b t) = terminal_row t" "terminal_column (with_buffer b t) = terminal_column t"
  "terminal_color (with_buffer b t) = terminal_color t" "terminal_buffer (with_buffer b t) i = b (unat i)"
  "with_buffer b (with_buffer c t) = with_buffer b t"
  by (simp_all add: with_buffer_def)

lemma with_buffer_same: "with_buffer (\<lambda>n. terminal_buffer t (of_nat n)) t = t"
  by (simp add: with_buffer_def)

lemma put_cell_buffer: "put_cell i e (with_buffer b t) = with_buffer (b(unat i := e)) t"
  by (auto simp: put_cell_def with_buffer_def fun_eq_iff word_unat_eq_iff intro!: terminal.equality)

section \<open>Clearing and scrolling\<close>

lemma terminal_initialize_screen:
  "terminal_initialize t = with_buffer (\<lambda>n. if n < 2000 then vga_entry blank 7 else cells t n)
    (t\<lparr>terminal_row := 0, terminal_column := 0, terminal_color := 7\<rparr>)"
proof -
  let ?t = "t\<lparr>terminal_row := 0, terminal_column := 0, terminal_color := 7\<rparr>"
  let ?R = "\<lambda>n. with_buffer (\<lambda>i. if i < n then vga_entry blank 7 else cells t i) ?t"
  have color: "vga_entry_color VGA_COLOR_LIGHT_GREY VGA_COLOR_BLACK = 7" by (simp add: vga_entry_color_def)
  have row: "for_u64 0 VGA_WIDTH (\<lambda>x t. put_cell (of_nat y * VGA_WIDTH + x) (vga_entry blank (terminal_color t)) t) (?R (80 * y)) = ?R (80 * y + 80)"
    if "y < 25" for y
  proof -
    have "for_u64 0 VGA_WIDTH (\<lambda>x t. put_cell (of_nat y * VGA_WIDTH + x) (vga_entry blank (terminal_color t)) t)
        (?R (80 * y + unat (0 :: u64))) = ?R (80 * y + unat VGA_WIDTH)"
    proof (rule for_u64_states [where R = "\<lambda>x. ?R (80 * y + x)"])
      fix x assume "x < unat VGA_WIDTH"
      then show "put_cell (of_nat y * VGA_WIDTH + of_nat x) (vga_entry blank (terminal_color (?R (80 * y + x)))) (?R (80 * y + x)) = ?R (80 * y + Suc x)"
        using cell_index [OF that, of x]
        by (simp add: put_cell_buffer VGA_WIDTH_def) (intro arg_cong [where f = "\<lambda>b. with_buffer b _"] ext, simp)
    qed simp
    then show ?thesis by (simp add: VGA_WIDTH_def)
  qed
  have "for_u64 0 VGA_HEIGHT (\<lambda>y. for_u64 0 VGA_WIDTH (\<lambda>x t. put_cell (y * VGA_WIDTH + x) (vga_entry blank (terminal_color t)) t))
      (?R (80 * unat (0 :: u64))) = ?R (80 * unat VGA_HEIGHT)"
    by (rule for_u64_states [where R = "\<lambda>y. ?R (80 * y)"]) (simp_all add: row VGA_HEIGHT_def add.commute [of _ "80 :: nat"])
  moreover have "?R (80 * unat (0 :: u64)) = ?t" by (simp add: cells_def with_buffer_def)
  ultimately show ?thesis
    unfolding terminal_initialize_def Let_def color by (simp add: VGA_HEIGHT_def)
qed

lemma terminal_scroll_screen:
  "terminal_scroll t = with_buffer (\<lambda>n. if n < 1920 then cells t (n + 80)
      else if n < 2000 then vga_entry blank (terminal_color t) else cells t n) (t\<lparr>terminal_row := 24\<rparr>)"
proof -
  let ?R = "\<lambda>n. with_buffer (\<lambda>i. if i < n then cells t (i + 80) else cells t i) t"
  let ?S = "\<lambda>n. with_buffer (\<lambda>i. if i < 1920 then cells t (i + 80)
      else if i < 1920 + n then vga_entry blank (terminal_color t) else cells t i) t"
  have row: "for_u64 0 VGA_WIDTH (\<lambda>x t. put_cell (of_nat y * VGA_WIDTH + x)
      (terminal_buffer t ((of_nat y + 1) * VGA_WIDTH + x)) t) (?R (80 * y)) = ?R (80 * y + 80)"
    if "y < 24" for y
  proof -
    have "for_u64 0 VGA_WIDTH (\<lambda>x t. put_cell (of_nat y * VGA_WIDTH + x)
        (terminal_buffer t ((of_nat y + 1) * VGA_WIDTH + x)) t) (?R (80 * y + unat (0 :: u64))) = ?R (80 * y + unat VGA_WIDTH)"
    proof (rule for_u64_states [where R = "\<lambda>x. ?R (80 * y + x)"])
      fix x assume "x < unat VGA_WIDTH"
      then have x: "x < 80" by (simp add: VGA_WIDTH_def)
      have i: "unat (of_nat y * VGA_WIDTH + of_nat x) = 80 * y + x" using that x by (intro cell_index) simp_all
      have "unat (of_nat (Suc y) * VGA_WIDTH + of_nat x) = 80 * Suc y + x" using that x by (intro cell_index) simp_all
      then have j: "unat ((of_nat y + 1) * VGA_WIDTH + of_nat x) = 80 * y + 80 + x" by (simp add: add.commute)
      show "put_cell (of_nat y * VGA_WIDTH + of_nat x)
          (terminal_buffer (?R (80 * y + x)) ((of_nat y + 1) * VGA_WIDTH + of_nat x)) (?R (80 * y + x)) = ?R (80 * y + Suc x)"
        unfolding put_cell_buffer i with_buffer_simps j
        using x by (intro arg_cong [where f = "\<lambda>b. with_buffer b _"] ext) (simp add: add_ac)
    qed simp
    then show ?thesis by (simp add: VGA_WIDTH_def)
  qed
  have last: "for_u64 0 VGA_WIDTH (\<lambda>x t. put_cell ((VGA_HEIGHT - 1) * VGA_WIDTH + x) (vga_entry blank (terminal_color t)) t)
      (?S (unat (0 :: u64))) = ?S (unat VGA_WIDTH)"
  proof (rule for_u64_states [where R = ?S])
    fix x assume "x < unat VGA_WIDTH"
    then have x: "x < 80" by (simp add: VGA_WIDTH_def)
    have "unat (of_nat 24 * VGA_WIDTH + of_nat x) = 80 * 24 + x" using x by (intro cell_index) simp_all
    then have i: "unat ((VGA_HEIGHT - 1) * VGA_WIDTH + of_nat x) = 1920 + x" by (simp add: VGA_HEIGHT_def)
    show "put_cell ((VGA_HEIGHT - 1) * VGA_WIDTH + of_nat x) (vga_entry blank (terminal_color (?S x))) (?S x) = ?S (Suc x)"
      unfolding put_cell_buffer i with_buffer_simps
      by (intro arg_cong [where f = "\<lambda>b. with_buffer b _"] ext) simp
  qed simp
  have "for_u64 0 (VGA_HEIGHT - 1) (\<lambda>y. for_u64 0 VGA_WIDTH (\<lambda>x t. put_cell (y * VGA_WIDTH + x)
      (terminal_buffer t ((y + 1) * VGA_WIDTH + x)) t)) (?R (80 * unat (0 :: u64))) = ?R (80 * unat (VGA_HEIGHT - 1))"
    by (rule for_u64_states [where R = "\<lambda>y. ?R (80 * y)"]) (simp_all add: row VGA_HEIGHT_def add.commute [of _ "80 :: nat"])
  moreover have "?R (80 * unat (0 :: u64)) = t" by (simp add: cells_def with_buffer_def)
  moreover have "?R (80 * unat (VGA_HEIGHT - 1)) = ?S (unat (0 :: u64))"
    by (simp add: VGA_HEIGHT_def) (intro arg_cong [where f = "\<lambda>b. with_buffer b _"] ext, simp)
  ultimately show ?thesis
    unfolding terminal_scroll_def Let_def using last
    by (simp add: VGA_HEIGHT_def VGA_WIDTH_def with_buffer_def cong: if_cong)
qed

section \<open>The abstract screen\<close>

record screen =
  rows :: "u16 list list"
  cur_row :: nat
  cur_col :: nat
  attr :: u8

definition line_feed :: "screen \<Rightarrow> screen" where
  "line_feed s =
    (if cur_row s = 24
     then s\<lparr>rows := tl (rows s) @ [replicate 80 (vga_entry blank (attr s))], cur_col := 0\<rparr>
     else s\<lparr>cur_row := cur_row s + 1, cur_col := 0\<rparr>)"

definition set_at :: "u8 \<Rightarrow> screen \<Rightarrow> screen" where
  "set_at c s = s\<lparr>rows := (rows s)[cur_row s := (rows s ! cur_row s)[cur_col s := vga_entry c (attr s)]]\<rparr>"

definition put_char :: "u8 \<Rightarrow> screen \<Rightarrow> screen" where
  "put_char c s =
    (if c = newline then line_feed s
     else if c = backspace then (if cur_col s = 0 then s else set_at blank (s\<lparr>cur_col := cur_col s - 1\<rparr>))
     else if cur_col s = 79 then line_feed (set_at c s)
     else set_at c s\<lparr>cur_col := cur_col s + 1\<rparr>)"

definition rows_of :: "(nat \<Rightarrow> u16) \<Rightarrow> u16 list list" where
  "rows_of b = map (\<lambda>y. map (\<lambda>x. b (80 * y + x)) [0..<80]) [0..<25]"

definition screen_of :: "terminal \<Rightarrow> screen" where
  "screen_of t = \<lparr>rows = rows_of (cells t), cur_row = unat (terminal_row t),
    cur_col = unat (terminal_column t), attr = terminal_color t\<rparr>"

definition term_ok :: "terminal \<Rightarrow> bool" where
  "term_ok t \<longleftrightarrow> terminal_row t < VGA_HEIGHT \<and> terminal_column t < VGA_WIDTH"

text \<open>Two terminals that agree outside of the screen.\<close>

definition same_outside :: "terminal \<Rightarrow> terminal \<Rightarrow> bool" where
  "same_outside t t' \<longleftrightarrow> (\<forall>i. 2000 \<le> unat i \<longrightarrow> terminal_buffer t' i = terminal_buffer t i)"

lemma term_ok_nat: "term_ok t \<longleftrightarrow> unat (terminal_row t) < 25 \<and> unat (terminal_column t) < 80"
  by (simp add: term_ok_def vga_size word_less_nat_alt)

lemma same_outside_trans: "same_outside t t' \<Longrightarrow> same_outside t' t'' \<Longrightarrow> same_outside t t''"
  by (simp add: same_outside_def)

lemma rows_of_shape [simp]: "length (rows_of b) = 25" "y < 25 \<Longrightarrow> length (rows_of b ! y) = 80"
    "y < 25 \<Longrightarrow> x < 80 \<Longrightarrow> rows_of b ! y ! x = b (80 * y + x)"
  by (simp_all add: rows_of_def)

lemma rows_eqI:
  assumes "length r = 25" and "\<And>y. y < 25 \<Longrightarrow> length (r ! y) = 80"
    and "\<And>y x. y < 25 \<Longrightarrow> x < 80 \<Longrightarrow> b (80 * y + x) = r ! y ! x"
  shows "rows_of b = r"
proof (rule nth_equalityI)
  fix y assume "y < length (rows_of b)"
  then have y: "y < 25" by simp
  show "rows_of b ! y = r ! y"
    by (rule nth_equalityI) (use y assms(2,3) in simp_all)
qed (simp add: assms(1))

lemma rows_of_upd:
  assumes "y < 25" and "x < 80"
  shows "rows_of (b(80 * y + x := e)) = (rows_of b)[y := (rows_of b ! y)[x := e]]"
proof (rule rows_eqI)
  fix y' x' :: nat assume lt: "y' < 25" "x' < 80"
  have "(80 * y' + x') div 80 = y'" "(80 * y + x) div 80 = y" using lt assms by simp_all
  then have eq: "80 * y' + x' = 80 * y + x \<longleftrightarrow> y' = y \<and> x' = x" by (metis add_left_cancel)
  have "(rows_of b)[y := (rows_of b ! y)[x := e]] ! y' ! x' = (if y' = y \<and> x' = x then e else rows_of b ! y' ! x')"
    using lt assms by (cases "y' = y"; cases "x' = x") simp_all
  then show "(b(80 * y + x := e)) (80 * y' + x') = (rows_of b)[y := (rows_of b ! y)[x := e]] ! y' ! x'"
    using lt by (simp add: eq)
next
  fix y' :: nat assume "y' < 25"
  then show "length ((rows_of b)[y := (rows_of b ! y)[x := e]] ! y') = 80"
    using assms by (cases "y' = y") simp_all
qed simp

lemma rows_of_scroll:
  "rows_of (\<lambda>n. if n < 1920 then b (n + 80) else if n < 2000 then e else b n) = tl (rows_of b) @ [replicate 80 e]"
proof (rule rows_eqI)
  fix y x :: nat assume lt: "y < 25" "x < 80"
  show "(if 80 * y + x < 1920 then b (80 * y + x + 80) else if 80 * y + x < 2000 then e else b (80 * y + x)) =
      (tl (rows_of b) @ [replicate 80 e]) ! y ! x"
  proof (cases "y < 24")
    case True
    then have "(tl (rows_of b) @ [replicate 80 e]) ! y = rows_of b ! Suc y" by (simp add: nth_append nth_tl)
    moreover have "80 * y + x < 1920" using True lt(2) by linarith
    moreover have "80 * Suc y + x = 80 * y + x + 80" by simp
    moreover have "rows_of b ! Suc y ! x = b (80 * Suc y + x)" using True lt(2) by (intro rows_of_shape) simp_all
    ultimately show ?thesis by (simp add: add_ac)
  next
    case False
    then have y: "y = 24" using lt by simp
    have "(tl (rows_of b) @ [replicate 80 e]) ! 24 = replicate 80 e" by (simp only: nth_append length_tl rows_of_shape) simp
    then show ?thesis using lt(2) unfolding y by (simp only: nth_replicate) simp
  qed
next
  fix y :: nat assume "y < 25"
  then show "length ((tl (rows_of b) @ [replicate 80 e]) ! y) = 80"
    by (cases "y < 24") (simp_all only: nth_append length_tl rows_of_shape nth_tl, simp_all)
qed simp

section \<open>Refinement\<close>

lemma cells_with_buffer: "n < 2000 \<Longrightarrow> cells (with_buffer b t) n = b n"
  by (simp add: cells_def)

lemma rows_with_buffer: "rows_of (cells (with_buffer b t)) = rows_of b"
  by (rule rows_eqI) (auto simp: cells_with_buffer)

text \<open>Writing one entry inside of the screen.\<close>

lemma put_entry_screen:
  assumes "unat y < 25" and "unat x < 80"
  shows "rows_of (cells (terminal_putentryat c color x y t)) =
      (rows_of (cells t))[unat y := (rows_of (cells t) ! unat y)[unat x := vga_entry c color]]"
    and "same_outside t (terminal_putentryat c color x y t)"
proof -
  have i: "unat (y * VGA_WIDTH + x) = 80 * unat y + unat x" using cell_index [OF assms] by simp
  have p: "terminal_putentryat c color x y t = with_buffer ((cells t)(80 * unat y + unat x := vga_entry c color)) t"
    unfolding terminal_putentryat_def
    by (subst with_buffer_same [of t, symmetric]) (simp only: put_cell_buffer i cells_def [abs_def])
  show "rows_of (cells (terminal_putentryat c color x y t)) =
      (rows_of (cells t))[unat y := (rows_of (cells t) ! unat y)[unat x := vga_entry c color]]"
    unfolding p rows_with_buffer by (rule rows_of_upd [OF assms])
  show "same_outside t (terminal_putentryat c color x y t)"
    unfolding p same_outside_def using assms by (auto simp: cells_def)
qed

lemma put_entry_fields [simp]:
  "terminal_row (terminal_putentryat c color x y t) = terminal_row t"
  "terminal_column (terminal_putentryat c color x y t) = terminal_column t"
  "terminal_color (terminal_putentryat c color x y t) = terminal_color t"
  by (simp_all add: terminal_putentryat_def put_cell_def)

lemma next_row_screen:
  assumes "unat (terminal_row t) < 25"
  shows "screen_of (next_row t) = line_feed (screen_of t)" and "term_ok (next_row t)" and "same_outside t (next_row t)"
proof -
  have u: "unat (terminal_row t + 1) = unat (terminal_row t) + 1"
    using assms by (simp add: unat_add_u64)
  have e: "terminal_row t + 1 = VGA_HEIGHT \<longleftrightarrow> unat (terminal_row t) = 24"
    unfolding word_unat_eq_iff u by (auto simp: VGA_HEIGHT_def)
  have c: "cells (t\<lparr>terminal_column := a, terminal_row := b\<rparr>) = cells t" for a b
    by (simp add: cells_def fun_eq_iff)
  show "screen_of (next_row t) = line_feed (screen_of t)"
    using u e by (auto simp: next_row_def Let_def screen_of_def line_feed_def terminal_scroll_screen
        rows_with_buffer rows_of_scroll c VGA_HEIGHT_def)
  show "term_ok (next_row t)"
    using u e assms by (auto simp: next_row_def Let_def term_ok_nat terminal_scroll_screen VGA_HEIGHT_def)
  show "same_outside t (next_row t)"
    by (auto simp: next_row_def Let_def same_outside_def terminal_scroll_screen cells_def)
qed

end
