(* ===== verification/Terminal_Claims.thy ===== *)
theory Terminal_Claims
  imports Terminal_Props
begin

text \<open>
  Properties of the terminal: the refinement of the abstract screen, memory safety, and the two
  number printers.
\<close>

section \<open>Characters and calls\<close>

lemma putchar_screen:
  assumes "term_ok t"
  shows "screen_of (terminal_putchar c t) = put_char c (screen_of t)"
    and "term_ok (terminal_putchar c t)" and "same_outside t (terminal_putchar c t)"
proof -
  note r = assms [unfolded term_ok_nat]
  have less: "0 < terminal_column t \<longleftrightarrow> unat (terminal_column t) \<noteq> 0"
    by (simp add: word_less_nat_alt)
  have down: "unat (terminal_column t - 1) = unat (terminal_column t) - 1" if "unat (terminal_column t) \<noteq> 0"
    using that by (simp add: unat_diff_u64)
  have up: "unat (terminal_column t + 1) = unat (terminal_column t) + 1" using r by (simp add: unat_add_u64)
  have full: "terminal_column t + 1 = VGA_WIDTH \<longleftrightarrow> unat (terminal_column t) = 79"
    unfolding word_unat_eq_iff up by (auto simp: VGA_WIDTH_def)
  have col: "rows_of (cells (t\<lparr>terminal_column := a\<rparr>)) = rows_of (cells t)"
    "same_outside (t\<lparr>terminal_column := a\<rparr>) u = same_outside t u" for a t u
    by (simp_all add: same_outside_def)
  have col': "same_outside u (t\<lparr>terminal_column := a\<rparr>) = same_outside u t" for a t u
    by (simp add: same_outside_def)
  consider "c = newline" | "c = backspace" | "c \<noteq> newline" "c \<noteq> backspace" by blast
  then have "screen_of (terminal_putchar c t) = put_char c (screen_of t) \<and> term_ok (terminal_putchar c t) \<and>
    same_outside t (terminal_putchar c t)"
  proof cases
    case 1
    then show ?thesis using next_row_screen [of t] r by (simp add: terminal_putchar_def put_char_def)
  next
    case 2
    let ?t = "t\<lparr>terminal_column := terminal_column t - 1\<rparr>"
    show ?thesis
    proof (cases "unat (terminal_column t) = 0")
      case True
      then show ?thesis
        using 2 assms less by (simp add: terminal_putchar_def put_char_def screen_of_def same_outside_def)
    next
      case False
      have "unat (terminal_column ?t) < 80" using down [OF False] r by (simp add: less_imp_diff_less)
      then show ?thesis
        using 2 less False r down [OF False] put_entry_screen [where y = "terminal_row ?t" and x = "terminal_column ?t" and t = ?t and c = blank and color = "terminal_color t"]
        by (simp add: terminal_putchar_def put_char_def screen_of_def set_at_def term_ok_nat col)
    qed
  next
    case 3
    let ?p = "terminal_putentryat c (terminal_color t) (terminal_column t) (terminal_row t) t"
    let ?t = "?p\<lparr>terminal_column := terminal_column t + 1\<rparr>"
    have p: "screen_of ?p = set_at c (screen_of t)" "same_outside t ?p"
      using put_entry_screen [of "terminal_row t" "terminal_column t"] r by (simp_all add: screen_of_def set_at_def)
    have t: "screen_of ?t = set_at c (screen_of t)\<lparr>cur_col := unat (terminal_column t) + 1\<rparr>"
      unfolding p(1) [symmetric] by (simp add: screen_of_def up col)
    have lf: "line_feed (s\<lparr>cur_col := n\<rparr>) = line_feed s" for s n by (simp add: line_feed_def)
    have out: "same_outside t ?t" using p(2) by (simp add: col')
    have put: "terminal_putchar c t = (if unat (terminal_column t) = 79 then next_row ?t else ?t)"
      using 3 by (simp add: terminal_putchar_def Let_def full)
    have nr: "unat (terminal_row ?t) < 25" using r by simp
    have sc: "cur_col (screen_of t) = unat (terminal_column t)" by (simp add: screen_of_def)
    show ?thesis
    proof (cases "unat (terminal_column t) = 79")
      case True
      then show ?thesis
        using next_row_screen [OF nr] 3 same_outside_trans [OF out next_row_screen(3) [OF nr]]
        by (simp add: put put_char_def sc t lf)
    next
      case False
      then show ?thesis using 3 r up out by (simp add: put put_char_def sc t term_ok_nat)
    qed
  qed
  then show "screen_of (terminal_putchar c t) = put_char c (screen_of t)"
    and "term_ok (terminal_putchar c t)" and "same_outside t (terminal_putchar c t)" by auto
qed

lemma putchars_screen:
  "term_ok t \<Longrightarrow> screen_of (fold terminal_putchar cs t) = fold put_char cs (screen_of t) \<and>
    term_ok (fold terminal_putchar cs t) \<and> same_outside t (fold terminal_putchar cs t)"
proof (induction cs arbitrary: t)
  case Nil
  then show ?case by (simp add: same_outside_def)
next
  case (Cons c cs)
  note p = putchar_screen [OF Cons.prems, of c]
  from Cons.IH [OF p(2)] show ?case using p same_outside_trans [OF p(3)] by simp
qed

text \<open>The characters that a call prints; the two other calls set the colour or clear the screen.\<close>

definition dec_chars :: "u64 \<Rightarrow> u8 list" where
  "dec_chars v = (if v = 0 then [48] else rev (dec_digits v []))"

primrec call_screen :: "tcall \<Rightarrow> screen \<Rightarrow> screen" where
  "call_screen Initialize = (\<lambda>s. \<lparr>rows = replicate 25 (replicate 80 (vga_entry blank 7)), cur_row = 0, cur_col = 0, attr = 7\<rparr>)"
| "call_screen (SetColor c) = (\<lambda>s. s\<lparr>attr := c\<rparr>)"
| "call_screen (PutChar c) = put_char c"
| "call_screen (Write cs) = fold put_char cs"
| "call_screen (Hex v) = fold put_char (hex_buffer v)"
| "call_screen (Dec v) = fold put_char (dec_chars v)"

lemma initialize_screen:
  "screen_of (terminal_initialize t) =
    \<lparr>rows = replicate 25 (replicate 80 (vga_entry blank 7)), cur_row = 0, cur_col = 0, attr = 7\<rparr>"
  "term_ok (terminal_initialize t)" "same_outside t (terminal_initialize t)"
proof -
  have "rows_of (\<lambda>n. if n < 2000 then vga_entry blank 7 else cells t n) = replicate 25 (replicate 80 (vga_entry blank 7))"
  proof (rule rows_eqI)
    fix y x :: nat assume "y < 25" "x < 80"
    then have "80 * y + x < 2000" by linarith
    then show "(if 80 * y + x < 2000 then vga_entry blank 7 else cells t (80 * y + x)) =
        replicate 25 (replicate 80 (vga_entry blank 7)) ! y ! x"
      using \<open>y < 25\<close> \<open>x < 80\<close> by (simp only: nth_replicate if_True)
  qed (simp_all only: length_replicate nth_replicate)
  then show "screen_of (terminal_initialize t) =
    \<lparr>rows = replicate 25 (replicate 80 (vga_entry blank 7)), cur_row = 0, cur_col = 0, attr = 7\<rparr>"
    by (simp only: terminal_initialize_screen screen_of_def rows_with_buffer) simp
  show "term_ok (terminal_initialize t)" "same_outside t (terminal_initialize t)"
    by (simp_all add: terminal_initialize_screen term_ok_nat same_outside_def cells_def)
qed

lemma run_call_screen:
  assumes "term_ok t"
  shows "screen_of (run_call c t) = call_screen c (screen_of t) \<and> term_ok (run_call c t) \<and> same_outside t (run_call c t)"
proof (cases c)
  case Initialize
  then show ?thesis using initialize_screen by simp
next
  case (SetColor a)
  then show ?thesis
    using assms by (simp add: terminal_setcolor_def screen_of_def term_ok_nat same_outside_def)
next
  case (PutChar a)
  then show ?thesis using putchar_screen [OF assms] by simp
next
  case (Write cs)
  then show ?thesis using putchars_screen [OF assms] by (simp add: terminal_writestring_def terminal_write_def)
next
  case (Hex v)
  then show ?thesis
    using putchars_screen [OF assms] by (simp add: print_hex_def terminal_writestring_def terminal_write_def)
next
  case (Dec v)
  then show ?thesis
    using putchars_screen [OF assms, of "dec_chars v"]
    by (cases "v = 0") (simp_all add: print_dec_def dec_chars_def)
qed

section \<open>Digits\<close>

text \<open>The number that a list of decimal digits denotes, least digit first and last.\<close>

definition dec_value_le :: "u8 list \<Rightarrow> nat" where
  "dec_value_le ds = foldr (\<lambda>c n. unat c - 48 + 10 * n) ds 0"

definition dec_value :: "u8 list \<Rightarrow> nat" where
  "dec_value ds = foldl (\<lambda>n c. unat c - 48 + 10 * n) 0 ds"

lemma dec_value_rev: "dec_value (rev ds) = dec_value_le ds"
  by (simp add: dec_value_def dec_value_le_def foldl_conv_foldr)

lemma digit_char: "unat (48 + ucast (v mod 10 :: u64) :: u8) = 48 + unat v mod 10"
proof -
  have "unat (ucast (v mod 10) :: u8) = unat v mod 10"
    by (simp add: unsigned_ucast_eq take_bit_eq_mod unat_mod)
  then show ?thesis by (simp add: unat_word_ariths)
qed

lemma dec_digits_spec:
  "v \<noteq> 0 \<Longrightarrow> \<exists>ds. dec_digits v buf = buf @ ds \<and> ds \<noteq> [] \<and> last ds \<noteq> 48 \<and> dec_value_le ds = unat v \<and>
    (\<forall>c \<in> set ds. 48 \<le> unat c \<and> unat c \<le> 57) \<and> 10 ^ (length ds - 1) \<le> unat v"
proof (induction v buf rule: dec_digits.induct)
  case (1 v buf)
  let ?c = "48 + ucast (v mod 10) :: u8"
  have pos: "0 < v" using 1(2) by (simp add: word_gt_0)
  have d: "unat (v div 10) = unat v div 10" by (simp add: unat_div)
  have c: "unat ?c = 48 + unat v mod 10" by (rule digit_char)
  show ?case
  proof (cases "v div 10 = 0")
    case True
    then have "unat v < 10" using d by (simp add: div_eq_0_iff)
    moreover have "unat v \<noteq> 0" using 1(2) by (simp add: unat_eq_0)
    moreover have "dec_digits v buf = buf @ [?c]"
      using pos True by (subst dec_digits.simps, subst dec_digits.simps) simp
    moreover have "?c \<noteq> 48" using c \<open>unat v < 10\<close> \<open>unat v \<noteq> 0\<close> by (auto simp: word_unat_eq_iff)
    ultimately show ?thesis using c by (simp add: dec_value_le_def)
  next
    case False
    from 1(1) [OF pos False] obtain ds where ds: "dec_digits (v div 10) (buf @ [?c]) = (buf @ [?c]) @ ds"
      "ds \<noteq> []" "last ds \<noteq> 48" "dec_value_le ds = unat (v div 10)"
      "\<forall>c \<in> set ds. 48 \<le> unat c \<and> unat c \<le> 57" "10 ^ (length ds - 1) \<le> unat (v div 10)" by blast
    have e: "dec_digits v buf = buf @ ?c # ds" using pos ds(1) by (subst dec_digits.simps) simp
    have val: "dec_value_le (?c # ds) = unat v"
      using ds(4) c by (simp add: dec_value_le_def d)
    have len: "10 ^ (length (?c # ds) - 1) \<le> unat v"
    proof -
      have "10 ^ length ds = 10 * 10 ^ (length ds - 1)" using ds(2) by (cases ds) simp_all
      also have "\<dots> \<le> 10 * (unat v div 10)" using ds(6) d by simp
      finally show ?thesis by simp
    qed
    have "\<forall>x \<in> set (?c # ds). 48 \<le> unat x \<and> unat x \<le> 57" using ds(5) c by auto
    then show ?thesis using e ds(2,3) val len by auto
  qed
qed

lemma dec_chars_spec:
  "dec_value (dec_chars v) = unat v" "dec_chars v \<noteq> []" "hd (dec_chars v) = 48 \<longleftrightarrow> v = 0"
  "\<forall>c \<in> set (dec_chars v). 48 \<le> unat c \<and> unat c \<le> 57" "length (dec_chars v) \<le> 20"
proof -
  have "dec_value (dec_chars v) = unat v \<and> dec_chars v \<noteq> [] \<and> (hd (dec_chars v) = 48 \<longleftrightarrow> v = 0) \<and>
    (\<forall>c \<in> set (dec_chars v). 48 \<le> unat c \<and> unat c \<le> 57) \<and> length (dec_chars v) \<le> 20"
  proof (cases "v = 0")
    case True
    then show ?thesis by (simp add: dec_chars_def dec_value_def)
  next
    case False
    obtain ds where ds: "dec_digits v [] = ds" "ds \<noteq> []" "last ds \<noteq> 48" "dec_value_le ds = unat v"
      "\<forall>c \<in> set ds. 48 \<le> unat c \<and> unat c \<le> 57" "10 ^ (length ds - 1) \<le> unat v"
      using dec_digits_spec [OF False, of "[]"] by auto
    have "length ds \<le> 20"
    proof (rule ccontr)
      assume "\<not> length ds \<le> 20"
      then have "(10 :: nat) ^ 20 \<le> 10 ^ (length ds - 1)" by (intro power_increasing) simp_all
      then show False using ds(6) unat_lt_u64 [of v] by simp
    qed
    then show ?thesis
      using ds False by (simp add: dec_chars_def dec_value_rev hd_rev)
  qed
  then show "dec_value (dec_chars v) = unat v" "dec_chars v \<noteq> []" "hd (dec_chars v) = 48 \<longleftrightarrow> v = 0"
    "\<forall>c \<in> set (dec_chars v). 48 \<le> unat c \<and> unat c \<le> 57" "length (dec_chars v) \<le> 20" by blast+
qed

text \<open>Hexadecimal: the sixteen digits, most significant first.\<close>

definition hex_value :: "u8 list \<Rightarrow> nat" where
  "hex_value cs = foldl (\<lambda>n c. 16 * n + (if unat c \<le> 57 then unat c - 48 else unat c - 55)) 0 cs"

definition hex_digits :: "nat \<Rightarrow> nat \<Rightarrow> u8 list" where
  "hex_digits n x = map (\<lambda>i. hex_chars ! (x div 16 ^ (n - 1 - i) mod 16)) [0..<n]"

lemma hex_digits_Suc: "hex_digits (Suc n) x = hex_digits n (x div 16) @ [hex_chars ! (x mod 16)]"
proof -
  have "x div 16 ^ (n - i) = x div 16 div 16 ^ (n - 1 - i)" if "i < n" for i
  proof -
    have "n - i = Suc (n - 1 - i)" using that by simp
    then show ?thesis by (simp only: power_Suc div_mult2_eq)
  qed
  then show ?thesis by (auto simp: hex_digits_def)
qed

lemma low_nibble: "unat (w AND 15 :: u64) = unat w mod 16" "unat (drop_bit 4 w) = unat w div 16"
proof -
  have "w AND 15 = take_bit 4 w" by (simp add: take_bit_eq_mask mask_eq_exp_minus_1)
  then show "unat (w AND 15) = unat w mod 16" by (simp add: take_bit_eq_mod unat_mod)
  show "unat (drop_bit 4 w) = unat w div 16" by (simp add: drop_bit_eq_div unat_div)
qed

lemma hex_loop:
  "n \<le> length buffer \<Longrightarrow>
   fst (fold (\<lambda>i (buffer, value). (buffer[i := hex_chars ! unat (value AND 15)], drop_bit 4 value)) (rev [0..<n]) (buffer, w :: u64)) =
     hex_digits n (unat w) @ drop n buffer"
proof (induction n arbitrary: buffer w)
  case 0
  then show ?case by (simp add: hex_digits_def)
next
  case (Suc n)
  have "drop n (buffer[n := h]) = h # drop (Suc n) buffer" for h
    using Suc.prems by (simp add: Cons_nth_drop_Suc [symmetric])
  then show ?case
    using Suc.IH [of "buffer[n := hex_chars ! unat (w AND 15)]" "drop_bit 4 w"] Suc.prems
    by (simp add: hex_digits_Suc low_nibble)
qed

lemma hex_buffer_digits: "hex_buffer v = hex_digits 16 (unat v)"
  using hex_loop [of 16 "replicate 16 0" v] by (simp only: hex_buffer_def length_replicate) simp

lemma hex_char_value: "d < 16 \<Longrightarrow> (if unat (hex_chars ! d) \<le> 57 then unat (hex_chars ! d) - 48 else unat (hex_chars ! d) - 55) = d"
proof -
  have h: "hex_chars = [48, 49, 50, 51, 52, 53, 54, 55, 56, 57, 65, 66, 67, 68, 69, 70]"
    by (simp add: hex_chars_def lit_def)
  assume "d < 16"
  then have "d = 0 \<or> d = 1 \<or> d = 2 \<or> d = 3 \<or> d = 4 \<or> d = 5 \<or> d = 6 \<or> d = 7 \<or> d = 8 \<or> d = 9 \<or>
    d = 10 \<or> d = 11 \<or> d = 12 \<or> d = 13 \<or> d = 14 \<or> d = 15"
    by (auto simp: numeral_eq_Suc less_Suc_eq)
  then show ?thesis by (elim disjE) (simp_all add: h)
qed

lemma hex_digits_value: "hex_value (hex_digits n x) = x mod 16 ^ n"
proof (induction n arbitrary: x)
  case 0
  then show ?case by (simp add: hex_digits_def hex_value_def)
next
  case (Suc n)
  have "hex_value (hex_digits (Suc n) x) = 16 * (x div 16 mod 16 ^ n) + x mod 16"
    using Suc [of "x div 16"] hex_char_value [of "x mod 16"] by (simp add: hex_digits_Suc hex_value_def)
  then show ?case using mod_mult2_eq [of x 16 "16 ^ n"] by simp
qed

section \<open>Drawing\<close>

text \<open>A drawing operation keeps the cursor and writes inside of the screen only.\<close>

definition draws :: "(terminal \<Rightarrow> terminal) \<Rightarrow> bool" where
  "draws f \<longleftrightarrow> (\<forall>t. same_outside t (f t) \<and> terminal_row (f t) = terminal_row t \<and>
    terminal_column (f t) = terminal_column t \<and> terminal_color (f t) = terminal_color t)"

lemma draws_comp: "draws f \<Longrightarrow> draws g \<Longrightarrow> draws (\<lambda>t. f (g t))"
  unfolding draws_def by (metis same_outside_trans)

lemma draws_id: "draws (\<lambda>t. t)"
  by (simp add: draws_def same_outside_def)

lemma draws_loop:
  assumes "\<And>k. draws (body k)"
  shows "draws (for_u64 lo hi body)"
proof -
  have "draws (fold (\<lambda>k. body (of_nat k)) ks)" for ks
    by (induction ks) (use assms in \<open>simp_all add: draws_id id_def draws_comp comp_def\<close>)
  then show ?thesis by (simp add: draws_def for_u64_fold)
qed

text \<open>The shape of the boxes: four corners and two loops.\<close>

lemma draws_six:
  assumes "draws f1" "draws f2" "draws f3" "draws f4" "draws f5" "draws f6"
  shows "draws (\<lambda>t. f6 (f5 (f4 (f3 (f2 (f1 t))))))"
  using draws_comp [OF assms(6) draws_comp [OF assms(5) draws_comp [OF assms(4)
    draws_comp [OF assms(3) draws_comp [OF assms(2) assms(1)]]]]] .

lemma draws_line:
  assumes "\<And>k. draws (body k)"
  shows "draws (line_from i x n limit body)"
proof -
  have "same_outside t (line_from i x n limit body t) \<and> terminal_row (line_from i x n limit body t) = terminal_row t \<and>
    terminal_column (line_from i x n limit body t) = terminal_column t \<and>
    terminal_color (line_from i x n limit body t) = terminal_color t" for t
    using assms
  proof (induction i x n limit body t rule: line_from.induct)
    case (1 i x n limit body t)
    have b: "same_outside t (body (x + i) t)" "terminal_row (body (x + i) t) = terminal_row t"
      "terminal_column (body (x + i) t) = terminal_column t" "terminal_color (body (x + i) t) = terminal_color t"
      using 1(2) by (simp_all add: draws_def)
    show ?case
    proof (cases "i < n \<and> x + i < limit")
      case True
      then show ?thesis using 1(1) [OF True 1(2)] b same_outside_trans [OF b(1)] by (subst (1 2 3 4) line_from.simps) simp
    next
      case False
      then have "line_from i x n limit body t = t" by (subst line_from.simps) auto
      then show ?thesis by (simp add: same_outside_def)
    qed
  qed
  then show ?thesis by (simp add: draws_def)
qed

section \<open>Properties\<close>

text \<open>
  C17: Printing a character refines the abstract screen: a printable character goes to the cursor,
  which moves on and wraps at the last column; a newline below the last row scrolls, dropping the
  first row and adding a blank one; a backspace erases the cell before the cursor and stops at
  the first column.
\<close>

theorem putchar_refines:
  assumes "term_ok t"
  shows "screen_of (terminal_putchar c t) = put_char c (screen_of t)"
  using putchar_screen(1) [OF assms] .

definition boot_terminal :: terminal where
  "boot_terminal = \<lparr>terminal_row = 24, terminal_column = 3, terminal_color = 7, terminal_buffer = \<lambda>_. 0\<rparr>"

lemma boot_terminal_ok: "term_ok boot_terminal"
  by (simp add: boot_terminal_def term_ok_nat)

theorem putchar_refines_witness:
  "cur_row (screen_of (terminal_putchar newline boot_terminal)) = 24 \<and>
   last (rows (screen_of (terminal_putchar newline boot_terminal))) = replicate 80 (vga_entry blank 7)"
  unfolding putchar_refines [OF boot_terminal_ok]
  by (simp add: put_char_def line_feed_def screen_of_def boot_terminal_def)

text \<open>
  C31: Whatever the other components print, the cursor stays on the screen, no byte outside of the
  2000 cells is written, and the screen is the one that the calls have on the abstract screen.
\<close>

theorem calls_stay_on_screen:
  assumes "term_ok t"
  shows "screen_of (run_calls cs t) = fold call_screen cs (screen_of t) \<and> term_ok (run_calls cs t) \<and>
    (\<forall>i. 2000 \<le> unat i \<longrightarrow> terminal_buffer (run_calls cs t) i = terminal_buffer t i)"
proof -
  have "screen_of (run_calls cs t) = fold call_screen cs (screen_of t) \<and> term_ok (run_calls cs t) \<and>
    same_outside t (run_calls cs t)"
    using assms
  proof (induction cs arbitrary: t)
    case Nil
    then show ?case by (simp add: run_calls_def same_outside_def)
  next
    case (Cons c cs)
    have c: "screen_of (run_call c t) = call_screen c (screen_of t)" "term_ok (run_call c t)"
      "same_outside t (run_call c t)"
      using run_call_screen [OF Cons.prems, of c] by auto
    from Cons.IH [OF c(2)] show ?case
      using c same_outside_trans [OF c(3)] by (simp add: run_calls_def)
  qed
  then show ?thesis by (simp add: same_outside_def)
qed

theorem calls_stay_on_screen_witness:
  "terminal_buffer (run_calls [Initialize, Text ''hola'', Dec 42] boot_terminal) 2000 = 0"
  using calls_stay_on_screen [OF boot_terminal_ok, of "[Initialize, Text ''hola'', Dec 42]"]
  by (simp add: boot_terminal_def)

text \<open>
  The drawing functions write inside of the screen only and keep the cursor and the colour,
  for every position and size, also those that wrap around.
\<close>

theorem drawing_stays_on_screen:
  "draws (terminal_draw_shadow_pattern x y w h fg bg) \<and> draws (terminal_draw_single_box x y w h fg bg) \<and>
   draws (terminal_draw_double_box x y w h fg bg) \<and> draws (terminal_draw_double_horizontal_line x y w fg bg) \<and>
   draws (terminal_draw_double_vertical_line x y h fg bg)"
proof -
  have entry: "draws (terminal_putentryat c color x y)" if "\<not> (VGA_WIDTH \<le> x \<or> VGA_HEIGHT \<le> y)" for c color x y
  proof -
    have "unat y < 25" "unat x < 80" using that by (simp_all add: vga_size word_le_nat_alt)
    then show ?thesis using put_entry_screen(2) by (simp add: draws_def)
  qed
  have shadow: "draws (terminal_draw_shadow_char x y fg bg)" for x y fg bg
    using entry [of x y] draws_id
    by (cases "VGA_WIDTH \<le> x \<or> VGA_HEIGHT \<le> y") (simp_all add: terminal_draw_shadow_char_def [abs_def])
  have box: "draws (terminal_draw_box_char x y c fg bg)" for x y c fg bg
    using entry [of x y] draws_id
    by (cases "VGA_WIDTH \<le> x \<or> VGA_HEIGHT \<le> y") (simp_all add: terminal_draw_box_char_def [abs_def])
  have two: "draws (\<lambda>t. terminal_draw_box_char x y c fg bg (terminal_draw_box_char x' y' c fg bg t))"
    for x y x' y' c fg bg by (rule draws_comp [OF box box])
  have "draws (terminal_draw_shadow_pattern x y w h fg bg)"
    unfolding terminal_draw_shadow_pattern_def for_below_def by (rule draws_loop, rule draws_loop, rule shadow)
  moreover have "draws (terminal_draw_single_box x y w h fg bg)"
    unfolding terminal_draw_single_box_def [abs_def] Let_def
    by (rule draws_six) (rule box draws_loop [OF two])+
  moreover have "draws (terminal_draw_double_box x y w h fg bg)"
    unfolding terminal_draw_double_box_def [abs_def] Let_def
    by (rule draws_six) (rule box draws_loop [OF two])+
  moreover have "draws (terminal_draw_double_horizontal_line x y w fg bg)"
    unfolding terminal_draw_double_horizontal_line_def by (rule draws_line) (rule box)
  moreover have "draws (terminal_draw_double_vertical_line x y h fg bg)"
    unfolding terminal_draw_double_vertical_line_def by (rule draws_line) (rule box)
  ultimately show ?thesis by blast
qed

text \<open>
  C38: \<open>print_dec\<close> prints the decimal number: at most 20 digits, which fit the buffer, no leading
  zero, and their value is the argument.
\<close>

theorem print_dec_decimal:
  "\<exists>ds. print_dec v t = fold terminal_putchar ds t \<and> dec_value ds = unat v \<and>
    (\<forall>c \<in> set ds. 48 \<le> unat c \<and> unat c \<le> 57) \<and> 1 \<le> length ds \<and> length ds \<le> 20 \<and> (hd ds = 48 \<longleftrightarrow> v = 0)"
proof (intro exI conjI)
  show "print_dec v t = fold terminal_putchar (dec_chars v) t"
    by (cases "v = 0") (simp_all add: print_dec_def dec_chars_def)
qed (use dec_chars_spec [of v] in \<open>auto simp: Suc_le_eq\<close>)

theorem print_dec_decimal_witness:
  "\<exists>ds. print_dec 1024 boot_terminal = fold terminal_putchar ds boot_terminal \<and> dec_value ds = 1024"
  using print_dec_decimal [of 1024 boot_terminal] by auto

text \<open>
  \<open>print_hex\<close> prints 16 hexadecimal digits, whose value is the argument.
\<close>

theorem print_hex_hexadecimal:
  "print_hex v t = fold terminal_putchar (hex_buffer v) t \<and> length (hex_buffer v) = 16 \<and> hex_value (hex_buffer v) = unat v"
proof -
  have "unat v mod 16 ^ 16 = unat v" using unat_lt_u64 [of v] by simp
  then show ?thesis
    by (simp add: print_hex_def terminal_writestring_def terminal_write_def hex_buffer_digits hex_digits_value)
      (simp add: hex_digits_def)
qed

text \<open>
  \<open>VGA_COLOR_YELLOW\<close> is 16, one more than a colour nibble holds: as a foreground it is black
  on a background with the lowest bit set. All other colours keep to their nibble.
\<close>

theorem colors_keep_nibble:
  "vga_entry_color VGA_COLOR_YELLOW VGA_COLOR_BLACK = vga_entry_color VGA_COLOR_BLACK VGA_COLOR_BLUE \<and>
   (fg \<noteq> VGA_COLOR_YELLOW \<longrightarrow> bg \<noteq> VGA_COLOR_YELLOW \<longrightarrow>
     unat (vga_entry_color fg bg) = unat (vga_code fg) + 16 * unat (vga_code bg))"
  by (cases fg; cases bg) (simp_all add: vga_entry_color_def)

end
