(* ===== verification/Pic.thy ===== *)
theory Pic
  imports Pmm
begin

text \<open>
  Port input and output, and the interrupt controller (first part of \<open>isr.c\<close>, constants of
  \<open>isr.h\<close> and \<open>constants.h\<close>). The state logs every port access in order. What a read returns is
  up to the device, a parameter \<open>dev\<close> that sees the log; nothing is assumed about it here.
\<close>

datatype port_event = Out u16 u8 | In u16 u8

type_synonym device = "port_event list \<Rightarrow> u16 \<Rightarrow> u8"

record ports = memory +
  port_log :: "port_event list"
  interrupts_on :: bool

definition outb :: "u16 \<Rightarrow> u8 \<Rightarrow> 'a ports_scheme \<Rightarrow> 'a ports_scheme" where
  "outb port val s = s\<lparr>port_log := port_log s @ [Out port val]\<rparr>"

definition inb :: "device \<Rightarrow> u16 \<Rightarrow> 'a ports_scheme \<Rightarrow> u8 \<times> 'a ports_scheme" where
  "inb dev port s = (let ret = dev (port_log s) port in (ret, s\<lparr>port_log := port_log s @ [In port ret]\<rparr>))"

definition cli :: "'a ports_scheme \<Rightarrow> 'a ports_scheme" where
  "cli s = s\<lparr>interrupts_on := False\<rparr>"

definition sti :: "'a ports_scheme \<Rightarrow> 'a ports_scheme" where
  "sti s = s\<lparr>interrupts_on := True\<rparr>"

definition PIC1_COMMAND :: u16 where "PIC1_COMMAND = 0x20"
definition PIC1_DATA :: u16 where "PIC1_DATA = 0x21"
definition PIC2_COMMAND :: u16 where "PIC2_COMMAND = 0xA0"
definition PIC2_DATA :: u16 where "PIC2_DATA = 0xA1"
definition PIC_EOI :: u8 where "PIC_EOI = 0x20"
definition ICW1_ICW4 :: u8 where "ICW1_ICW4 = 0x01"
definition ICW1_INIT :: u8 where "ICW1_INIT = 0x10"
definition ICW4_8086 :: u8 where "ICW4_8086 = 0x01"

lemmas pic_consts = PIC1_COMMAND_def PIC1_DATA_def PIC2_COMMAND_def PIC2_DATA_def PIC_EOI_def
  ICW1_ICW4_def ICW1_INIT_def ICW4_8086_def

definition pic_remap :: "device \<Rightarrow> 'a ports_scheme \<Rightarrow> 'a ports_scheme" where
  "pic_remap dev s =
    (let (a1, s) = inb dev PIC1_DATA s;
         (a2, s) = inb dev PIC2_DATA s;
         s = outb PIC1_COMMAND (ICW1_INIT OR ICW1_ICW4) s;
         s = outb PIC2_COMMAND (ICW1_INIT OR ICW1_ICW4) s;
         s = outb PIC1_DATA 0x20 s;
         s = outb PIC2_DATA 0x28 s;
         s = outb PIC1_DATA 4 s;
         s = outb PIC2_DATA 2 s;
         s = outb PIC1_DATA ICW4_8086 s;
         s = outb PIC2_DATA ICW4_8086 s;
         s = outb PIC1_DATA a1 s
     in outb PIC2_DATA a2 s)"

definition pic_send_eoi :: "u8 \<Rightarrow> 'a ports_scheme \<Rightarrow> 'a ports_scheme" where
  "pic_send_eoi irq s =
    (let s = (if 8 \<le> irq then outb PIC2_COMMAND PIC_EOI s else s)
     in outb PIC1_COMMAND PIC_EOI s)"

text \<open>\<open>1 << irq\<close> is an \<open>int\<close>; storing the result in \<open>uint8_t\<close> keeps its low byte.\<close>

definition irq_bit :: "u8 \<Rightarrow> u8" where
  "irq_bit irq = ucast (push_bit (unat irq) (1 :: u32))"

definition irq_set_mask :: "device \<Rightarrow> u8 \<Rightarrow> 'a ports_scheme \<Rightarrow> 'a ports_scheme" where
  "irq_set_mask dev irq s =
    (let port = (if irq < 8 then PIC1_DATA else PIC2_DATA);
         irq = (if irq < 8 then irq else irq - 8);
         (v, s) = inb dev port s
     in outb port (v OR irq_bit irq) s)"

definition irq_clear_mask :: "device \<Rightarrow> u8 \<Rightarrow> 'a ports_scheme \<Rightarrow> 'a ports_scheme" where
  "irq_clear_mask dev irq s =
    (let port = (if irq < 8 then PIC1_DATA else PIC2_DATA);
         irq = (if irq < 8 then irq else irq - 8);
         (v, s) = inb dev port s
     in outb port (v AND NOT (irq_bit irq)) s)"

section \<open>What the calls do to the log\<close>

lemma port_log_simps [simp]:
  "port_log (outb port v s) = port_log s @ [Out port v]"
  "port_log (cli s) = port_log s" "port_log (sti s) = port_log s"
  "port_log (pic_send_eoi irq s) =
    port_log s @ (if 8 \<le> irq then [Out PIC2_COMMAND PIC_EOI] else []) @ [Out PIC1_COMMAND PIC_EOI]"
  by (simp_all add: outb_def cli_def sti_def pic_send_eoi_def Let_def)

lemma outb_keeps [simp]:
  "ram (outb port v s) = ram s" "console (outb port v s) = console s"
  "ports.more (outb port v s) = ports.more s"
  "interrupts_on (outb port v s) = interrupts_on s"
  by (simp_all add: outb_def)

lemma pic_remap_log:
  "port_log (pic_remap dev s) = port_log s @
    (let a1 = dev (port_log s) PIC1_DATA;
         a2 = dev (port_log s @ [In PIC1_DATA a1]) PIC2_DATA
     in [In PIC1_DATA a1, In PIC2_DATA a2, Out 0x20 0x11, Out 0xA0 0x11, Out 0x21 0x20, Out 0xA1 0x28,
         Out 0x21 4, Out 0xA1 2, Out 0x21 1, Out 0xA1 1, Out 0x21 a1, Out 0xA1 a2])"
  by (simp add: pic_remap_def inb_def Let_def pic_consts)

lemma irq_bit_bit: "irq < 8 \<Longrightarrow> n < 8 \<Longrightarrow> bit (irq_bit irq) n \<longleftrightarrow> n = unat irq"
  by (auto simp: irq_bit_def bit_simps word_less_nat_alt)

end
