(* ===== verification/Timer.thy ===== *)
theory Timer
  imports Pic
begin

text \<open>
  The interval timer (\<open>timer.c\<close>). A division by zero raises the CPU's divide error: such a
  call returns \<open>Inl Divide_Error\<close>; the other exceptions are raised by \<open>exception_test.c\<close> only. \<open>timer_wait\<close> sleeps until the next interrupt; each sleep
  is ended by one tick here, since no other interrupt changes the tick count.
\<close>

datatype cpu_exception = Divide_Error | Invalid_Opcode | General_Protection | Page_Fault

record timer = ports +
  timer_ticks :: u64
  timer_frequency :: u32

definition timer_handler :: "'a timer_scheme \<Rightarrow> cpu_exception + 'a timer_scheme" where
  "timer_handler s =
    (let s = s\<lparr>timer_ticks := timer_ticks s + 1\<rparr>
     in if timer_frequency s = 0 then Inl Divide_Error
        else if timer_ticks s mod ucast (timer_frequency s) = 0 then Inr s
        else Inr s)"

definition timer_get_ticks :: "'a timer_scheme \<Rightarrow> u64" where
  "timer_get_ticks s = timer_ticks s"

definition timer_install :: "device \<Rightarrow> u32 \<Rightarrow> 'a timer_scheme \<Rightarrow> cpu_exception + 'a timer_scheme" where
  "timer_install dev frequency s =
    (let s = s\<lparr>timer_frequency := frequency\<rparr>
     in if frequency = 0 then Inl Divide_Error
        else
          let divisor = 1193182 div frequency;
              s = outb 0x43 0x36 s;
              s = outb 0x40 (ucast (divisor AND 0xFF)) s;
              s = outb 0x40 (ucast (drop_bit 8 divisor AND 0xFF)) s
          in Inr (irq_clear_mask dev 0 s))"

text \<open>\<open>milliseconds * timer_frequency / 1000\<close> is computed in 32 bits.\<close>

definition wait_target :: "u32 \<Rightarrow> 'a timer_scheme \<Rightarrow> u64" where
  "wait_target milliseconds s = timer_ticks s + ucast (milliseconds * timer_frequency s div 1000)"

function wait_loop :: "u64 \<Rightarrow> 'a timer_scheme \<Rightarrow> cpu_exception + 'a timer_scheme" where
  "wait_loop target s =
    (if timer_ticks s < target
     then case timer_handler s of Inl e \<Rightarrow> Inl e | Inr s' \<Rightarrow> wait_loop target s'
     else Inr s)"
  by pat_completeness auto
termination
  by (relation "measure (\<lambda>(target, s). unat target - unat (timer_ticks s))")
    (auto simp: timer_handler_def Let_def unat_inc_u64 word_less_nat_alt split: if_splits)

declare wait_loop.simps [simp del]

definition timer_wait :: "u32 \<Rightarrow> 'a timer_scheme \<Rightarrow> cpu_exception + 'a timer_scheme" where
  "timer_wait milliseconds s = wait_loop (wait_target milliseconds s) s"

section \<open>Ticks and waits\<close>

lemma timer_handler_runs:
  "timer_frequency s \<noteq> 0 \<Longrightarrow> timer_handler s = Inr (s\<lparr>timer_ticks := timer_ticks s + 1\<rparr>)"
  by (simp add: timer_handler_def Let_def)

lemma wait_loop_ends:
  "timer_frequency s \<noteq> 0 \<Longrightarrow> timer_ticks s \<le> target \<Longrightarrow>
   wait_loop target s = Inr (s\<lparr>timer_ticks := target\<rparr>)"
proof (induction target s rule: wait_loop.induct)
  case (1 target s)
  show ?case
  proof (cases "timer_ticks s < target")
    case True
    let ?s = "s\<lparr>timer_ticks := timer_ticks s + 1\<rparr>"
    have "timer_ticks s + 1 \<le> target"
      using True by (simp add: word_le_nat_alt word_less_nat_alt unat_inc_u64)
    then have "wait_loop target ?s = Inr (?s\<lparr>timer_ticks := target\<rparr>)"
      using 1(1) [OF True timer_handler_runs [OF 1(2)]] 1(2) by simp
    then show ?thesis using True timer_handler_runs [OF 1(2)] by (subst wait_loop.simps) simp
  next
    case False
    then have "timer_ticks s = target" using 1(3) by simp
    then show ?thesis using False by (subst wait_loop.simps) simp
  qed
qed

end
