(* ===== verification/Keyboard.thy ===== *)
theory Keyboard
  imports Timer
begin

text \<open>
  The PS/2 keyboard driver (\<open>keyboard.c\<close>): scancodes in, characters into a ring buffer of 256
  bytes. The locale \<open>bounded_fifo\<close> is the contract between the handler and the readers of the
  buffer; the ring buffer is an instance of it.
\<close>

section \<open>Tables\<close>

definition scancode_to_ascii :: "u8 list" where
  "scancode_to_ascii =
    [0, 27] @ lit ''1234567890-='' @ [backspace, 9] @ lit ''qwertyuiop[]'' @ [newline, 0] @
    lit ''asdfghjkl;'' @ [39, 96, 0, 92] @ lit ''zxcvbnm,./'' @ [0] @ lit ''*'' @ [0] @ lit '' ''"

definition scancode_to_ascii_shift :: "u8 list" where
  "scancode_to_ascii_shift =
    [0, 27] @ lit ''!@#$%^&*()_+'' @ [backspace, 9] @ lit ''QWERTYUIOP{}'' @ [newline, 0] @
    lit ''ASDFGHJKL:'' @ [34, 126, 0, 124] @ lit ''ZXCVBNM<>?'' @ [0] @ lit ''*'' @ [0] @ lit '' ''"

section \<open>State and buffer\<close>

definition KEYBOARD_BUFFER_SIZE :: u64 where "KEYBOARD_BUFFER_SIZE = 256"
definition KEYBOARD_DATA_PORT :: u16 where "KEYBOARD_DATA_PORT = 0x60"

record keyboard = timer +
  shift_pressed :: bool
  ctrl_pressed :: bool
  alt_pressed :: bool
  caps_lock :: bool
  keyboard_buffer :: "u8 list"
  buffer_read_pos :: u64
  buffer_write_pos :: u64

definition keyboard_buffer_push :: "u8 \<Rightarrow> 'a keyboard_scheme \<Rightarrow> 'a keyboard_scheme" where
  "keyboard_buffer_push c s =
    (let next_pos = (buffer_write_pos s + 1) mod KEYBOARD_BUFFER_SIZE
     in if next_pos \<noteq> buffer_read_pos s then
          let s = s\<lparr>keyboard_buffer := (keyboard_buffer s)[unat (buffer_write_pos s) := c]\<rparr>
          in s\<lparr>buffer_write_pos := next_pos\<rparr>
        else s)"

text \<open>The part the blocking and the non-blocking read share.\<close>

definition take_char :: "'a keyboard_scheme \<Rightarrow> u8 \<times> 'a keyboard_scheme" where
  "take_char s =
    (let c = keyboard_buffer s ! unat (buffer_read_pos s)
     in (c, s\<lparr>buffer_read_pos := (buffer_read_pos s + 1) mod KEYBOARD_BUFFER_SIZE\<rparr>))"

definition keyboard_getchar_nonblock :: "'a keyboard_scheme \<Rightarrow> u8 \<times> 'a keyboard_scheme" where
  "keyboard_getchar_nonblock s =
    (if buffer_read_pos s = buffer_write_pos s then (0, s) else take_char s)"

definition keyboard_buffer_count :: "'a keyboard_scheme \<Rightarrow> u8" where
  "keyboard_buffer_count s =
    (if buffer_read_pos s \<le> buffer_write_pos s then ucast (buffer_write_pos s - buffer_read_pos s)
     else ucast (KEYBOARD_BUFFER_SIZE - buffer_read_pos s + buffer_write_pos s))"

definition keyboard_has_input :: "'a keyboard_scheme \<Rightarrow> bool" where
  "keyboard_has_input s \<longleftrightarrow> buffer_read_pos s \<noteq> buffer_write_pos s"

definition keyboard_clear_buffer :: "'a keyboard_scheme \<Rightarrow> 'a keyboard_scheme" where
  "keyboard_clear_buffer s = s\<lparr>buffer_read_pos := 0, buffer_write_pos := 0\<rparr>"

section \<open>The interrupt handler\<close>

definition handle_scancode :: "u8 \<Rightarrow> 'a keyboard_scheme \<Rightarrow> 'a keyboard_scheme" where
  "handle_scancode scancode s =
    (if scancode = 0x2A \<or> scancode = 0x36 then s\<lparr>shift_pressed := True\<rparr>
     else if scancode = 0xAA \<or> scancode = 0xB6 then s\<lparr>shift_pressed := False\<rparr>
     else if scancode = 0x1D then s\<lparr>ctrl_pressed := True\<rparr>
     else if scancode = 0x9D then s\<lparr>ctrl_pressed := False\<rparr>
     else if scancode = 0x38 then s\<lparr>alt_pressed := True\<rparr>
     else if scancode = 0xB8 then s\<lparr>alt_pressed := False\<rparr>
     else if scancode = 0x3A then s\<lparr>caps_lock := \<not> caps_lock s\<rparr>
     else if scancode AND 0x80 \<noteq> 0 then s
     else if unat scancode < length scancode_to_ascii then
       let ascii = (if shift_pressed s then scancode_to_ascii_shift ! unat scancode
                    else
                      let a = scancode_to_ascii ! unat scancode
                      in if caps_lock s \<and> 97 \<le> a \<and> a \<le> 122 then a - 32 else a)
       in if ascii \<noteq> 0 then keyboard_buffer_push ascii s else s
     else s)"

definition keyboard_handler :: "device \<Rightarrow> 'a keyboard_scheme \<Rightarrow> 'a keyboard_scheme" where
  "keyboard_handler dev s =
    (let (scancode, s) = inb dev KEYBOARD_DATA_PORT s in handle_scancode scancode s)"

definition keyboard_install :: "device \<Rightarrow> 'a keyboard_scheme \<Rightarrow> 'a keyboard_scheme" where
  "keyboard_install dev s = emit [Line ''[OK] Teclado PS/2 inicializado''] (irq_clear_mask dev 1 s)"

definition keyboard_shift_pressed :: "'a keyboard_scheme \<Rightarrow> bool" where
  "keyboard_shift_pressed s = shift_pressed s"

definition keyboard_ctrl_pressed :: "'a keyboard_scheme \<Rightarrow> bool" where
  "keyboard_ctrl_pressed s = ctrl_pressed s"

definition keyboard_alt_pressed :: "'a keyboard_scheme \<Rightarrow> bool" where
  "keyboard_alt_pressed s = alt_pressed s"

definition keyboard_caps_lock_active :: "'a keyboard_scheme \<Rightarrow> bool" where
  "keyboard_caps_lock_active s = caps_lock s"

section \<open>The contract of the buffer\<close>

text \<open>
  A first-in first-out buffer that holds at most \<open>cap\<close> items and drops what does not fit.
\<close>

locale bounded_fifo =
  fixes push :: "'c \<Rightarrow> 's \<Rightarrow> 's"
    and pop :: "'s \<Rightarrow> 'c \<times> 's"
    and items :: "'s \<Rightarrow> 'c list"
    and valid :: "'s \<Rightarrow> bool"
    and cap :: nat
  assumes push_items: "valid s \<Longrightarrow> items (push c s) = (if length (items s) < cap then items s @ [c] else items s)"
    and push_valid: "valid s \<Longrightarrow> valid (push c s)"
    and pop_items: "valid s \<Longrightarrow> items s \<noteq> [] \<Longrightarrow> fst (pop s) = hd (items s) \<and> items (snd (pop s)) = tl (items s)"
    and pop_valid: "valid s \<Longrightarrow> items s \<noteq> [] \<Longrightarrow> valid (snd (pop s))"
    and items_cap: "valid s \<Longrightarrow> length (items s) \<le> cap"
begin

lemma push_all:
  "valid s \<Longrightarrow> items (fold push cs s) = take cap (items s @ cs) \<and> valid (fold push cs s)"
proof (induction cs arbitrary: s)
  case Nil
  then show ?case by (simp add: items_cap)
next
  case (Cons c cs)
  have "take cap (items (push c s) @ cs) = take cap (items s @ c # cs)"
    using items_cap [OF Cons.prems] by (auto simp: push_items [OF Cons.prems] take_Cons' Suc_diff_le)
  then show ?case using Cons.IH [OF push_valid [OF Cons.prems]] by simp
qed

end

section \<open>The ring buffer is such a buffer\<close>

definition kb_valid :: "'a keyboard_scheme \<Rightarrow> bool" where
  "kb_valid s \<longleftrightarrow> length (keyboard_buffer s) = 256 \<and>
    buffer_read_pos s < KEYBOARD_BUFFER_SIZE \<and> buffer_write_pos s < KEYBOARD_BUFFER_SIZE"

text \<open>The characters from the read position up to the write position, around the end.\<close>

definition ring :: "u8 list \<Rightarrow> nat \<Rightarrow> nat \<Rightarrow> u8 list" where
  "ring buf r w = map (\<lambda>i. buf ! ((r + i) mod 256)) [0..<(w + 256 - r) mod 256]"

definition queue :: "'a keyboard_scheme \<Rightarrow> u8 list" where
  "queue s = ring (keyboard_buffer s) (unat (buffer_read_pos s)) (unat (buffer_write_pos s))"

lemma unat_mod_256: "unat (x mod KEYBOARD_BUFFER_SIZE) = unat x mod 256"
  by (simp add: KEYBOARD_BUFFER_SIZE_def unat_mod)

lemma pos_less: "x < KEYBOARD_BUFFER_SIZE \<longleftrightarrow> unat x < 256"
  by (simp add: KEYBOARD_BUFFER_SIZE_def word_less_nat_alt)

lemma unat_next: "x < KEYBOARD_BUFFER_SIZE \<Longrightarrow> unat ((x + 1) mod KEYBOARD_BUFFER_SIZE) = (unat x + 1) mod 256"
  by (simp add: unat_mod_256 pos_less unat_add_u64)

text \<open>Distances around the ring.\<close>

lemma ring_length: "r < 256 \<Longrightarrow> w < 256 \<Longrightarrow> length (ring buf r w) = (if r \<le> w then w - r else w + 256 - r)"
  by (auto simp: ring_def mod_if)

lemma ring_nth: "i < length (ring buf r w) \<Longrightarrow> ring buf r w ! i = buf ! ((r + i) mod 256)"
  by (simp add: ring_def)

lemma ring_full: "r < 256 \<Longrightarrow> w < 256 \<Longrightarrow> (w + 1) mod 256 = r \<longleftrightarrow> length (ring buf r w) = 255"
  by (auto simp: ring_length mod_if)

lemma ring_empty: "r < 256 \<Longrightarrow> w < 256 \<Longrightarrow> ring buf r w = [] \<longleftrightarrow> r = w"
  using ring_length [of r w buf] by (auto split: if_splits)

lemma ring_push:
  assumes "r < 256" and "w < 256" and "length buf = 256" and "(w + 1) mod 256 \<noteq> r"
  shows "ring (buf[w := c]) r ((w + 1) mod 256) = ring buf r w @ [c]"
proof (rule nth_equalityI)
  let ?n = "length (ring buf r w)"
  have n: "?n < 255"
    using assms(4) ring_full [OF assms(1,2), of buf] ring_length [OF assms(1,2), of buf] assms(1,2)
    by (auto split: if_splits)
  have len: "length (ring (buf[w := c]) r ((w + 1) mod 256)) = Suc ?n"
    using assms ring_length [OF assms(1,2), of buf] ring_length [of r "(w + 1) mod 256" "buf[w := c]"]
    by (auto simp: mod_if split: if_splits)
  then show "length (ring (buf[w := c]) r ((w + 1) mod 256)) = length (ring buf r w @ [c])" by simp
  have at: "(r + ?n) mod 256 = w" using assms(1,2) by (auto simp: ring_length mod_if)
  have before: "(r + i) mod 256 \<noteq> w" if "i < ?n" for i
    using that n assms(1,2) by (auto simp: ring_length mod_if split: if_splits)
  fix i assume i: "i < length (ring (buf[w := c]) r ((w + 1) mod 256))"
  show "ring (buf[w := c]) r ((w + 1) mod 256) ! i = (ring buf r w @ [c]) ! i"
  proof (cases "i < ?n")
    case True
    then show ?thesis using i before [OF True] by (simp add: ring_nth nth_append)
  next
    case False
    then have "i = ?n" using i len by simp
    then show ?thesis using i at assms(2,3) by (simp add: ring_nth)
  qed
qed

lemma ring_pop:
  assumes "r < 256" and "w < 256" and "r \<noteq> w"
  shows "ring buf r w = buf ! r # ring buf ((r + 1) mod 256) w"
proof (rule nth_equalityI)
  have len: "length (ring buf r w) = Suc (length (ring buf ((r + 1) mod 256) w))"
    using assms ring_length [of r w buf] ring_length [of "(r + 1) mod 256" w buf]
    by (auto simp: mod_if split: if_splits)
  then show "length (ring buf r w) = length (buf ! r # ring buf ((r + 1) mod 256) w)" by simp
  fix i assume i: "i < length (ring buf r w)"
  show "ring buf r w ! i = (buf ! r # ring buf ((r + 1) mod 256) w) ! i"
  proof (cases i)
    case 0
    then show ?thesis using i assms(1) by (simp add: ring_nth)
  next
    case (Suc k)
    have "((r + 1) mod 256 + k) mod 256 = (r + Suc k) mod 256" by (simp add: mod_add_left_eq)
    then show ?thesis using i len Suc by (simp add: ring_nth)
  qed
qed

lemma kb_positions:
  assumes "kb_valid s"
  shows "unat (buffer_read_pos s) < 256" "unat (buffer_write_pos s) < 256" "length (keyboard_buffer s) = 256"
  using assms by (simp_all add: kb_valid_def pos_less)

lemma next_pos: "kb_valid s \<Longrightarrow>
    (buffer_write_pos s + 1) mod KEYBOARD_BUFFER_SIZE = buffer_read_pos s \<longleftrightarrow>
    (unat (buffer_write_pos s) + 1) mod 256 = unat (buffer_read_pos s)"
  by (metis kb_valid_def unat_next word_unat_eq_iff)

lemma kb_push_queue:
  assumes "kb_valid s"
  shows "queue (keyboard_buffer_push c s) = (if length (queue s) < 255 then queue s @ [c] else queue s)"
    and "kb_valid (keyboard_buffer_push c s)"
proof -
  note p = kb_positions [OF assms]
  have w: "unat ((buffer_write_pos s + 1) mod KEYBOARD_BUFFER_SIZE) = (unat (buffer_write_pos s) + 1) mod 256"
    using assms by (intro unat_next) (simp add: kb_valid_def)
  have full: "length (queue s) < 255 \<longleftrightarrow> (unat (buffer_write_pos s) + 1) mod 256 \<noteq> unat (buffer_read_pos s)"
    using ring_full [OF p(1,2)] ring_length [OF p(1,2)] p(1,2) by (auto simp: queue_def)
  show "queue (keyboard_buffer_push c s) = (if length (queue s) < 255 then queue s @ [c] else queue s)"
    using next_pos [OF assms] full ring_push [OF p] w
    by (auto simp: keyboard_buffer_push_def Let_def queue_def)
  have "(buffer_write_pos s + 1) mod KEYBOARD_BUFFER_SIZE < KEYBOARD_BUFFER_SIZE"
    by (simp only: pos_less w)
  then show "kb_valid (keyboard_buffer_push c s)"
    using assms by (simp add: keyboard_buffer_push_def Let_def kb_valid_def)
qed

lemma kb_take_queue:
  assumes "kb_valid s" and "queue s \<noteq> []"
  shows "fst (take_char s) = hd (queue s)" "queue (snd (take_char s)) = tl (queue s)"
    "kb_valid (snd (take_char s))"
proof -
  note p = kb_positions [OF assms(1)]
  have ne: "unat (buffer_read_pos s) \<noteq> unat (buffer_write_pos s)"
    using assms(2) ring_empty [OF p(1,2)] by (simp add: queue_def)
  have r: "unat ((buffer_read_pos s + 1) mod KEYBOARD_BUFFER_SIZE) = (unat (buffer_read_pos s) + 1) mod 256"
    using assms by (intro unat_next) (simp add: kb_valid_def)
  show "fst (take_char s) = hd (queue s)" "queue (snd (take_char s)) = tl (queue s)"
    using ring_pop [OF p(1,2) ne, of "keyboard_buffer s"] r by (simp_all add: take_char_def queue_def Let_def)
  have "(buffer_read_pos s + 1) mod KEYBOARD_BUFFER_SIZE < KEYBOARD_BUFFER_SIZE"
    by (simp only: pos_less r)
  then show "kb_valid (snd (take_char s))"
    using assms by (simp add: take_char_def Let_def kb_valid_def)
qed

interpretation kb: bounded_fifo keyboard_buffer_push take_char queue kb_valid 255
proof unfold_locales
  show "kb_valid s \<Longrightarrow> length (queue s) \<le> 255" for s :: "'a keyboard_scheme"
    using kb_positions [of s] ring_length [of "unat (buffer_read_pos s)" "unat (buffer_write_pos s)" "keyboard_buffer s"]
    by (auto simp: queue_def split: if_splits)
qed (simp_all add: kb_push_queue kb_take_queue)

end
