(* ===== verification/Isr.thy ===== *)
theory Isr
  imports Keyboard
begin

text \<open>
  The interrupt descriptor table (\<open>kernel.c\<close>), the interrupt handlers (second part of
  \<open>isr.c\<close>), the panic screen (\<open>panic.c\<close>), and the blocking read of the keyboard, which sleeps
  until an interrupt delivers a character. The entry points \<open>isr0 .. isr31\<close> and
  \<open>irq0 .. irq15\<close> are labels in \<open>interrupts.asm\<close>; their addresses are the parameters
  \<open>isr_addr\<close> and \<open>irq_addr\<close>.
\<close>

section \<open>The descriptor table\<close>

record idt_entry =
  offset_low :: u16
  selector :: u16
  ist :: u8
  type_attr :: u8
  offset_mid :: u16
  offset_high :: u32
  zero_field :: u32

record idt_ptr =
  idt_limit :: u16
  idt_base :: u64

definition IDT_ENTRIES :: nat where "IDT_ENTRIES = 256"
definition sizeof_idt_entry :: nat where "sizeof_idt_entry = 16"

text \<open>\<open>idt_register\<close> is what the processor holds after \<open>lidt\<close>.\<close>

record kernel = keyboard +
  idt :: "idt_entry list"
  idtp :: idt_ptr
  idt_register :: "idt_ptr option"

definition idt_set_gate :: "u8 \<Rightarrow> u64 \<Rightarrow> u16 \<Rightarrow> u8 \<Rightarrow> 'a kernel_scheme \<Rightarrow> 'a kernel_scheme" where
  "idt_set_gate num handler sel flags s =
    s\<lparr>idt := (idt s)[unat num :=
      \<lparr>offset_low = ucast (handler AND 0xFFFF), selector = sel, ist = 0, type_attr = flags,
       offset_mid = ucast (drop_bit 16 handler AND 0xFFFF),
       offset_high = ucast (drop_bit 32 handler AND 0xFFFFFFFF), zero_field = 0\<rparr>]\<rparr>"

definition empty_gate :: idt_entry where
  "empty_gate = \<lparr>offset_low = 0, selector = 0, ist = 0, type_attr = 0, offset_mid = 0,
    offset_high = 0, zero_field = 0\<rparr>"

text \<open>\<open>idt_addr\<close> is the address of the array \<open>idt\<close>.\<close>

definition idt_install :: "u64 \<Rightarrow> 'a kernel_scheme \<Rightarrow> 'a kernel_scheme" where
  "idt_install idt_addr s =
    (let s = s\<lparr>idtp := \<lparr>idt_limit = of_nat (sizeof_idt_entry * IDT_ENTRIES - 1), idt_base = idt_addr\<rparr>\<rparr>;
         s = fold (\<lambda>i s. s\<lparr>idt := (idt s)[i := empty_gate]\<rparr>) [0..<IDT_ENTRIES] s
     in s\<lparr>idt_register := Some (idtp s)\<rparr>)"

definition isr_install :: "device \<Rightarrow> (nat \<Rightarrow> u64) \<Rightarrow> (nat \<Rightarrow> u64) \<Rightarrow> 'a kernel_scheme \<Rightarrow> 'a kernel_scheme" where
  "isr_install dev isr_addr irq_addr s =
    (let s = fold (\<lambda>i. idt_set_gate (of_nat i) (isr_addr i) 0x08 0x8E) [0..<32] s;
         s = pic_remap dev s;
         s = fold (\<lambda>i. idt_set_gate (of_nat (32 + i)) (irq_addr i) 0x08 0x8E) [0..<16] s
     in sti s)"

section \<open>Exceptions\<close>

text \<open>The stack frame that the stubs in \<open>interrupts.asm\<close> build.\<close>

record registers =
  r15 :: u64
  r14 :: u64
  r13 :: u64
  r12 :: u64
  r11 :: u64
  r10 :: u64
  r9 :: u64
  r8 :: u64
  rbp :: u64
  rdi :: u64
  rsi :: u64
  rdx :: u64
  rcx :: u64
  rbx :: u64
  rax :: u64
  int_no :: u64
  err_code :: u64
  rip :: u64
  reg_cs :: u64
  rflags :: u64
  rsp :: u64
  reg_ss :: u64

definition exception_messages :: "string list" where
  "exception_messages =
    [''Division By Zero'', ''Debug'', ''Non Maskable Interrupt'', ''Breakpoint'',
     ''Into Detected Overflow'', ''Out of Bounds'', ''Invalid Opcode'', ''No Coprocessor'',
     ''Double Fault'', ''Coprocessor Segment Overrun'', ''Bad TSS'', ''Segment Not Present'',
     ''Stack Fault'', ''General Protection Fault'', ''Page Fault'', ''Unknown Interrupt'',
     ''Coprocessor Fault'', ''Alignment Check'', ''Machine Check'', ''Reserved'', ''Reserved'',
     ''Reserved'', ''Reserved'', ''Reserved'', ''Reserved'', ''Reserved'', ''Reserved'',
     ''Reserved'', ''Reserved'', ''Reserved'', ''Security Exception'', ''Reserved'']"

definition stack_line :: "mem \<Rightarrow> u64 \<Rightarrow> nat \<Rightarrow> tcall list" where
  "stack_line m sp i = [Text ''  ['', Dec (of_nat i), Text ''] 0x'', Hex (load64 m (sp + 8 * of_nat i)), Line '''']"

text \<open>
  \<open>isr_handler\<close> never returns: the result is the state in which it halts the processor for
  good. \<open>None\<close>: the message would be read outside of \<open>exception_messages\<close>.
\<close>

definition isr_handler :: "registers \<Rightarrow> 'a ports_scheme \<Rightarrow> 'a ports_scheme option" where
  "isr_handler regs s =
    (let s = cli s;
         n = unat (int_no regs)
     in if n < length exception_messages then
       Some (emit
         ([SetColor (vga_entry_color VGA_COLOR_WHITE VGA_COLOR_RED),
           Write ([newline, newline] @ lit ''!!! EXCEPCION DEL CPU !!!'' @ [newline]),
           Line ''==========================='',
           Color VGA_COLOR_LIGHT_RED, Text ''Tipo: '', Text (exception_messages ! n), Text '' ('',
           Dec (int_no regs), Line '')'',
           Text ''Error code: 0x'', Hex (err_code regs), Line '''',
           Write (newline # lit ''Registros:'' @ [newline]),
           Text ''RAX: 0x'', Hex (rax regs), Text ''  '',
           Text ''RBX: 0x'', Hex (rbx regs), Text ''  '',
           Text ''RCX: 0x'', Hex (rcx regs), Line '''',
           Text ''RDX: 0x'', Hex (rdx regs), Text ''  '',
           Text ''RSI: 0x'', Hex (rsi regs), Text ''  '',
           Text ''RDI: 0x'', Hex (rdi regs), Line '''',
           Text ''RBP: 0x'', Hex (rbp regs), Text ''  '',
           Text ''RSP: 0x'', Hex (rsp regs), Line '''',
           Write (newline # lit ''Instruccion:'' @ [newline]),
           Text ''RIP: 0x'', Hex (rip regs), Line '''',
           Text ''CS: 0x'', Hex (reg_cs regs), Text ''  '',
           Text ''RFLAGS: 0x'', Hex (rflags regs), Line '''',
           Text ''SS: 0x'', Hex (reg_ss regs), Line '''',
           Write (newline # lit ''Stack trace (primeros 4 frames):'' @ [newline])] @
          concat (map (stack_line (ram s) (rsp regs)) [0..<4]) @
          [Write (newline # lit ''Sistema detenido por excepcion irrecuperable.'' @ [newline])]) s)
     else None)"

section \<open>Hardware interrupts\<close>

definition irq_handler :: "device \<Rightarrow> u64 \<Rightarrow> 'a keyboard_scheme \<Rightarrow> cpu_exception + 'a keyboard_scheme" where
  "irq_handler dev int_number s =
    (let r = (if int_number = 32 then timer_handler s
              else if int_number = 33 then Inr (keyboard_handler dev s)
              else Inr s)
     in case r of Inl e \<Rightarrow> Inl e | Inr s \<Rightarrow> Inr (pic_send_eoi (ucast (int_number - 32)) s))"

section \<open>The panic screen\<close>

text \<open>
  Like \<open>isr_handler\<close>, \<open>kernel_panic\<close> halts for good and the result is the state it halts in.
  \<open>file\<close> is \<open>None\<close> for a null pointer; \<open>line\<close> is the number that a 32-bit \<open>int\<close> holds.
\<close>

definition kernel_panic :: "u8 list \<Rightarrow> u8 list option \<Rightarrow> int \<Rightarrow> 'a ports_scheme \<Rightarrow> 'a ports_scheme" where
  "kernel_panic message file line s =
    (let s = cli s;
         s = emit
           [Initialize, SetColor (vga_entry_color VGA_COLOR_WHITE VGA_COLOR_RED),
            Line '''', Line ''====================================='',
            Line ''       KERNEL PANIC!                 '',
            Line ''====================================='', Line '''',
            Color VGA_COLOR_LIGHT_RED, Text ''Error fatal: '', Write message, Write [newline, newline]] s;
         s = (case file of None \<Rightarrow> s | Some f \<Rightarrow> emit [Text ''Archivo: '', Write f, Line ''''] s);
         s = (if 0 \<le> line then emit [Text ''Linea: '', Dec (of_int line), Line ''''] s else s);
         s = emit
           [Line '''', Color VGA_COLOR_LIGHT_GREY,
            Line ''El sistema se ha detenido para prevenir danos.'',
            Line ''Presione RESET para reiniciar.''] s
     in cli s)"

definition kernel_assert_fail :: "u8 list \<Rightarrow> u8 list option \<Rightarrow> int \<Rightarrow> 'a ports_scheme \<Rightarrow> 'a ports_scheme" where
  "kernel_assert_fail expression file line s =
    (let s = emit [Color VGA_COLOR_LIGHT_RED, Write (newline # lit ''[ASSERT FAILED] ''),
                   Write expression, Line ''''] s
     in kernel_panic (lit ''Assertion failed'') file line s)"

section \<open>The blocking read\<close>

text \<open>
  \<open>keyboard_getchar\<close> sleeps until the buffer is not empty. The list holds the scancodes of the
  keyboard interrupts still to come; each sleep is ended by the next one. The result has the
  scancodes that are left, and is \<open>None\<close> when no interrupt comes any more.
\<close>

definition keyboard_interrupt :: "u8 \<Rightarrow> 'a keyboard_scheme \<Rightarrow> 'a keyboard_scheme" where
  "keyboard_interrupt scancode s =
    (case irq_handler (\<lambda>_ _. scancode) 33 s of Inl e \<Rightarrow> s | Inr s' \<Rightarrow> s')"

fun keyboard_getchar :: "u8 list \<Rightarrow> 'a keyboard_scheme \<Rightarrow> (u8 \<times> u8 list \<times> 'a keyboard_scheme) option" where
  "keyboard_getchar pending s =
    (if buffer_read_pos s = buffer_write_pos s then
       case pending of [] \<Rightarrow> None
       | scancode # rest \<Rightarrow> keyboard_getchar rest (keyboard_interrupt scancode s)
     else let (c, s) = take_char s in Some (c, pending, s))"

declare keyboard_getchar.simps [simp del]

end
