(* ===== verification/Keyboard_Claims.thy ===== *)
theory Keyboard_Claims
  imports Isr
begin

text \<open>
  The keyboard as a whole: what the reader gets is the list of characters that the scancodes
  stand for, in order, up to the capacity of the buffer.
\<close>

section \<open>The specification\<close>

text \<open>The characters typed by a sequence of scancodes, from the state of Shift and Caps Lock on.\<close>

definition key_char :: "bool \<Rightarrow> bool \<Rightarrow> u8 \<Rightarrow> u8" where
  "key_char shift caps scancode =
    (let a = scancode_to_ascii ! unat scancode
     in if 58 \<le> unat scancode then 0
        else if shift then scancode_to_ascii_shift ! unat scancode
        else if caps \<and> 97 \<le> a \<and> a \<le> 122 then a - 32 else a)"

fun typed :: "bool \<Rightarrow> bool \<Rightarrow> u8 list \<Rightarrow> u8 list" where
  "typed shift caps [] = []"
| "typed shift caps (scancode # rest) =
    (if scancode \<in> {0x2A, 0x36} then typed True caps rest
     else if scancode \<in> {0xAA, 0xB6} then typed False caps rest
     else if scancode = 0x3A then typed shift (\<not> caps) rest
     else if scancode \<in> {0x1D, 0x38} \<or> 0x80 \<le> scancode then typed shift caps rest
     else
       let c = key_char shift caps scancode
       in if c = 0 then typed shift caps rest else c # typed shift caps rest)"

lemma table_lengths: "length scancode_to_ascii = 58" "length scancode_to_ascii_shift = 58"
  by (simp_all add: scancode_to_ascii_def scancode_to_ascii_shift_def lit_def)

lemma release_code: "scancode AND 0x80 \<noteq> (0 :: u8) \<longleftrightarrow> 0x80 \<le> scancode"
proof -
  have "scancode AND 0x80 = scancode AND push_bit 7 1" by simp
  then have "scancode AND 0x80 \<noteq> 0 \<longleftrightarrow> bit scancode 7" by (simp add: bit_iff_and_push_bit_not_eq_0)
  also have "\<dots> \<longleftrightarrow> bit (unat scancode) 7" by (simp add: bit_unsigned_iff)
  also have "\<dots> \<longleftrightarrow> odd (unat scancode div 128)" by (simp add: bit_iff_odd)
  also have "\<dots> \<longleftrightarrow> 128 \<le> unat scancode"
  proof (cases "128 \<le> unat scancode")
    case True
    then have "unat scancode div 128 = 1" using unat_lt_u8 [of scancode] by linarith
    then show ?thesis using True by simp
  qed simp
  finally show ?thesis by (simp add: word_le_nat_alt)
qed

section \<open>The handler against the specification\<close>

text \<open>What one scancode does to the modifiers and to the buffer.\<close>

lemma push_fields [simp]:
  "shift_pressed (keyboard_buffer_push c s) = shift_pressed s"
  "caps_lock (keyboard_buffer_push c s) = caps_lock s"
  by (simp_all add: keyboard_buffer_push_def Let_def)

lemma kb_fields [simp]:
  "queue (s\<lparr>shift_pressed := b\<rparr>) = queue s" "queue (s\<lparr>ctrl_pressed := b\<rparr>) = queue s"
  "queue (s\<lparr>alt_pressed := b\<rparr>) = queue s" "queue (s\<lparr>caps_lock := b\<rparr>) = queue s"
  "queue (s\<lparr>port_log := l\<rparr>) = queue s" "queue (pic_send_eoi irq s) = queue s"
  "kb_valid (s\<lparr>shift_pressed := b\<rparr>) = kb_valid s" "kb_valid (s\<lparr>ctrl_pressed := b\<rparr>) = kb_valid s"
  "kb_valid (s\<lparr>alt_pressed := b\<rparr>) = kb_valid s" "kb_valid (s\<lparr>caps_lock := b\<rparr>) = kb_valid s"
  "kb_valid (s\<lparr>port_log := l\<rparr>) = kb_valid s" "kb_valid (pic_send_eoi irq s) = kb_valid s"
  "shift_pressed (pic_send_eoi irq s) = shift_pressed s" "caps_lock (pic_send_eoi irq s) = caps_lock s"
  by (simp_all add: queue_def kb_valid_def pic_send_eoi_def outb_def Let_def)

text \<open>The characters that one scancode adds, as a list of length 0 or 1.\<close>

definition char_of :: "u8 \<Rightarrow> 'a keyboard_scheme \<Rightarrow> u8 list" where
  "char_of scancode s = typed (shift_pressed s) (caps_lock s) [scancode]"

lemma handle_scancode_key:
  assumes "scancode \<notin> {0x2A, 0x36, 0xAA, 0xB6, 0x1D, 0x9D, 0x38, 0xB8, 0x3A}" and "\<not> 0x80 \<le> scancode"
  shows "handle_scancode scancode s =
    (let c = key_char (shift_pressed s) (caps_lock s) scancode
     in if c = 0 then s else keyboard_buffer_push c s)"
  using assms release_code [of scancode]
  by (auto simp: handle_scancode_def key_char_def table_lengths Let_def)

lemma handle_scancode_effect:
  "typed (shift_pressed s) (caps_lock s) (scancode # rest) =
     char_of scancode s @ typed (shift_pressed (handle_scancode scancode s)) (caps_lock (handle_scancode scancode s)) rest"
proof (cases "scancode \<in> {0x2A, 0x36, 0xAA, 0xB6, 0x1D, 0x9D, 0x38, 0xB8, 0x3A} \<or> 0x80 \<le> scancode")
  case True
  then show ?thesis
    using release_code [of scancode] by (auto simp: handle_scancode_def char_of_def Let_def)
next
  case False
  then show ?thesis by (auto simp: handle_scancode_key char_of_def Let_def)
qed

lemma handle_scancode_queue:
  assumes "kb_valid s"
  shows "queue (handle_scancode scancode s) = take 255 (queue s @ char_of scancode s)"
    "kb_valid (handle_scancode scancode s)"
proof -
  have le: "length (queue s) \<le> 255" by (rule kb.items_cap [OF assms])
  have "queue (handle_scancode scancode s) = take 255 (queue s @ char_of scancode s) \<and>
    kb_valid (handle_scancode scancode s)"
  proof (cases "scancode \<in> {0x2A, 0x36, 0xAA, 0xB6, 0x1D, 0x9D, 0x38, 0xB8, 0x3A} \<or> 0x80 \<le> scancode")
    case True
    then show ?thesis
      using release_code [of scancode] le assms
      by (auto simp: handle_scancode_def char_of_def Let_def)
  next
    case False
    then show ?thesis
      using kb.push_all [OF assms, of "char_of scancode s"] le assms
      by (auto simp: handle_scancode_key char_of_def Let_def)
  qed
  then show "queue (handle_scancode scancode s) = take 255 (queue s @ char_of scancode s)"
    "kb_valid (handle_scancode scancode s)" by auto
qed

text \<open>The whole interrupt: read the port, handle the scancode, acknowledge.\<close>

lemma keyboard_interrupt_handles:
  "keyboard_interrupt scancode s =
    pic_send_eoi 1 (handle_scancode scancode (s\<lparr>port_log := port_log s @ [In KEYBOARD_DATA_PORT scancode]\<rparr>))"
  by (simp add: keyboard_interrupt_def irq_handler_def keyboard_handler_def inb_def Let_def)

lemma interrupt_spec:
  assumes "kb_valid s"
  shows "queue (keyboard_interrupt scancode s) = take 255 (queue s @ char_of scancode s)"
    "kb_valid (keyboard_interrupt scancode s)"
    "typed (shift_pressed s) (caps_lock s) (scancode # rest) =
     char_of scancode s @
     typed (shift_pressed (keyboard_interrupt scancode s)) (caps_lock (keyboard_interrupt scancode s)) rest"
proof -
  let ?s = "s\<lparr>port_log := port_log s @ [In KEYBOARD_DATA_PORT scancode]\<rparr>"
  have c: "char_of scancode ?s = char_of scancode s" by (simp add: char_of_def)
  have v: "kb_valid ?s" using assms by simp
  show "queue (keyboard_interrupt scancode s) = take 255 (queue s @ char_of scancode s)"
    "kb_valid (keyboard_interrupt scancode s)"
    using handle_scancode_queue [OF v, of scancode] by (simp_all add: keyboard_interrupt_handles c)
  show "typed (shift_pressed s) (caps_lock s) (scancode # rest) =
     char_of scancode s @
     typed (shift_pressed (keyboard_interrupt scancode s)) (caps_lock (keyboard_interrupt scancode s)) rest"
    using handle_scancode_effect [of ?s scancode rest] by (simp add: keyboard_interrupt_handles c)
qed

section \<open>A keyboard to instantiate the properties on\<close>

definition boot_keyboard :: keyboard where
  "boot_keyboard = \<lparr>ram = \<lambda>_. 0, console = [],
    heap_head = NULL, heap_initialized = False, total_allocations = 0, total_frees = 0,
    failed_allocations = 0, mem_info = \<lparr>entries = [], total_memory = 0, available_memory = 0\<rparr>,
    pmm_bitmap = 0, pmm_bitmap_size = 0, pmm_total_frames = 0, pmm_used_frames = 0,
    pmm_reserved_frames = 0, pmm_memory_base = 0, pmm_memory_size = 0,
    port_log = [], interrupts_on = True, timer_ticks = 0, timer_frequency = 100,
    shift_pressed = False, ctrl_pressed = False, alt_pressed = False, caps_lock = False,
    keyboard_buffer = replicate 256 0, buffer_read_pos = 0, buffer_write_pos = 0\<rparr>"

lemma boot_keyboard_valid: "kb_valid boot_keyboard" "queue boot_keyboard = []"
  "shift_pressed boot_keyboard = False" "caps_lock boot_keyboard = False"
  by (simp_all add: boot_keyboard_def kb_valid_def KEYBOARD_BUFFER_SIZE_def queue_def ring_def)

section \<open>Properties\<close>

text \<open>
  C15: After any sequence of keyboard interrupts the buffer holds what was in it followed by the
  characters that the scancodes stand for, cut at 255: Shift and Caps Lock apply from their
  scancode on, releases and modifiers add nothing, and what does not fit is dropped.
\<close>

theorem keyboard_queues_typed:
  assumes "kb_valid s"
  shows "queue (fold keyboard_interrupt scancodes s) =
      take 255 (queue s @ typed (shift_pressed s) (caps_lock s) scancodes) \<and>
    kb_valid (fold keyboard_interrupt scancodes s)"
  using assms
proof (induction scancodes arbitrary: s)
  case Nil
  then show ?case using kb.items_cap [OF Nil.prems] by simp
next
  case (Cons scancode rest)
  note i = interrupt_spec [OF Cons.prems, of scancode]
  have "queue (fold keyboard_interrupt (scancode # rest) s) =
      take 255 (take 255 (queue s @ char_of scancode s) @
        typed (shift_pressed (keyboard_interrupt scancode s)) (caps_lock (keyboard_interrupt scancode s)) rest)"
    using Cons.IH [OF i(2)] by (simp only: i(1) fold_simps)
  also have "\<dots> = take 255 (queue s @ typed (shift_pressed s) (caps_lock s) (scancode # rest))"
    by (simp only: take_take_append append_assoc i(3) [of rest])
  finally show ?case using Cons.IH [OF i(2)] by simp
qed

theorem keyboard_queues_typed_witness:
  "queue (fold keyboard_interrupt [0x2A, 0x1E, 0xAA, 0x9E, 0x30] boot_keyboard) = [0x41, 0x62]"
  using keyboard_queues_typed [OF boot_keyboard_valid(1), of "[0x2A, 0x1E, 0xAA, 0x9E, 0x30]"]
  by (simp add: boot_keyboard_valid key_char_def scancode_to_ascii_def
      scancode_to_ascii_shift_def lit_def)

text \<open>What a reader will get: the buffer, then what the scancodes to come stand for.\<close>

definition stream :: "u8 list \<Rightarrow> 'a keyboard_scheme \<Rightarrow> u8 list" where
  "stream pending s = queue s @ typed (shift_pressed s) (caps_lock s) pending"

lemma take_char_fields:
  "shift_pressed (snd (take_char s)) = shift_pressed s" "caps_lock (snd (take_char s)) = caps_lock s"
  by (simp_all add: take_char_def Let_def)

lemma queue_empty: "kb_valid s \<Longrightarrow> queue s = [] \<longleftrightarrow> buffer_read_pos s = buffer_write_pos s"
  using kb_positions [of s] ring_empty by (simp add: queue_def word_unat_eq_iff)

lemma getchar_stream:
  "kb_valid s \<Longrightarrow>
   (case stream pending s of
      [] \<Rightarrow> keyboard_getchar pending s = None
    | c # cs \<Rightarrow> \<exists>rest s'. keyboard_getchar pending s = Some (c, rest, s') \<and> stream rest s' = cs \<and> kb_valid s')"
proof (induction pending s rule: keyboard_getchar.induct)
  case (1 pending s)
  show ?case
  proof (cases "buffer_read_pos s = buffer_write_pos s")
    case True
    then have q: "queue s = []" using queue_empty [OF 1(2)] by simp
    show ?thesis
    proof (cases pending)
      case Nil
      then show ?thesis using True q by (subst keyboard_getchar.simps) (simp add: stream_def)
    next
      case (Cons scancode rest)
      note i = interrupt_spec [OF 1(2), of scancode]
      have "length (char_of scancode s) \<le> 1" by (simp add: char_of_def Let_def)
      then have "stream rest (keyboard_interrupt scancode s) = stream pending s"
        using i(1,3) q by (simp add: stream_def Cons)
      moreover have "keyboard_getchar pending s = keyboard_getchar rest (keyboard_interrupt scancode s)"
        using True Cons by (subst keyboard_getchar.simps) simp
      ultimately show ?thesis using 1(1) [OF True Cons i(2)] by (simp split: list.splits)
    qed
  next
    case False
    then have q: "queue s \<noteq> []" using queue_empty [OF 1(2)] by simp
    note t = kb_take_queue [OF 1(2) q]
    have "keyboard_getchar pending s = Some (fst (take_char s), pending, snd (take_char s))"
      using False by (subst keyboard_getchar.simps) (simp add: case_prod_beta)
    moreover have "stream pending s = fst (take_char s) # stream pending (snd (take_char s))"
      using t q by (simp add: stream_def take_char_fields)
    ultimately show ?thesis using t(3) by auto
  qed
qed

text \<open>
  C36: \<open>keyboard_getchar\<close> returns exactly when a character is buffered or still to be typed; it
  returns the oldest one, and nothing of what follows it is lost.
\<close>

theorem keyboard_getchar_next:
  assumes "kb_valid s"
  shows "case stream pending s of
      [] \<Rightarrow> keyboard_getchar pending s = None
    | c # cs \<Rightarrow> \<exists>rest s'. keyboard_getchar pending s = Some (c, rest, s') \<and> stream rest s' = cs \<and> kb_valid s'"
  using getchar_stream [OF assms] .

theorem keyboard_getchar_next_witness:
  "\<exists>rest s'. keyboard_getchar [0x9E, 0x1E, 0x30] boot_keyboard = Some (0x61, rest, s') \<and> stream rest s' = [0x62]"
  using keyboard_getchar_next [OF boot_keyboard_valid(1), of "[0x9E, 0x1E, 0x30]"]
  by (auto simp: stream_def boot_keyboard_valid key_char_def scancode_to_ascii_def lit_def)

text \<open>
  The status functions agree with the buffer: the count is its length, at most 255, input is
  reported exactly when it is not empty, and the non-blocking read takes the oldest character or
  returns 0.
\<close>

theorem keyboard_status:
  assumes "kb_valid s"
  shows "unat (keyboard_buffer_count s) = length (queue s) \<and> length (queue s) \<le> 255 \<and>
    (keyboard_has_input s \<longleftrightarrow> queue s \<noteq> []) \<and>
    (case queue s of
       [] \<Rightarrow> keyboard_getchar_nonblock s = (0, s)
     | c # cs \<Rightarrow> fst (keyboard_getchar_nonblock s) = c \<and> queue (snd (keyboard_getchar_nonblock s)) = cs)"
proof -
  note p = kb_positions [OF assms]
  have len: "length (queue s) = (if unat (buffer_read_pos s) \<le> unat (buffer_write_pos s)
      then unat (buffer_write_pos s) - unat (buffer_read_pos s)
      else unat (buffer_write_pos s) + 256 - unat (buffer_read_pos s))"
    unfolding queue_def by (rule ring_length [OF p(1,2)])
  have small: "unat (ucast (x :: u64) :: u8) = unat x" if "unat x < 256" for x
    using that by (simp add: unsigned_ucast_eq take_bit_eq_mod)
  have "unat (keyboard_buffer_count s) = length (queue s)"
  proof (cases "buffer_read_pos s \<le> buffer_write_pos s")
    case True
    then have "unat (buffer_write_pos s - buffer_read_pos s) = unat (buffer_write_pos s) - unat (buffer_read_pos s)"
      by (simp add: unat_diff_u64 word_le_nat_alt)
    then show ?thesis
      using True p by (simp add: keyboard_buffer_count_def len small word_le_nat_alt)
  next
    case False
    have "unat (KEYBOARD_BUFFER_SIZE - buffer_read_pos s) = 256 - unat (buffer_read_pos s)"
      using p(1) by (simp add: KEYBOARD_BUFFER_SIZE_def unat_diff_u64)
    then have "unat (KEYBOARD_BUFFER_SIZE - buffer_read_pos s + buffer_write_pos s) =
        256 - unat (buffer_read_pos s) + unat (buffer_write_pos s)"
      using p by (subst unat_add_u64) simp_all
    then show ?thesis
      using False p by (simp add: keyboard_buffer_count_def len small word_le_nat_alt)
  qed
  moreover have "length (queue s) \<le> 255" by (rule kb.items_cap [OF assms])
  moreover have "keyboard_has_input s \<longleftrightarrow> queue s \<noteq> []"
    using queue_empty [OF assms] by (simp add: keyboard_has_input_def)
  moreover have "case queue s of
       [] \<Rightarrow> keyboard_getchar_nonblock s = (0, s)
     | c # cs \<Rightarrow> fst (keyboard_getchar_nonblock s) = c \<and> queue (snd (keyboard_getchar_nonblock s)) = cs"
    using queue_empty [OF assms] kb_take_queue [OF assms]
    by (cases "queue s") (auto simp: keyboard_getchar_nonblock_def)
  ultimately show ?thesis by blast
qed

theorem keyboard_status_witness:
  "unat (keyboard_buffer_count boot_keyboard) = 0 \<and> keyboard_getchar_nonblock boot_keyboard = (0, boot_keyboard)"
  using keyboard_status [OF boot_keyboard_valid(1)] by (simp add: boot_keyboard_valid)

text \<open>
  The two scancode tables agree: both have 58 entries, a key has a character in both or in
  neither, and a letter key has the same letter in upper case with Shift.
\<close>

theorem scancode_tables_agree:
  "length scancode_to_ascii = length scancode_to_ascii_shift \<and>
   list_all2 (\<lambda>a b. (a = 0 \<longleftrightarrow> b = 0) \<and> (97 \<le> a \<and> a \<le> 122 \<longrightarrow> b = a - 32))
     scancode_to_ascii scancode_to_ascii_shift"
  by (simp add: scancode_to_ascii_def scancode_to_ascii_shift_def lit_def)

end
