(* ===== verification/Interrupt_Claims.thy ===== *)
theory Interrupt_Claims
  imports Keyboard_Claims
begin

text \<open>
  Properties of the descriptor table, the interrupt controller, the timer and the two interrupt
  entry points.
\<close>

section \<open>A kernel to instantiate the properties on\<close>

definition boot_kernel :: kernel where
  "boot_kernel = keyboard.extend boot_keyboard
    \<lparr>idt = replicate 256 empty_gate, idtp = \<lparr>idt_limit = 0, idt_base = 0\<rparr>, idt_register = None\<rparr>"

lemma boot_kernel_simps:
  "idt boot_kernel = replicate 256 empty_gate" "timer_frequency boot_kernel = 100"
  "timer_ticks boot_kernel = 0" "port_log boot_kernel = []" "interrupts_on boot_kernel = True"
  by (simp_all add: boot_kernel_def boot_keyboard_def keyboard.defs)

section \<open>Gates\<close>

text \<open>The address that the processor reads out of a gate.\<close>

definition gate_handler :: "idt_entry \<Rightarrow> u64" where
  "gate_handler e =
    ucast (offset_low e) OR push_bit 16 (ucast (offset_mid e)) OR push_bit 32 (ucast (offset_high e))"

text \<open>A present 64-bit interrupt gate in the kernel's code segment, which enters \<open>handler\<close>.\<close>

definition gate_to :: "u64 \<Rightarrow> u16 \<Rightarrow> u8 \<Rightarrow> idt_entry \<Rightarrow> bool" where
  "gate_to handler sel flags e \<longleftrightarrow>
    gate_handler e = handler \<and> selector e = sel \<and> type_attr e = flags \<and> ist e = 0 \<and> zero_field e = 0"

lemma split_handler:
  "ucast (ucast (h AND 0xFFFF) :: u16) OR push_bit 16 (ucast (ucast (drop_bit 16 h AND 0xFFFF) :: u16)) OR
   push_bit 32 (ucast (ucast (drop_bit 32 h AND 0xFFFFFFFF) :: u32)) = (h :: u64)"
proof (rule bit_eqI)
  fix n assume "possible_bit TYPE(u64) n"
  then have n: "n < 64" by (simp add: possible_bit_word)
  have masks: "(0xFFFF :: u64) = mask 16" "(0xFFFFFFFF :: u64) = mask 32" by (simp_all add: mask_eq_exp_minus_1)
  show "bit (ucast (ucast (h AND 0xFFFF) :: u16) OR push_bit 16 (ucast (ucast (drop_bit 16 h AND 0xFFFF) :: u16)) OR
      push_bit 32 (ucast (ucast (drop_bit 32 h AND 0xFFFFFFFF) :: u32)) :: u64) n = bit h n"
    unfolding masks using n by (cases "n < 32") (auto simp: bit_simps)
qed

lemma set_gate_gate:
  "unat num < length (idt s) \<Longrightarrow> gate_to h sel flags (idt (idt_set_gate num h sel flags s) ! unat num)"
  by (simp add: idt_set_gate_def gate_to_def gate_handler_def split_handler)

lemma set_gate_other: "i \<noteq> unat num \<Longrightarrow> idt (idt_set_gate num h sel flags s) ! i = idt s ! i"
  by (simp add: idt_set_gate_def)

lemma set_gate_length [simp]: "length (idt (idt_set_gate num h sel flags s)) = length (idt s)"
  by (simp add: idt_set_gate_def)

text \<open>A run of gates, as the two loops of \<open>isr_install\<close> set them.\<close>

lemma set_gates:
  assumes "base + n \<le> 256" and "length (idt s) = 256"
  shows "let s' = fold (\<lambda>i. idt_set_gate (of_nat (base + i)) (addr i) sel flags) [0..<n] s
    in length (idt s') = 256 \<and> (\<forall>i < n. gate_to (addr i) sel flags (idt s' ! (base + i))) \<and>
      (\<forall>i. i < base \<or> base + n \<le> i \<longrightarrow> idt s' ! i = idt s ! i)"
  unfolding Let_def using assms(1)
proof (induction n)
  case 0
  then show ?case using assms(2) by simp
next
  case (Suc n)
  let ?s = "fold (\<lambda>i. idt_set_gate (of_nat (base + i)) (addr i) sel flags) [0..<n] s"
  have u: "unat (of_nat (base + n) :: u8) = base + n"
    using Suc.prems by (simp only: unat_of_nat) simp
  have IH: "length (idt ?s) = 256" "\<forall>i < n. gate_to (addr i) sel flags (idt ?s ! (base + i))"
    "\<forall>i. i < base \<or> base + n \<le> i \<longrightarrow> idt ?s ! i = idt s ! i"
    using Suc by auto
  have new: "gate_to (addr n) sel flags (idt (idt_set_gate (of_nat (base + n)) (addr n) sel flags ?s) ! (base + n))"
    using set_gate_gate [of "of_nat (base + n)" ?s "addr n" sel flags] IH(1) Suc.prems by (simp only: u)
  have old: "idt (idt_set_gate (of_nat (base + n)) (addr n) sel flags ?s) ! i = idt ?s ! i" if "i \<noteq> base + n" for i
    using that by (intro set_gate_other) (simp only: u not_False_eq_True)
  have f: "fold (\<lambda>i. idt_set_gate (of_nat (base + i)) (addr i) sel flags) [0..<Suc n] s =
      idt_set_gate (of_nat (base + n)) (addr n) sel flags ?s"
    by simp
  show ?case unfolding f using IH new old by (auto simp: less_Suc_eq)
qed

lemma idt_ports [simp]:
  "idt (pic_remap dev s) = idt s" "idt (sti s) = idt s" "interrupts_on (sti s) = True"
  "port_log (idt_set_gate num h sel flags s) = port_log s"
  by (simp_all add: pic_remap_def sti_def outb_def inb_def idt_set_gate_def Let_def)

lemma set_gates_log:
  "port_log (fold (\<lambda>i. idt_set_gate (num i) (addr i) sel flags) is s) = port_log s"
  by (induction "is" arbitrary: s) simp_all


section \<open>Properties of the descriptor table\<close>

lemma isr_install_spec:
  assumes "length (idt s) = 256"
  shows "let s' = isr_install dev isr_addr irq_addr s in
    (\<forall>i < 32. gate_to (isr_addr i) 0x08 0x8E (idt s' ! i)) \<and>
    (\<forall>i < 16. gate_to (irq_addr i) 0x08 0x8E (idt s' ! (32 + i))) \<and>
    (\<forall>i. 48 \<le> i \<longrightarrow> idt s' ! i = idt s ! i) \<and> length (idt s') = 256 \<and>
    (\<exists>a1 a2. port_log s' = port_log s @
      [In 0x21 a1, In 0xA1 a2, Out 0x20 0x11, Out 0xA0 0x11, Out 0x21 32, Out 0xA1 40,
       Out 0x21 4, Out 0xA1 2, Out 0x21 1, Out 0xA1 1, Out 0x21 a1, Out 0xA1 a2]) \<and>
    interrupts_on s'"
proof -
  define s1 where "s1 = fold (\<lambda>i. idt_set_gate (of_nat (0 + i)) (isr_addr i) 0x08 0x8E) [0..<32] s"
  define s2 where "s2 = pic_remap dev s1"
  define s3 where "s3 = fold (\<lambda>i. idt_set_gate (of_nat (32 + i)) (irq_addr i) 0x08 0x8E) [0..<16] s2"
  have s': "isr_install dev isr_addr irq_addr s = sti s3"
    unfolding s3_def s2_def s1_def isr_install_def Let_def by simp
  have 1: "length (idt s1) = 256 \<and> (\<forall>i < 32. gate_to (isr_addr i) 0x08 0x8E (idt s1 ! (0 + i))) \<and>
      (\<forall>i. i < 0 \<or> 0 + 32 \<le> i \<longrightarrow> idt s1 ! i = idt s ! i)"
    using set_gates [of 0 32 s isr_addr 8 "0x8E"] assms unfolding s1_def Let_def by simp
  have i2: "idt s2 = idt s1" by (simp add: s2_def)
  have 3: "length (idt s3) = 256 \<and> (\<forall>i < 16. gate_to (irq_addr i) 0x08 0x8E (idt s3 ! (32 + i))) \<and>
      (\<forall>i. i < 32 \<or> 32 + 16 \<le> i \<longrightarrow> idt s3 ! i = idt s2 ! i)"
    using set_gates [of 32 16 s2 irq_addr 8 "0x8E"] 1 unfolding s3_def Let_def by (simp add: i2)
  have "port_log s3 = port_log s2" "port_log s1 = port_log s"
    unfolding s3_def s1_def by (rule set_gates_log)+
  then have "\<exists>a1 a2. port_log s3 = port_log s @
      [In 0x21 a1, In 0xA1 a2, Out 0x20 0x11, Out 0xA0 0x11, Out 0x21 32, Out 0xA1 40,
       Out 0x21 4, Out 0xA1 2, Out 0x21 1, Out 0xA1 1, Out 0x21 a1, Out 0xA1 a2]"
    unfolding s2_def by (auto simp: pic_remap_log pic_consts Let_def)
  then show ?thesis using 1 3 unfolding s' Let_def by (simp add: i2)
qed

text \<open>
  C27: After \<open>isr_install\<close> the gates 0 to 31 enter the exception stubs and the gates 32 to 47 the
  interrupt stubs, each as a present interrupt gate of the kernel's code segment whose address
  fields recombine to the stub's address; every other gate is as before, both interrupt
  controllers have been remapped to the vectors 32 and 40 with their masks restored, and
  interrupts are on.
\<close>

theorem isr_install_gates:
  assumes "length (idt s) = 256"
  shows "let s' = isr_install dev isr_addr irq_addr s in
    (\<forall>i < 32. gate_to (isr_addr i) 0x08 0x8E (idt s' ! i)) \<and>
    (\<forall>i < 16. gate_to (irq_addr i) 0x08 0x8E (idt s' ! (32 + i))) \<and>
    (\<forall>i. 48 \<le> i \<longrightarrow> idt s' ! i = idt s ! i) \<and> length (idt s') = 256 \<and>
    (\<exists>a1 a2. port_log s' = port_log s @
      [In 0x21 a1, In 0xA1 a2, Out 0x20 0x11, Out 0xA0 0x11, Out 0x21 32, Out 0xA1 40,
       Out 0x21 4, Out 0xA1 2, Out 0x21 1, Out 0xA1 1, Out 0x21 a1, Out 0xA1 a2]) \<and>
    interrupts_on s'"
  by (rule isr_install_spec [OF assms])

theorem isr_install_gates_witness:
  "gate_handler (idt (isr_install (\<lambda>_ _. 0) (\<lambda>i. 0x100000 + of_nat i) (\<lambda>i. 0x200000 + of_nat i) boot_kernel) ! 33) = 0x200001"
proof -
  have a: "length (idt boot_kernel) = 256" by (simp add: boot_kernel_simps)
  let ?s = "isr_install (\<lambda>_ _. 0) (\<lambda>i. 0x100000 + of_nat i) (\<lambda>i. 0x200000 + of_nat i) boot_kernel"
  have "\<forall>i < 16. gate_to (0x200000 + of_nat i) 0x08 0x8E (idt ?s ! (32 + i))"
    using isr_install_gates [OF a, of "\<lambda>_ _. 0" "\<lambda>i. 0x100000 + of_nat i" "\<lambda>i. 0x200000 + of_nat i"]
    unfolding Let_def by blast
  from spec [OF this, of 1] show ?thesis by (simp add: gate_to_def)
qed

text \<open>
  After \<open>idt_install\<close> all 256 gates are empty and the processor holds the address of the
  table and its last byte, 4095.
\<close>

theorem idt_install_clears:
  assumes "length (idt s) = 256"
  shows "idt (idt_install idt_addr s) = replicate 256 empty_gate \<and>
    idt_register (idt_install idt_addr s) = Some \<lparr>idt_limit = 4095, idt_base = idt_addr\<rparr>"
proof -
  have f: "idt (fold (\<lambda>i s. s\<lparr>idt := (idt s)[i := empty_gate]\<rparr>) [0..<n] s) =
      replicate n empty_gate @ drop n (idt s) \<and>
    idtp (fold (\<lambda>i s. s\<lparr>idt := (idt s)[i := empty_gate]\<rparr>) [0..<n] s) = idtp s" if "n \<le> length (idt s)" for n and s :: "'b kernel_scheme"
    using that
  proof (induction n)
    case (Suc n)
    then show ?case
      by (simp add: list_update_append Cons_nth_drop_Suc [symmetric] replicate_append_same [symmetric])
  qed simp
  from f [of 256 "s\<lparr>idtp := \<lparr>idt_limit = 4095, idt_base = idt_addr\<rparr>\<rparr>"] show ?thesis
    using assms by (simp add: idt_install_def Let_def IDT_ENTRIES_def sizeof_idt_entry_def)
qed

theorem idt_install_clears_witness:
  "idt_register (idt_install 0x150000 boot_kernel) = Some \<lparr>idt_limit = 4095, idt_base = 0x150000\<rparr>"
  using idt_install_clears [of boot_kernel "0x150000"] by (simp add: boot_kernel_simps)

section \<open>Properties of the interrupt controller\<close>

text \<open>
  Masking an interrupt sets exactly its bit of the mask register of the controller it
  belongs to, unmasking clears exactly that bit, and no other port is written.
\<close>

theorem irq_masks_exact:
  assumes "irq < 16"
  defines "port \<equiv> if irq < 8 then 0x21 else 0xA1"
  shows "\<exists>v clear set. let old = dev (port_log s) port in
    port_log (irq_clear_mask dev irq s) = port_log s @ [In port old, Out port clear] \<and>
    port_log (irq_set_mask dev irq s) = port_log s @ [In port old, Out port set] \<and>
    (\<forall>n < 8. bit clear n = (bit old n \<and> n \<noteq> unat irq mod 8) \<and> bit set n = (bit old n \<or> n = unat irq mod 8))"
proof -
  define i where "i = (if irq < 8 then irq else irq - 8)"
  have i: "i < 8" "unat i = unat irq mod 8"
  proof -
    have "unat irq < 16" using assms(1) by (simp add: word_less_nat_alt)
    then have "unat i = unat irq mod 8"
      by (cases "irq < 8") (simp_all add: i_def word_less_nat_alt unat_sub word_le_nat_alt mod_if)
    then show "unat i = unat irq mod 8" "i < 8" by (simp_all add: word_less_nat_alt)
  qed
  have b: "bit (irq_bit i) n \<longleftrightarrow> n = unat irq mod 8" if "n < 8" for n
    using irq_bit_bit [OF i(1) that] i(2) by simp
  let ?old = "dev (port_log s) port"
  have "port_log (irq_clear_mask dev irq s) = port_log s @ [In port ?old, Out port (?old AND NOT (irq_bit i))]"
    "port_log (irq_set_mask dev irq s) = port_log s @ [In port ?old, Out port (?old OR irq_bit i)]"
    by (simp_all add: irq_clear_mask_def irq_set_mask_def inb_def Let_def pic_consts port_def i_def)
  moreover have "bit (?old AND NOT (irq_bit i)) n = (bit ?old n \<and> n \<noteq> unat irq mod 8)"
    "bit (?old OR irq_bit i) n = (bit ?old n \<or> n = unat irq mod 8)" if "n < 8" for n
    using b [OF that] that by (simp_all add: bit_simps)
  ultimately show ?thesis unfolding Let_def by blast
qed


theorem irq_masks_exact_witness:
  "port_log (irq_clear_mask (\<lambda>_ _. 0xFF) 9 boot_kernel) = [In 0xA1 0xFF, Out 0xA1 0xFD]"
proof -
  have nine: "(9 :: u8) < 16" by simp
  obtain v where log: "port_log (irq_clear_mask (\<lambda>_ _. 0xFF) 9 boot_kernel) = [In 0xA1 0xFF, Out 0xA1 v]"
    and v: "\<forall>n < 8. bit v n = (bit (0xFF :: u8) n \<and> n \<noteq> 1)"
    using irq_masks_exact [OF nine, of "\<lambda>_ _. 0xFF" boot_kernel]
    by (auto simp: Let_def boot_kernel_simps)
  have "v = 0xFD"
  proof (rule bit_eqI)
    fix n assume "possible_bit TYPE(u8) n"
    then have "n < 8" by (simp add: possible_bit_word)
    moreover have "\<forall>n < 8. (bit (0xFF :: u8) n \<and> n \<noteq> 1) = bit (0xFD :: u8) n"
      by (simp add: numeral_nat All_less_Suc)
    ultimately show "bit v n = bit (0xFD :: u8) n" using v by simp
  qed
  then show ?thesis using log by simp
qed

section \<open>Properties of the timer and of the interrupt entry\<close>

text \<open>
  C28: A hardware interrupt is acknowledged at the master controller, and at the slave first
  exactly when its vector is 40 or more; only vector 32 advances the tick count. The one case in
  which it is not acknowledged is a tick while the timer frequency is still 0: the handler's
  remainder then raises the divide error.
\<close>

theorem irq_acknowledged:
  assumes "32 \<le> n" and "n < 48"
  shows "case irq_handler dev n s of
      Inl e \<Rightarrow> n = 32 \<and> timer_frequency s = 0 \<and> e = Divide_Error
    | Inr s' \<Rightarrow> (n = 32 \<longrightarrow> timer_frequency s \<noteq> 0) \<and>
        timer_ticks s' = (if n = 32 then timer_ticks s + 1 else timer_ticks s) \<and>
        (\<exists>reads. port_log s' = port_log s @ reads @
          (if 40 \<le> n then [Out 0xA0 0x20, Out 0x20 0x20] else [Out 0x20 0x20]) \<and>
          (\<forall>e \<in> set reads. n = 33 \<and> (\<exists>v. e = In 0x60 v)))"
proof -
  have eoi: "8 \<le> (ucast (n - 32) :: u8) \<longleftrightarrow> 40 \<le> n"
  proof -
    have u: "unat (n - 32) = unat n - 32" using assms by (simp add: unat_sub)
    have "unat n < 48" "32 \<le> unat n" using assms by (simp_all add: word_less_nat_alt word_le_nat_alt)
    then have "unat (ucast (n - 32) :: u8) = unat n - 32"
      using u by (simp add: unsigned_ucast_eq take_bit_eq_mod)
    then show ?thesis using \<open>32 \<le> unat n\<close> by (simp add: word_le_nat_alt) linarith
  qed
  have keep: "timer_ticks (pic_send_eoi irq s) = timer_ticks s" for irq and s :: "'b keyboard_scheme"
    by (simp add: pic_send_eoi_def outb_def Let_def)
  have push: "port_log (keyboard_buffer_push c s) = port_log s" "timer_ticks (keyboard_buffer_push c s) = timer_ticks s"
    for c and s :: "'b keyboard_scheme" by (simp_all add: keyboard_buffer_push_def Let_def)
  have kbd: "port_log (handle_scancode c s) = port_log s" "timer_ticks (handle_scancode c s) = timer_ticks s"
    for c and s :: "'b keyboard_scheme" by (simp_all add: handle_scancode_def Let_def push)
  consider "n = 32" | "n = 33" | "n \<noteq> 32" "n \<noteq> 33" by blast
  then show ?thesis
  proof cases
    case 1
    then show ?thesis
      by (simp add: irq_handler_def timer_handler_def Let_def pic_consts keep)
  next
    case 2
    then show ?thesis
      by (simp add: irq_handler_def keyboard_handler_def inb_def Let_def pic_consts keep kbd KEYBOARD_DATA_PORT_def word_le_nat_alt)
  next
    case 3
    then show ?thesis using eoi by (simp add: irq_handler_def Let_def pic_consts keep)
  qed
qed

theorem irq_acknowledged_witness:
  "\<exists>s'. irq_handler (\<lambda>_ _. 0) 44 boot_kernel = Inr s' \<and> port_log s' = [Out 0xA0 0x20, Out 0x20 0x20]"
  using irq_acknowledged [of 44 boot_kernel "\<lambda>_ _. 0"]
  by (auto simp: boot_kernel_simps split: sum.splits)




text \<open>
  The product is computed in 32 bits, so a wait can end at once: at 100 ticks a second,
  42949673 ms (close to twelve hours) is a wait of 0 ticks.
\<close>

theorem timer_wait_wraps:
  assumes "timer_frequency s = 100"
  shows "timer_wait 42949673 s = Inr s \<and> unat (42949673 :: u32) * 100 div 1000 = 4294967"
proof -
  have "wait_target 42949673 s = timer_ticks s"
    by (simp add: wait_target_def assms word_eq_iff_unsigned unat_div)
  then show ?thesis using assms wait_loop_ends [of s "timer_ticks s"] by (simp add: timer_wait_def)
qed

theorem timer_wait_wraps_witness: "timer_wait 42949673 boot_kernel = Inr boot_kernel"
  using timer_wait_wraps [of boot_kernel] by (simp add: boot_kernel_simps)

text \<open>
  \<open>timer_install\<close> divides by the frequency, so 0 raises the divide error; any other frequency
  is stored, the two bytes written to channel 0 are the low 16 bits of 1193182 divided by it, low
  byte first, and the timer's interrupt is unmasked.
\<close>

theorem timer_install_programs:
  "case timer_install dev f s of
     Inl e \<Rightarrow> f = 0 \<and> e = Divide_Error
   | Inr s' \<Rightarrow> f \<noteq> 0 \<and> timer_frequency s' = f \<and> timer_ticks s' = timer_ticks s \<and>
       (\<exists>lo hi old. port_log s' = port_log s @
          [Out 0x43 0x36, Out 0x40 lo, Out 0x40 hi, In 0x21 old, Out 0x21 (old AND 0xFE)] \<and>
          unat lo + 256 * unat hi = 1193182 div unat f mod 2 ^ 16)"
proof (cases "f = 0")
  case True
  then show ?thesis by (simp add: timer_install_def Let_def)
next
  case False
  let ?d = "1193182 div f"
  let ?lo = "ucast (?d AND 0xFF) :: u8" and ?hi = "ucast (drop_bit 8 ?d AND 0xFF) :: u8"
  have masks: "(0xFF :: u32) = mask 8" by (simp add: mask_eq_exp_minus_1)
  have lo: "unat ?lo = unat ?d mod 256"
    by (simp add: masks unsigned_ucast_eq take_bit_eq_mod unat_mod flip: take_bit_eq_mask)
  have hi: "unat ?hi = unat ?d div 256 mod 256"
    by (simp add: masks unsigned_ucast_eq take_bit_eq_mod unat_mod drop_bit_eq_div unat_div flip: take_bit_eq_mask)
  have d: "unat ?d = 1193182 div unat f" by (simp add: unat_div)
  have "unat ?lo + 256 * unat ?hi = unat ?d mod 2 ^ 16"
    unfolding lo hi using mod_mult2_eq [of "unat ?d" 256 256] by simp
  moreover have "(NOT (irq_bit 0)) = 0xFE" by (simp add: irq_bit_def)
  ultimately show ?thesis
    using False d by (auto simp: timer_install_def irq_clear_mask_def inb_def outb_def Let_def pic_consts)
qed





end
