(* ===== verification/Keyboard_Race.thy ===== *)
theory Keyboard_Race
  imports Interrupt_Claims "HOL-Library.Sublist"
begin

text \<open>
  \<open>keyboard_getchar\<close> under interrupts at any point. The blocking read is taken apart into its
  accesses to the shared variables; between any two of them interrupts may run, each to its end,
  as they do on one processor. A run is labelled with the scancodes received, the ticks, and the
  characters that the reads return.
\<close>

section \<open>The steps\<close>

text \<open>
  Where the reader is: about to read \<open>buffer_read_pos\<close>; with the value read, about to compare;
  before the \<open>hlt\<close>; asleep in it; about to read \<open>buffer_read_pos\<close> for the index; about to read
  the buffer; with the character, about to read the position again; about to store the next
  position and return.
\<close>

datatype reader = Poll | Compare u64 | Halting | Asleep | Fetch | Index u64 | Advance u8 | Store u8 u64

definition reader_next :: "reader \<Rightarrow> 'a keyboard_scheme \<Rightarrow> reader \<times> 'a keyboard_scheme \<times> u8 option" where
  "reader_next r s =
    (case r of
       Poll \<Rightarrow> (Compare (buffer_read_pos s), s, None)
     | Compare p \<Rightarrow> (if p = buffer_write_pos s then Halting else Fetch, s, None)
     | Halting \<Rightarrow> (Asleep, s, None)
     | Asleep \<Rightarrow> (Asleep, s, None)
     | Fetch \<Rightarrow> (Index (buffer_read_pos s), s, None)
     | Index p \<Rightarrow> (Advance (keyboard_buffer s ! unat p), s, None)
     | Advance c \<Rightarrow> (Store c (buffer_read_pos s), s, None)
     | Store c p \<Rightarrow> (Poll, s\<lparr>buffer_read_pos := (p + 1) mod KEYBOARD_BUFFER_SIZE\<rparr>, Some c))"

text \<open>Any interrupt ends the \<open>hlt\<close> that the reader sleeps in, and returns to the test of the loop.\<close>

definition wake :: "reader \<Rightarrow> reader" where
  "wake r = (if r = Asleep then Poll else r)"

datatype event = Key u8 | Tick | Return u8

text \<open>The device answers a read of the data port with the scancode; a tick reads no port.\<close>

inductive run :: "reader \<Rightarrow> 'a keyboard_scheme \<Rightarrow> event list \<Rightarrow> reader \<Rightarrow> 'a keyboard_scheme \<Rightarrow> bool" where
  stop: "run r s [] r s"
| silent: "r \<noteq> Asleep \<Longrightarrow> reader_next r s = (r1, s1, None) \<Longrightarrow> run r1 s1 es r' s' \<Longrightarrow> run r s es r' s'"
| return: "reader_next r s = (r1, s1, Some c) \<Longrightarrow> run r1 s1 es r' s' \<Longrightarrow> run r s (Return c # es) r' s'"
| key: "irq_handler (\<lambda>_ _. scancode) 33 s = Inr s1 \<Longrightarrow> run (wake r) s1 es r' s' \<Longrightarrow>
    run r s (Key scancode # es) r' s'"
| tick: "irq_handler dev 32 s = Inr s1 \<Longrightarrow> run (wake r) s1 es r' s' \<Longrightarrow> run r s (Tick # es) r' s'"

fun keys_of :: "event list \<Rightarrow> u8 list" where
  "keys_of [] = []"
| "keys_of (e # es) = (case e of Key k \<Rightarrow> k # keys_of es | _ \<Rightarrow> keys_of es)"

fun returned :: "event list \<Rightarrow> u8 list" where
  "returned [] = []"
| "returned (e # es) = (case e of Return c \<Rightarrow> c # returned es | _ \<Rightarrow> returned es)"

section \<open>What the reader holds is true\<close>

text \<open>The reader's local values agree with the buffer, whatever interrupts came after it read them.\<close>

definition reader_ok :: "reader \<Rightarrow> 'a keyboard_scheme \<Rightarrow> bool" where
  "reader_ok r s \<longleftrightarrow> kb_valid s \<and>
    (case r of
       Compare p \<Rightarrow> p = buffer_read_pos s
     | Fetch \<Rightarrow> queue s \<noteq> []
     | Index p \<Rightarrow> queue s \<noteq> [] \<and> p = buffer_read_pos s
     | Advance c \<Rightarrow> queue s \<noteq> [] \<and> c = hd (queue s)
     | Store c p \<Rightarrow> queue s \<noteq> [] \<and> c = hd (queue s) \<and> p = buffer_read_pos s
     | _ \<Rightarrow> True)"

lemma keyboard_interrupt_irq: "irq_handler (\<lambda>_ _. scancode) 33 s = Inr s1 \<Longrightarrow> s1 = keyboard_interrupt scancode s"
  by (simp add: keyboard_interrupt_def)

lemma push_read_pos: "buffer_read_pos (keyboard_buffer_push c s) = buffer_read_pos s"
  "timer_frequency (keyboard_buffer_push c s) = timer_frequency s"
  by (simp_all add: keyboard_buffer_push_def Let_def)

lemma interrupt_read_pos: "buffer_read_pos (keyboard_interrupt scancode s) = buffer_read_pos s"
  "timer_frequency (keyboard_interrupt scancode s) = timer_frequency s"
  by (simp_all add: keyboard_interrupt_handles pic_send_eoi_def outb_def handle_scancode_def Let_def push_read_pos)

lemma tick_keyboard:
  assumes "irq_handler dev 32 s = Inr s1"
  shows "queue s1 = queue s" "kb_valid s1 = kb_valid s" "buffer_read_pos s1 = buffer_read_pos s"
    "shift_pressed s1 = shift_pressed s" "caps_lock s1 = caps_lock s"
  using assms
  by (auto simp: irq_handler_def timer_handler_def pic_send_eoi_def outb_def queue_def kb_valid_def Let_def split: if_splits)

text \<open>One interrupt puts the characters of its scancode behind the others, or drops them when 255 are there.\<close>

lemma interrupt_queue:
  assumes "kb_valid s"
  shows "queue (keyboard_interrupt scancode s) =
    queue s @ (if length (queue s) < 255 then char_of scancode s else [])"
proof -
  have "length (char_of scancode s) \<le> 1" by (simp add: char_of_def Let_def)
  moreover have "length (queue s) \<le> 255" by (rule kb.items_cap [OF assms])
  ultimately show ?thesis using interrupt_spec(1) [OF assms, of scancode] by auto
qed

lemma reader_ok_interrupt:
  assumes "reader_ok r s"
  shows "reader_ok (wake r) (keyboard_interrupt scancode s)"
proof -
  have v: "kb_valid s" using assms by (simp add: reader_ok_def)
  show ?thesis
    using assms interrupt_spec(2) [OF v, of scancode] interrupt_queue [OF v, of scancode] interrupt_read_pos(1) [of scancode s]
    by (cases r) (auto simp: reader_ok_def wake_def)
qed

lemma reader_ok_tick: "reader_ok r s \<Longrightarrow> irq_handler dev 32 s = Inr s1 \<Longrightarrow> reader_ok (wake r) s1"
  using tick_keyboard [of dev s s1] by (cases r) (auto simp: reader_ok_def wake_def)

text \<open>A silent step changes the reader only; the step that returns takes the oldest character.\<close>

lemma reader_ok_silent:
  assumes "reader_ok r s" and "reader_next r s = (r1, s1, None)"
  shows "s1 = s \<and> reader_ok r1 s"
proof -
  have v: "kb_valid s" using assms(1) by (simp add: reader_ok_def)
  have q: "queue s = [] \<longleftrightarrow> buffer_read_pos s = buffer_write_pos s" by (rule queue_empty [OF v])
  have h: "queue s \<noteq> [] \<Longrightarrow> keyboard_buffer s ! unat (buffer_read_pos s) = hd (queue s)"
    using kb_take_queue(1) [OF v] by (simp add: take_char_def Let_def)
  show ?thesis using assms q h by (cases r) (auto simp: reader_next_def reader_ok_def split: if_splits)
qed

lemma reader_ok_return:
  assumes "reader_ok r s" and "reader_next r s = (r1, s1, Some c)"
  shows "queue s = c # queue s1 \<and> reader_ok r1 s1 \<and> shift_pressed s1 = shift_pressed s \<and> caps_lock s1 = caps_lock s"
proof -
  obtain p where r: "r = Store c p" "r1 = Poll" "s1 = s\<lparr>buffer_read_pos := (p + 1) mod KEYBOARD_BUFFER_SIZE\<rparr>"
    using assms(2) by (cases r) (auto simp: reader_next_def split: if_splits)
  then have s: "kb_valid s" "queue s \<noteq> []" "c = hd (queue s)" "s1 = snd (take_char s)"
    using assms(1) by (simp_all add: reader_ok_def take_char_def Let_def)
  show ?thesis
    using kb_take_queue(2,3) [OF s(1,2)] s(2,3) take_char_fields [of s] unfolding r(2) s(4) by (simp add: reader_ok_def)
qed

section \<open>Runs\<close>

lemma run_delivers:
  "run r s es r' s' \<Longrightarrow> reader_ok r s \<Longrightarrow>
   \<exists>kept. returned es @ queue s' = queue s @ kept \<and>
     subseq kept (typed (shift_pressed s) (caps_lock s) (keys_of es)) \<and>
     (length (queue s) + length (typed (shift_pressed s) (caps_lock s) (keys_of es)) \<le> 255 \<longrightarrow>
       kept = typed (shift_pressed s) (caps_lock s) (keys_of es)) \<and> reader_ok r' s'"
proof (induction rule: run.induct)
  case (stop r s)
  then show ?case by simp
next
  case (silent r s r1 s1 es r' s')
  then show ?case using reader_ok_silent [OF silent.prems silent.hyps(2)] by simp
next
  case (return r s r1 s1 c es r' s')
  note t = reader_ok_return [OF return.prems return.hyps(1)]
  then show ?case using return.IH by auto
next
  case (key scancode s s1 r es r' s')
  have s1: "s1 = keyboard_interrupt scancode s" by (rule keyboard_interrupt_irq [OF key.hyps(1)])
  have v: "kb_valid s" using key.prems by (simp add: reader_ok_def)
  define cs where "cs = (if length (queue s) < 255 then char_of scancode s else [])"
  have q: "queue s1 = queue s @ cs" by (simp add: s1 cs_def interrupt_queue [OF v])
  have t: "typed (shift_pressed s) (caps_lock s) (scancode # keys_of es) =
      char_of scancode s @ typed (shift_pressed s1) (caps_lock s1) (keys_of es)"
    unfolding s1 by (rule interrupt_spec(3) [OF v])
  have sub: "subseq cs (char_of scancode s)" by (simp add: cs_def)
  have "reader_ok (wake r) s1" unfolding s1 by (rule reader_ok_interrupt [OF key.prems])
  from key.IH [OF this] obtain kept where k: "returned es @ queue s' = queue s1 @ kept"
    "subseq kept (typed (shift_pressed s1) (caps_lock s1) (keys_of es))"
    "length (queue s1) + length (typed (shift_pressed s1) (caps_lock s1) (keys_of es)) \<le> 255 \<longrightarrow>
       kept = typed (shift_pressed s1) (caps_lock s1) (keys_of es)" "reader_ok r' s'" by blast
  have "keys_of (Key scancode # es) = scancode # keys_of es" by simp
  moreover have "returned (Key scancode # es) @ queue s' = queue s @ cs @ kept" using k(1) q by simp
  moreover have "subseq (cs @ kept) (char_of scancode s @ typed (shift_pressed s1) (caps_lock s1) (keys_of es))"
    by (rule list_emb_append_mono [OF sub k(2)])
  moreover have "cs @ kept = char_of scancode s @ typed (shift_pressed s1) (caps_lock s1) (keys_of es)"
    if "length (queue s) + length (char_of scancode s @ typed (shift_pressed s1) (caps_lock s1) (keys_of es)) \<le> 255"
  proof -
    have "cs = char_of scancode s" using that by (cases "char_of scancode s") (auto simp: cs_def)
    then show ?thesis using that k(3) q by simp
  qed
  ultimately show ?case using k(4) unfolding t [symmetric] by metis
next
  case (tick dev s s1 r es r' s')
  then show ?case using tick_keyboard [OF tick.hyps(1)] reader_ok_tick [OF tick.prems tick.hyps(1)] by simp
qed

text \<open>Runs of the reader alone, up to its return.\<close>

lemma run_silent: "r \<noteq> Asleep \<Longrightarrow> reader_next r s = (r1, s, None) \<Longrightarrow> run r1 s es r' s' \<Longrightarrow> run r s es r' s'"
  by (rule run.silent)

lemma reader_finishes:
  assumes "kb_valid s" and "queue s = c # cs" and "reader_ok r s" and "r \<noteq> Halting" and "r \<noteq> Asleep"
  shows "\<exists>s'. run r s [Return c] Poll s'"
proof -
  let ?p = "buffer_read_pos s"
  have ne: "?p \<noteq> buffer_write_pos s" using queue_empty [OF assms(1)] assms(2) by auto
  have h: "keyboard_buffer s ! unat ?p = c"
    using kb_take_queue(1) [OF assms(1)] assms(2) by (simp add: take_char_def Let_def)
  have store: "\<exists>s'. run (Store c ?p) s [Return c] Poll s'"
    using run.return [of "Store c ?p" s Poll _ c "[]"] run.stop by (fastforce simp: reader_next_def)
  have advance: "\<exists>s'. run (Advance c) s [Return c] Poll s'"
    using store run_silent [of "Advance c" s "Store c ?p"] by (fastforce simp: reader_next_def)
  have index: "\<exists>s'. run (Index ?p) s [Return c] Poll s'"
    using advance run_silent [of "Index ?p" s "Advance c"] h by (fastforce simp: reader_next_def)
  have fetch: "\<exists>s'. run Fetch s [Return c] Poll s'"
    using index run_silent [of Fetch s "Index ?p"] by (fastforce simp: reader_next_def)
  have compare: "\<exists>s'. run (Compare ?p) s [Return c] Poll s'"
    using fetch run_silent [of "Compare ?p" s Fetch] ne by (fastforce simp: reader_next_def)
  have poll: "\<exists>s'. run Poll s [Return c] Poll s'"
    using compare run_silent [of Poll s "Compare ?p"] by (fastforce simp: reader_next_def)
  show ?thesis
    using assms store advance index fetch compare poll by (cases r) (auto simp: reader_ok_def)
qed

text \<open>A reader that is asleep, or about to be, does not return before an interrupt.\<close>

lemma asleep_stays: "run r s es r' s' \<Longrightarrow> r = Asleep \<or> r = Halting \<Longrightarrow> es = [] \<or> (\<forall>c. hd es \<noteq> Return c)"
  by (induction rule: run.induct) (auto simp: reader_next_def)

section \<open>Properties\<close>

text \<open>
  C16: With interrupts between any two accesses of the reader, the characters that the reads have
  returned, followed by those in the buffer, are the ones that were there and then those typed, in
  order: none is returned twice, and none is lost unless the buffer is full when it is typed; if
  all of them fit into 255 places, none is lost at all.
\<close>

theorem reader_race_free:
  assumes "run r s es r' s'" and "reader_ok r s"
  shows "\<exists>kept. returned es @ queue s' = queue s @ kept \<and>
    subseq kept (typed (shift_pressed s) (caps_lock s) (keys_of es)) \<and>
    (length (queue s) + length (typed (shift_pressed s) (caps_lock s) (keys_of es)) \<le> 255 \<longrightarrow>
      kept = typed (shift_pressed s) (caps_lock s) (keys_of es)) \<and> reader_ok r' s'"
  by (rule run_delivers [OF assms])

text \<open>A key that comes between the test and the \<open>hlt\<close>.\<close>

lemma key_before_hlt: "\<exists>s. run Poll boot_keyboard [Key 0x1E] Asleep s \<and> timer_frequency s = 100"
proof -
  let ?s = "keyboard_interrupt 0x1E boot_keyboard"
  have k: "irq_handler (\<lambda>_ _. 0x1E) 33 boot_keyboard = Inr ?s"
    by (simp add: keyboard_interrupt_def irq_handler_def Let_def)
  have p: "buffer_read_pos boot_keyboard = 0" "buffer_write_pos boot_keyboard = 0" by (simp_all add: boot_keyboard_def)
  have "run Halting ?s [] Asleep ?s"
    by (rule run.silent [OF _ _ run.stop]) (simp_all add: reader_next_def)
  then have "run Halting boot_keyboard [Key 0x1E] Asleep ?s"
    using run.key [OF k, of Halting "[]"] by (simp add: wake_def)
  then have "run (Compare 0) boot_keyboard [Key 0x1E] Asleep ?s"
    using run.silent [of "Compare 0" boot_keyboard Halting boot_keyboard] p by (simp add: reader_next_def)
  then have "run Poll boot_keyboard [Key 0x1E] Asleep ?s"
    using run.silent [of Poll boot_keyboard "Compare 0" boot_keyboard] p by (simp add: reader_next_def)
  moreover have "timer_frequency ?s = 100" by (simp add: interrupt_read_pos(2)) (simp add: boot_keyboard_def)
  ultimately show ?thesis by blast
qed

lemma boot_reader_ok: "reader_ok Poll boot_keyboard"
  by (simp add: reader_ok_def boot_keyboard_valid)

theorem reader_race_free_witness:
  "\<exists>s. run Poll boot_keyboard [Key 0x1E] Asleep s \<and> queue s = [0x61]"
proof -
  obtain s where s: "run Poll boot_keyboard [Key 0x1E] Asleep s" using key_before_hlt by blast
  have "typed False False [0x1E] = [0x61]" by (simp add: key_char_def scancode_to_ascii_def lit_def)
  then have "queue s = [0x61]"
    using reader_race_free [OF s boot_reader_ok] by (auto simp: boot_keyboard_valid)
  then show ?thesis using s by blast
qed

text \<open>
  C39: The wake-up that can be missed. When a character is in the buffer, a read returns it without
  further interrupts, unless it has already decided to sleep: a key that comes between the test
  of the buffer and the \<open>hlt\<close> does not end the sleep. It takes another interrupt, and the next
  tick is enough.
\<close>

theorem reader_needs_tick:
  assumes "reader_ok r s" and "queue s = c # cs" and "timer_frequency s \<noteq> 0"
  shows "if r = Halting \<or> r = Asleep
    then (\<exists>s'. run r s [Tick, Return c] Poll s') \<and> (\<forall>x es r' s'. \<not> run r s (Return x # es) r' s')
    else \<exists>s'. run r s [Return c] Poll s'"
proof (cases "r = Halting \<or> r = Asleep")
  case True
  have v: "kb_valid s" using assms(1) by (simp add: reader_ok_def)
  obtain s1 where s1: "irq_handler (\<lambda>_ _. 0) 32 s = Inr s1"
    using assms(3) by (simp add: irq_handler_def timer_handler_def Let_def)
  note t = tick_keyboard [OF s1]
  have "reader_ok Poll s1" "kb_valid s1" "queue s1 = c # cs" using t v assms(2) by (simp_all add: reader_ok_def)
  then obtain s' where "run Poll s1 [Return c] Poll s'" using reader_finishes [of s1 c cs Poll] by auto
  then have asleep: "run Asleep s [Tick, Return c] Poll s'" using run.tick [OF s1, of Asleep] by (simp add: wake_def)
  then have "run Halting s [Tick, Return c] Poll s'" using run.silent [of Halting s Asleep s] by (simp add: reader_next_def)
  then show ?thesis using True asleep asleep_stays by fastforce
next
  case False
  then show ?thesis using reader_finishes [OF _ assms(2,1)] assms(1) by (simp add: reader_ok_def)
qed

theorem reader_needs_tick_witness:
  "\<exists>s s'. run Poll boot_keyboard [Key 0x1E] Asleep s \<and> run Asleep s [Tick, Return 0x61] Poll s' \<and>
    (\<forall>x es r' s'. \<not> run Asleep s (Return x # es) r' s')"
proof -
  obtain s where s: "run Poll boot_keyboard [Key 0x1E] Asleep s" "timer_frequency s = 100" using key_before_hlt by blast
  have "typed False False [0x1E] = [0x61]" by (simp add: key_char_def scancode_to_ascii_def lit_def)
  then have q: "queue s = [0x61]" "reader_ok Asleep s"
    using run_delivers [OF s(1) boot_reader_ok] by (auto simp: boot_keyboard_valid)
  have "timer_frequency s \<noteq> 0" using s(2) by simp
  from reader_needs_tick [OF q(2,1) this] s(1) show ?thesis by auto
qed

end
