(* ===== verification/Heap_Print.thy ===== *)
theory Heap_Print
  imports Pmm
begin

text \<open>
  The reports of the heap (\<open>heap_print_info\<close>, \<open>heap_print_blocks\<close> and \<open>cmd_heapinfo\<close> of
  \<open>kmalloc.c\<close>) and of the memory map (\<open>cmd_meminfo\<close> of \<open>memory.c\<close>). They only print; the
  walk over the statistics is the one of \<open>heap_get_stats\<close>, so the report of a cyclic list would
  not return.
\<close>

definition blank_stats :: heap_stats where
  "blank_stats = \<lparr>stat_heap_start = 0, stat_heap_end = 0, stat_total_size = 0, stat_used_size = 0,
    stat_free_size = 0, stat_block_count = 0, stat_free_block_count = 0, stat_used_block_count = 0,
    stat_allocation_count = 0, stat_free_count = 0, stat_failed_allocs = 0\<rparr>"

definition used_percent :: "heap_stats \<Rightarrow> u64" where
  "used_percent stats =
    (if 0 < stat_total_size stats then stat_used_size stats * 100 div stat_total_size stats else 0)"

definition heap_bar :: "u64 \<Rightarrow> tcall list" where
  "heap_bar percent =
    (let bar_length = 30 :: u32; filled = ucast (percent * ucast bar_length div 100) :: u32
     in concat (map (\<lambda>i.
          if (of_nat i :: u32) < filled
          then [Color VGA_COLOR_GREEN, PutChar 0xDB]
          else [Color VGA_COLOR_DARK_GREY, PutChar SHADOW_CHAR]) [0..<unat bar_length]))"

definition heap_report :: "heap_stats \<Rightarrow> tcall list" where
  "heap_report stats =
    [Color VGA_COLOR_LIGHT_CYAN,
     Write (newline # lit ''|=====================================|'' @ [newline]),
     Write (lit ''|  INFORMACI'' @ [0xC3, 0x93] @ lit ''N DEL HEAP (Detallada)  |'' @ [newline]),
     Write (lit ''|=====================================|'' @ [newline, newline]),
     Color VGA_COLOR_LIGHT_GREEN, Line ''Memoria:'', Color VGA_COLOR_LIGHT_GREY,
     Text ''  Rango:      0x'', Hex (stat_heap_start stats), Text '' - 0x'', Hex (stat_heap_end stats), Line '''',
     Text ''  Total:      '', Dec (stat_total_size stats div 1024), Line '' KB'',
     Text ''  Usada:      '', Dec (stat_used_size stats div 1024), Text '' KB ('',
     Dec (stat_used_size stats), Line '' bytes)'',
     Text ''  Libre:      '', Dec (stat_free_size stats div 1024), Text '' KB ('',
     Dec (stat_free_size stats), Line '' bytes)'',
     Text ''  Uso:        '', Dec (used_percent stats), Line ''%'', Text ''  [''] @
    heap_bar (used_percent stats) @
    [Color VGA_COLOR_LIGHT_GREY, Line '']'',
     Color VGA_COLOR_LIGHT_GREEN, Write (newline # lit ''Bloques:'' @ [newline]), Color VGA_COLOR_LIGHT_GREY,
     Text ''  Total:      '', Dec (ucast (stat_block_count stats)), Line '''',
     Text ''  Usados:     '', Dec (ucast (stat_used_block_count stats)), Line '''',
     Text ''  Libres:     '', Dec (ucast (stat_free_block_count stats)), Line '''',
     Color VGA_COLOR_LIGHT_GREEN,
     Write (newline # lit ''Estad'' @ [0xC3, 0xAD] @ lit ''sticas:'' @ [newline]), Color VGA_COLOR_LIGHT_GREY,
     Text ''  Allocaciones: '', Dec (ucast (stat_allocation_count stats)), Line '''',
     Text ''  Liberaciones: '', Dec (ucast (stat_free_count stats)), Line '''',
     Text ''  Fallidas:     '', Dec (ucast (stat_failed_allocs stats)), Line ''''] @
    (if 0 < stat_free_block_count stats then
       [Write (lit ''  Tama'' @ [0xC3, 0xB1] @ lit ''o medio libre: ''),
        Dec (stat_free_size stats div ucast (stat_free_block_count stats)), Line '' bytes'']
     else [])"

definition heap_print_info :: "'a heap_scheme \<Rightarrow> 'a heap_scheme option" where
  "heap_print_info s =
    (if \<not> heap_initialized s
     then Some (emit [Color VGA_COLOR_LIGHT_RED, Line ''Heap no inicializado.''] s)
     else Option.bind (heap_get_stats blank_stats s) (\<lambda>stats. Some (emit (heap_report stats) s)))"

text \<open>The loop of \<open>heap_print_blocks\<close>: the calls it makes and the block it stops at.\<close>

definition block_line :: "u32 \<Rightarrow> u64 \<Rightarrow> mem \<Rightarrow> tcall list" where
  "block_line block_num current m =
    [Color VGA_COLOR_LIGHT_GREY, Text ''Bloque '', Dec (ucast block_num), Text '': 0x'', Hex current] @
    (if is_free (load_block m current) then [Color VGA_COLOR_GREEN, Text '' [LIBRE] '']
     else [Color VGA_COLOR_LIGHT_RED, Text '' [USADO] '']) @
    [Color VGA_COLOR_LIGHT_GREY, Dec (block_size (load_block m current)), Line '' bytes'']"

function print_walk :: "u64 \<Rightarrow> u32 \<Rightarrow> mem \<Rightarrow> tcall list \<Rightarrow> u64 \<times> tcall list" where
  "print_walk current block_num m out =
    (if current \<noteq> NULL \<and> block_num < 20 then
       if \<not> is_valid_block m current
       then (current, out @ [Color VGA_COLOR_LIGHT_RED, Line ''[CORRUPTO]''])
       else print_walk (next_block (load_block m current)) (block_num + 1) m
              (out @ block_line block_num current m)
     else (current, out))"
  by pat_completeness auto
termination
  by (relation "measure (\<lambda>(current, block_num, m, out). 20 - unat block_num)")
    (auto simp: word_less_nat_alt unat_word_ariths)

declare print_walk.simps [simp del]

definition heap_print_blocks :: "'a heap_scheme \<Rightarrow> 'a heap_scheme" where
  "heap_print_blocks s =
    (if \<not> heap_initialized s then emit [Line ''Heap no inicializado.''] s
     else
       let s = emit [Color VGA_COLOR_LIGHT_CYAN,
                     Write (newline # lit ''LISTA DE BLOQUES DEL HEAP:'' @ [newline]),
                     Line ''==========================''] s;
           (current, out) = print_walk (heap_head s) 0 (ram s) [];
           s = emit out s
       in if current \<noteq> NULL
          then emit [Write (lit ''... (m'' @ [0xC3, 0xA1] @ lit ''s bloques)'' @ [newline])] s
          else s)"

definition cmd_heapinfo :: "'a heap_scheme \<Rightarrow> 'a heap_scheme option" where
  "cmd_heapinfo s = heap_print_info s"

definition cmd_meminfo :: "'a memory_scheme \<Rightarrow> 'a memory_scheme" where
  "cmd_meminfo s = memory_print_info s"

end
