(* ===== verification/Shell.thy ===== *)
theory Shell
  imports Isr Heap_Print
begin

text \<open>
  The shell (\<open>shell.c\<close>, \<open>shell.h\<close>): the line editor, the in-place parser, the history, the
  dispatcher and the commands. The static buffers are lists of bytes, as long as the arrays; the
  pointers into \<open>parse_buffer\<close> are indices. A string that the code passes on is the list of its
  bytes without the NUL; \<open>strcmp(a, b) == 0\<close> is then equality, and
  \<open>strncmp(a, b, strlen(a)) == 0\<close> that \<open>a\<close> is a prefix of \<open>b\<close>.

  A command that never returns to the shell says so in its \<open>outcome\<close>: \<open>halt\<close> stops the
  processor, \<open>reboot\<close> ends in a nested call of \<open>shell_run\<close>. The command \<open>memtest\<close>, which the
  table of commands takes from another file, is a parameter here; \<open>Memory_Tests\<close> has it.
\<close>

section \<open>State\<close>

definition SHELL_BUFFER_SIZE :: nat where "SHELL_BUFFER_SIZE = 256"
definition SHELL_MAX_ARGS :: nat where "SHELL_MAX_ARGS = 8"
definition SHELL_HISTORY_SIZE :: int where "SHELL_HISTORY_SIZE = 10"

record shell = kernel +
  shell_buffer :: "u8 list"
  shell_buffer_pos :: u64
  parse_buffer :: "u8 list"
  shell_history :: "u8 list list"
  history_count :: int
  history_current :: int

text \<open>The string that starts at index \<open>p\<close> of a character array.\<close>

definition string_at :: "u8 list \<Rightarrow> nat \<Rightarrow> u8 list" where
  "string_at buf p = takeWhile (\<lambda>c. c \<noteq> 0) (drop p buf)"

text \<open>\<open>strcpy\<close> into a character array; \<open>None\<close>: it writes past the end of the array.\<close>

definition array_strcpy :: "u8 list \<Rightarrow> u8 list \<Rightarrow> u8 list option" where
  "array_strcpy buf s = (if length s < length buf then Some (s @ 0 # drop (length s + 1) buf) else None)"

section \<open>Command table\<close>

datatype command = Help | Clear | Echo | Uptime | Halt | History | Reboot | Meminfo | Heapinfo | Memtest | Kmalloc

definition shell_commands :: "(u8 list \<times> u8 list \<times> command) list" where
  "shell_commands =
    [(lit ''help'', lit ''Muestra informaci'' @ [0xC3, 0xB3] @ lit ''n sobre todos los comandos disponibles'', Help),
     (lit ''clear'', lit ''Limpia completamente la pantalla del terminal'', Clear),
     (lit ''echo'', lit ''Repite el texto ingresado como argumento'', Echo),
     (lit ''uptime'', lit ''Muestra el tiempo que el sistema ha estado activo'', Uptime),
     (lit ''halt'', lit ''Detiene el sistema de forma segura (apagar)'', Halt),
     (lit ''history'', lit ''Muestra el historial de comandos recientes'', History),
     (lit ''reboot'', lit ''Reinicia el sistema'', Reboot),
     (lit ''meminfo'', lit ''Muestra informaci'' @ [0xC3, 0xB3] @ lit ''n detallada de la memoria'', Meminfo),
     (lit ''heapinfo'', lit ''Muestra informaci'' @ [0xC3, 0xB3] @ lit ''n del heap del kernel'', Heapinfo),
     (lit ''memtest'', lit ''Ejecutar suite completa de tests de memoria'', Memtest),
     (lit ''kmalloc'', lit ''Alloc memory'', Kmalloc)]"

section \<open>History\<close>

text \<open>The loop that moves the entries down: \<open>strcpy(shell_history[i], shell_history[i+1])\<close>.\<close>

fun shift_history :: "nat list \<Rightarrow> u8 list list \<Rightarrow> u8 list list option" where
  "shift_history [] h = Some h"
| "shift_history (i # is) h =
    Option.bind (array_strcpy (h ! i) (string_at (h ! (i + 1)) 0)) (\<lambda>a. shift_history is (h[i := a]))"

definition shell_add_to_history :: "u8 list \<Rightarrow> 'a shell_scheme \<Rightarrow> 'a shell_scheme option" where
  "shell_add_to_history command s =
    (if length command = 0 then Some s
     else if 0 < history_count s \<and> string_at (shell_history s ! nat (history_count s - 1)) 0 = command then Some s
     else
       Option.bind
         (if SHELL_HISTORY_SIZE \<le> history_count s
          then Option.bind (shift_history [0..<nat (SHELL_HISTORY_SIZE - 1)] (shell_history s)) (\<lambda>h.
                 Some (s\<lparr>shell_history := h, history_count := history_count s - 1\<rparr>))
          else Some s)
         (\<lambda>s. Option.bind (array_strcpy (shell_history s ! nat (history_count s)) command) (\<lambda>a.
            let s = s\<lparr>shell_history := (shell_history s)[nat (history_count s) := a]\<rparr>;
                s = s\<lparr>history_count := history_count s + 1\<rparr>
            in Some (s\<lparr>history_current := history_count s\<rparr>))))"

definition shell_show_history :: "'a shell_scheme \<Rightarrow> 'a shell_scheme" where
  "shell_show_history s =
    (if history_count s = 0 then emit [Line ''No hay comandos en el historial.''] s
     else emit
       ([Color VGA_COLOR_LIGHT_CYAN,
         Write (lit ''Historial de comandos (m'' @ [0xC3, 0xA1] @ lit ''s reciente al final):'' @ [newline]),
         Line ''==============================================''] @
        concat (map (\<lambda>i.
          [Color VGA_COLOR_LIGHT_GREEN, Text ''  '', Dec (of_nat (i + 1)), Text ''. '',
           Color VGA_COLOR_LIGHT_GREY, Write (string_at (shell_history s ! i) 0), PutChar newline])
          [0..<nat (history_count s)])) s)"

section \<open>Initialisation and line editing\<close>

definition shell_init :: "'a shell_scheme \<Rightarrow> 'a shell_scheme" where
  "shell_init s =
    (let s = s\<lparr>shell_buffer_pos := 0\<rparr>;
         s = s\<lparr>shell_buffer := (shell_buffer s)[0 := 0]\<rparr>;
         s = s\<lparr>history_count := 0, history_current := -1\<rparr>
     in emit [Color VGA_COLOR_LIGHT_GREEN, Line ''Shell inicializado.'',
              Write (lit ''Escribe '' @ [39] @ lit ''help'' @ [39] @ lit '' para ver comandos disponibles.'' @ [newline, newline])] s)"

definition shell_show_prompt :: "'a shell_scheme \<Rightarrow> 'a shell_scheme" where
  "shell_show_prompt s = emit
    [Color VGA_COLOR_LIGHT_CYAN, Write (newline # lit ''-[''), Color VGA_COLOR_LIGHT_GREEN, Text ''AlvOS'',
     Color VGA_COLOR_LIGHT_CYAN, Line '']'', Text ''$ '', Color VGA_COLOR_LIGHT_GREY] s"

text \<open>A key other than Enter.\<close>

definition edit_key :: "u8 \<Rightarrow> 'a shell_scheme \<Rightarrow> 'a shell_scheme" where
  "edit_key c s =
    (if c = backspace then
       (if 0 < shell_buffer_pos s then
          let s = s\<lparr>shell_buffer_pos := shell_buffer_pos s - 1\<rparr>;
              s = s\<lparr>shell_buffer := (shell_buffer s)[unat (shell_buffer_pos s) := 0]\<rparr>
          in emit [PutChar backspace, PutChar blank, PutChar backspace] s
        else s)
     else if shell_buffer_pos s < of_nat (SHELL_BUFFER_SIZE - 1) \<and> 32 \<le> c \<and> c \<le> 126 then
       let s = s\<lparr>shell_buffer := (shell_buffer s)[unat (shell_buffer_pos s) := c]\<rparr>;
           s = s\<lparr>shell_buffer_pos := shell_buffer_pos s + 1\<rparr>;
           s = s\<lparr>shell_buffer := (shell_buffer s)[unat (shell_buffer_pos s) := 0]\<rparr>
       in emit [PutChar c] s
     else s)"

definition enter_key :: "'a shell_scheme \<Rightarrow> 'a shell_scheme option" where
  "enter_key s =
    (let s = emit [PutChar newline] s;
         s = s\<lparr>shell_buffer := (shell_buffer s)[unat (shell_buffer_pos s) := 0]\<rparr>;
         line = string_at (shell_buffer s) 0
     in if 0 < length line then shell_add_to_history line s else Some s)"

partial_function (option) readline_loop ::
  "u8 list \<Rightarrow> 'a shell_scheme \<Rightarrow> (u8 list \<times> 'a shell_scheme) option" where
  "readline_loop pending s =
    Option.bind (keyboard_getchar pending s) (\<lambda>(c, pending, s).
      if c = newline then Option.bind (enter_key s) (\<lambda>s. Some (pending, s))
      else readline_loop pending (edit_key c s))"

text \<open>
  \<open>pending\<close> are the scancodes of the keyboard interrupts to come; the result has those left over.
  \<open>None\<close>: the line is never completed.
\<close>

definition shell_readline :: "u8 list \<Rightarrow> 'a shell_scheme \<Rightarrow> (u8 list \<times> u8 list \<times> 'a shell_scheme) option" where
  "shell_readline pending s =
    (let s = s\<lparr>shell_buffer_pos := 0\<rparr>;
         s = s\<lparr>shell_buffer := (shell_buffer s)[0 := 0]\<rparr>;
         s = shell_show_prompt s
     in Option.bind (readline_loop pending s) (\<lambda>(pending, s). Some (string_at (shell_buffer s) 0, pending, s)))"

section \<open>Parsing\<close>

abbreviation quote :: u8 where "quote \<equiv> 34"

function skip_spaces :: "u8 list \<Rightarrow> nat \<Rightarrow> nat" where
  "skip_spaces buf p = (if p < length buf \<and> buf ! p = blank then skip_spaces buf (p + 1) else p)"
  by pat_completeness auto
termination by (relation "measure (\<lambda>(buf, p). length buf - p)") auto

function find_end :: "u8 \<Rightarrow> u8 list \<Rightarrow> nat \<Rightarrow> nat" where
  "find_end delim buf p =
    (if p < length buf \<and> buf ! p \<noteq> 0 \<and> buf ! p \<noteq> delim then find_end delim buf (p + 1) else p)"
  by pat_completeness auto
termination by (relation "measure (\<lambda>(delim, buf, p). length buf - p)") auto

declare skip_spaces.simps [simp del] find_end.simps [simp del]

lemma find_end_ge: "p \<le> find_end delim buf p"
proof (induction delim buf p rule: find_end.induct)
  case (1 delim buf p)
  then show ?case by (subst find_end.simps) auto
qed

lemma skip_spaces_ge: "p \<le> skip_spaces buf p"
proof (induction buf p rule: skip_spaces.induct)
  case (1 buf p)
  then show ?case by (subst skip_spaces.simps) auto
qed

text \<open>
  The body of the parser's loop: the argument that starts at \<open>p\<close>, terminated in place, and the
  position after it.
\<close>

definition parse_arg :: "u8 list \<Rightarrow> nat \<Rightarrow> u8 list \<times> nat \<times> nat" where
  "parse_arg buf p =
    (let delim = (if buf ! p = quote then quote else blank);
         start = (if buf ! p = quote then p + 1 else p);
         p = find_end delim buf start
     in if p < length buf \<and> buf ! p = delim then (buf[p := 0], start, p + 1) else (buf, start, p))"

lemma parse_arg_progress:
  assumes "p < length buf" and "parse_arg buf p = (buf', start, p')" and "buf ! p \<noteq> 0"
  shows "p < p'" "length buf' = length buf"
proof -
  have "p < find_end blank buf p" if "buf ! p \<noteq> blank"
    using find_end_ge [of "p + 1" blank buf] that assms(1,3) by (subst find_end.simps) simp
  moreover have "find_end blank buf p = p" if "buf ! p = blank"
    using that by (subst find_end.simps) simp
  ultimately have "p < (if find_end blank buf p < length buf \<and> buf ! find_end blank buf p = blank
      then find_end blank buf p + 1 else find_end blank buf p)"
    using assms(1) by (cases "buf ! p = blank") (simp_all split: if_splits)
  then show "p < p'" "length buf' = length buf"
    using assms find_end_ge [of "p + 1" quote buf]
    by (auto simp: parse_arg_def Let_def split: if_splits)
qed

function parse_loop :: "u8 list \<Rightarrow> nat \<Rightarrow> nat list \<Rightarrow> u8 list \<times> nat list" where
  "parse_loop buf p argv =
    (if p < length buf \<and> buf ! p \<noteq> 0 \<and> length argv < SHELL_MAX_ARGS then
       let (buf', start, p') = parse_arg buf p;
           argv' = (if 0 < length (string_at buf' start) then argv @ [start] else argv)
       in parse_loop buf' (skip_spaces buf' p') argv'
     else (buf, argv))"
  by pat_completeness auto
termination
proof (relation "measure (\<lambda>(buf, p, argv). length buf - p)", goal_cases)
  case 1
  then show ?case by simp
next
  case (2 buf p argv x buf' y start p' argv')
  then have "p < p'" "length buf' = length buf"
    using parse_arg_progress [of p buf buf' start p'] by auto
  then show ?case using skip_spaces_ge [of p' buf'] 2(1) by auto
qed

declare parse_loop.simps [simp del]

text \<open>\<open>None\<close>: the input does not fit into \<open>parse_buffer\<close>. The arguments are indices into it.\<close>

definition shell_parse_command :: "u8 list \<Rightarrow> 'a shell_scheme \<Rightarrow> (nat list \<times> 'a shell_scheme) option" where
  "shell_parse_command input s =
    Option.bind (array_strcpy (parse_buffer s) input) (\<lambda>buf.
      let (buf, argv) = parse_loop buf (skip_spaces buf 0) []
      in Some (argv, s\<lparr>parse_buffer := buf\<rparr>))"

section \<open>Commands\<close>

datatype 's outcome =
    Returned 's
  | Halted 's
  | Rerun 's
  | Fault cpu_exception

definition shell_cmd_help :: "u8 list list \<Rightarrow> 'a shell_scheme \<Rightarrow> 'a shell_scheme" where
  "shell_cmd_help argv s =
    (if length argv = 1 then
       emit
         ([Color VGA_COLOR_LIGHT_CYAN, Line ''COMANDOS DISPONIBLES'', Line ''======================='',
           Write (lit ''Escribe '' @ [39] @ lit ''help <comando>'' @ [39] @ lit '' para informaci'' @ [0xC3, 0xB3] @
             lit ''n detallada.'' @ [newline, newline])] @
          concat (map (\<lambda>(name, description, f).
            let spaces = (if 12 - int (length name) < 1 then 1 else 12 - int (length name))
            in [Color VGA_COLOR_LIGHT_GREEN, Text ''  '', Write name] @
               replicate (nat spaces) (PutChar blank) @
               [Color VGA_COLOR_LIGHT_GREY, Text ''- '', Write description, PutChar newline]) shell_commands)) s
     else if length argv = 2 then
       (case List.find (\<lambda>(name, description, f). argv ! 1 = name) shell_commands of
          Some (name, description, f) \<Rightarrow>
            emit
              ([Color VGA_COLOR_LIGHT_CYAN, Text ''AYUDA DETALLADA: '', Write name, Line '''',
                Line ''==================================='',
                Color VGA_COLOR_LIGHT_GREEN, Write (lit ''Descripci'' @ [0xC3, 0xB3] @ lit ''n: ''),
                Color VGA_COLOR_LIGHT_GREY, Write description, Line '''',
                Color VGA_COLOR_LIGHT_GREEN, Text ''Uso: '', Color VGA_COLOR_LIGHT_GREY, Write name] @
               (if name = lit ''echo'' then [Line '' <texto>'', Line ''   Ejemplo: echo Hola Mundo'']
                else if name = lit ''uptime''
                then [Line '''', Line ''   Muestra el tiempo del sistema en segundos y formato HH:MM:SS'']
                else [])) s
        | None \<Rightarrow>
            emit [Color VGA_COLOR_LIGHT_RED,
                  Write (lit ''No se encontr'' @ [0xC3, 0xB3] @ lit '' ayuda para el comando '' @ [39]),
                  Write (argv ! 1), Write [39, newline]] s)
     else emit [Color VGA_COLOR_LIGHT_RED, Line ''Uso incorrecto. Formato: help [comando]''] s)"

definition shell_cmd_clear :: "'a shell_scheme \<Rightarrow> 'a shell_scheme" where
  "shell_cmd_clear s =
    emit [Initialize, Color VGA_COLOR_LIGHT_GREY, Write (lit ''Pantalla limpiada.'' @ [newline, newline])] s"

definition shell_cmd_echo :: "u8 list list \<Rightarrow> 'a shell_scheme \<Rightarrow> 'a shell_scheme" where
  "shell_cmd_echo argv s =
    (if length argv < 2 then emit [Line ''''] s
     else emit
       (concat (map (\<lambda>i. Write (argv ! i) # (if i < length argv - 1 then [PutChar blank] else []))
          [1..<length argv]) @ [PutChar newline]) s)"

definition two_digits :: "u64 \<Rightarrow> tcall list" where
  "two_digits v = (if v < 10 then [PutChar 48] else []) @ [Dec v]"

definition shell_cmd_uptime :: "'a shell_scheme \<Rightarrow> 'a shell_scheme" where
  "shell_cmd_uptime s =
    (let ticks = timer_get_ticks s;
         seconds = ticks div 100;
         hours = seconds div 3600;
         minutes = seconds mod 3600 div 60;
         secs = seconds mod 60
     in emit
       ([Color VGA_COLOR_LIGHT_CYAN, Line ''TIEMPO DE ACTIVIDAD DEL SISTEMA'',
         Line ''=================================='',
         Color VGA_COLOR_LIGHT_GREEN, Text ''Segundos: '', Color VGA_COLOR_LIGHT_GREY, Dec seconds,
         Line '' segundos'',
         Color VGA_COLOR_LIGHT_GREEN, Text ''Formateado: '', Color VGA_COLOR_LIGHT_GREY] @
        two_digits hours @ [PutChar 58] @ two_digits minutes @ [PutChar 58] @ two_digits secs @
        [PutChar newline]) s)"

definition shell_cmd_halt :: "'a shell_scheme \<Rightarrow> 'a shell_scheme" where
  "shell_cmd_halt s =
    cli (emit
      [Color VGA_COLOR_LIGHT_RED, Write (newline # lit ''DETENIENDO EL SISTEMA'' @ [newline]),
       Line ''======================='',
       Write (lit ''El sistema se est'' @ [0xC3, 0xA1] @ lit '' apagando de forma segura...'' @ [newline]),
       Write (lit ''Puedes cerrar QEMU o reiniciar la m'' @ [0xC3, 0xA1] @ lit ''quina virtual.'' @ [newline, newline])] s)"

definition shell_cmd_history :: "'a shell_scheme \<Rightarrow> 'a shell_scheme" where
  "shell_cmd_history s = shell_show_history s"

text \<open>The countdown of \<open>reboot\<close>, then \<open>shell_init\<close>; the call of \<open>shell_run\<close> is the outcome \<open>Rerun\<close>.\<close>

fun countdown :: "nat list \<Rightarrow> 'a shell_scheme \<Rightarrow> cpu_exception + 'a shell_scheme" where
  "countdown [] s = Inr s"
| "countdown (i # is) s =
    (case timer_wait 1000 (emit [Text ''Reiniciando en '', Dec (of_nat i), Line ''...''] s) of
       Inl e \<Rightarrow> Inl e
     | Inr s \<Rightarrow> countdown is s)"

definition shell_cmd_reboot :: "'a shell_scheme \<Rightarrow> 'a shell_scheme outcome" where
  "shell_cmd_reboot s =
    (let s = emit [Color VGA_COLOR_LIGHT_GREEN, Write (newline # lit ''REINICIANDO EL SISTEMA'' @ [newline]),
                   Line ''========================'', Line ''El sistema se reiniciara...''] s
     in case countdown [3, 2, 1] s of
          Inl e \<Rightarrow> Fault e
        | Inr s \<Rightarrow> Rerun (shell_init (emit [Line ''Reiniciando ahora...'', Initialize] s)))"

definition shell_cmd_meminfo :: "'a shell_scheme \<Rightarrow> 'a shell_scheme" where
  "shell_cmd_meminfo s = cmd_meminfo s"

definition shell_cmd_heapinfo :: "'a shell_scheme \<Rightarrow> 'a shell_scheme option" where
  "shell_cmd_heapinfo s = cmd_heapinfo s"

definition shell_cmd_kmalloc :: "'a shell_scheme \<Rightarrow> 'a shell_scheme option" where
  "shell_cmd_kmalloc s =
    Option.bind (kmalloc 1048576 s) (\<lambda>(ptr, s).
      Some (emit [Color VGA_COLOR_LIGHT_GREEN, Text ''Allocated memory at address: 0x'', Hex ptr,
                  PutChar newline] s))"

section \<open>Dispatch and main loop\<close>

type_synonym 'a memtest = "'a shell_scheme \<Rightarrow> (cpu_exception + 'a shell_scheme) option"

definition run_command ::
  "'a memtest \<Rightarrow> command \<Rightarrow> u8 list list \<Rightarrow> 'a shell_scheme \<Rightarrow> 'a shell_scheme outcome option" where
  "run_command memtest cmd argv s =
    (case cmd of
       Help \<Rightarrow> Some (Returned (shell_cmd_help argv s))
     | Clear \<Rightarrow> Some (Returned (shell_cmd_clear s))
     | Echo \<Rightarrow> Some (Returned (shell_cmd_echo argv s))
     | Uptime \<Rightarrow> Some (Returned (shell_cmd_uptime s))
     | Halt \<Rightarrow> Some (Halted (shell_cmd_halt s))
     | History \<Rightarrow> Some (Returned (shell_cmd_history s))
     | Reboot \<Rightarrow> Some (shell_cmd_reboot s)
     | Meminfo \<Rightarrow> Some (Returned (shell_cmd_meminfo s))
     | Heapinfo \<Rightarrow> map_option Returned (shell_cmd_heapinfo s)
     | Memtest \<Rightarrow> map_option (case_sum Fault Returned) (memtest s)
     | Kmalloc \<Rightarrow> map_option Returned (shell_cmd_kmalloc s))"

text \<open>The names of which \<open>name\<close> is a prefix, separated by commas.\<close>

definition similar_commands :: "u8 list \<Rightarrow> u8 list list" where
  "similar_commands name = map fst (filter (\<lambda>(n, d, f). take (length name) n = name) shell_commands)"

definition suggestions :: "u8 list \<Rightarrow> tcall list" where
  "suggestions name =
    (let found = similar_commands name
     in if found = [] then [Text ''ninguno encontrado'']
        else Write (hd found) # concat (map (\<lambda>n. [Text '', '', Write n]) (tl found)))"

definition unknown_command :: "u8 list \<Rightarrow> tcall list" where
  "unknown_command name =
    [Color VGA_COLOR_LIGHT_RED, Write (lit ''Error: El comando '' @ [39]), Write name,
     Write (39 # lit '' no existe.'' @ [newline]),
     Color VGA_COLOR_LIGHT_CYAN,
     Write (lit ''Sugerencia: Escribe '' @ [39] @ lit ''help'' @ [39] @
       lit '' para ver todos los comandos disponibles.'' @ [newline]),
     Text ''Comandos similares: ''] @ suggestions name @ [PutChar newline]"

definition shell_execute_command ::
  "'a memtest \<Rightarrow> u8 list \<Rightarrow> 'a shell_scheme \<Rightarrow> 'a shell_scheme outcome option" where
  "shell_execute_command memtest input s =
    (if dropWhile (\<lambda>c. c = blank) input = [] then Some (Returned s)
     else Option.bind (shell_parse_command input s) (\<lambda>(argv, s).
       if argv = [] then Some (Returned s)
       else
         let args = map (string_at (parse_buffer s)) argv
         in case List.find (\<lambda>(name, description, f). args ! 0 = name) shell_commands of
              Some (name, description, f) \<Rightarrow> run_command memtest f args s
            | None \<Rightarrow> Some (Returned (emit (unknown_command (args ! 0)) s))))"

text \<open>
  The main loop, which a divide error (\<open>Inl\<close>) or \<open>halt\<close> (\<open>Inr\<close>) ends; otherwise it waits for
  input for ever (\<open>None\<close>).
\<close>

definition shell_greeting :: "tcall list" where
  "shell_greeting =
    [Color VGA_COLOR_LIGHT_GREEN, Write (newline # lit ''Sistema listo. Shell interactivo iniciado.'' @ [newline]),
     Write (lit ''Escribe '' @ [39] @ lit ''help'' @ [39] @ lit '' para comenzar.'' @ [newline, newline])]"

partial_function (option) shell_loop ::
  "'a memtest \<Rightarrow> u8 list \<Rightarrow> 'a shell_scheme \<Rightarrow> (cpu_exception + 'a shell_scheme) option" where
  "shell_loop memtest pending s =
    Option.bind (shell_readline pending s) (\<lambda>(input, pending, s).
      Option.bind (shell_execute_command memtest input s) (\<lambda>r.
        case r of
          Returned s \<Rightarrow> shell_loop memtest pending s
        | Halted s \<Rightarrow> Some (Inr s)
        | Rerun s \<Rightarrow> shell_loop memtest pending (emit shell_greeting s)
        | Fault e \<Rightarrow> Some (Inl e)))"

definition shell_run :: "'a memtest \<Rightarrow> u8 list \<Rightarrow> 'a shell_scheme \<Rightarrow> (cpu_exception + 'a shell_scheme) option" where
  "shell_run memtest pending s = shell_loop memtest pending (emit shell_greeting s)"

end
