(* ===== verification/Kernel_Main.thy ===== *)
theory Kernel_Main
  imports Shell
begin

text \<open>
  The boot sequence (\<open>kernel_main\<close> and its helpers in \<open>kernel.c\<close>). What is not C code under
  \<open>src/\<close> is a parameter: the device and the addresses of the descriptor table and of the assembly stubs.
  \<open>run_test_suite\<close> and the shell's \<open>memtest\<close> are arguments; \<open>Test_Suite\<close> and
  \<open>Memory_Tests\<close> have them. Interrupts are delivered where the code waits for them: keyboard
  interrupts in \<open>keyboard_getchar\<close>, ticks in \<open>timer_wait\<close>.
\<close>

section \<open>The multiboot dump\<close>

definition MULTIBOOT2_BOOTLOADER_MAGIC :: u32 where "MULTIBOOT2_BOOTLOADER_MAGIC = 0x36d76289"

definition debug_tag :: "u64 \<Rightarrow> 'a memory_scheme \<Rightarrow> 'a memory_scheme option" where
  "debug_tag tag s =
    (let ty = tag_type (ram s) tag
     in if ty = MULTIBOOT_TAG_TYPE_CMDLINE
        then emit_string (Text ''         -> CMDLINE: '') (tag + 8) s
        else if ty = MULTIBOOT_TAG_TYPE_BOOT_LOADER_NAME
        then emit_string (Text ''         -> BOOTLOADER: '') (tag + 8) s
        else if ty = MULTIBOOT_TAG_TYPE_BASIC_MEMINFO
        then Some (emit [Text ''         -> BASIC_MEMINFO: '', Dec (ucast (load32 (ram s) (tag + 8))),
                         Text ''KB baja, '', Dec (ucast (load32 (ram s) (tag + 12))), Line ''KB alta''] s)
        else if ty = MULTIBOOT_TAG_TYPE_MMAP
        then Some (emit [Line ''         -> MMAP (mapa de memoria)''] s)
        else Some (emit [Line ''         -> Tipo desconocido''] s))"

partial_function (option) debug_loop ::
  "u64 \<Rightarrow> u64 \<Rightarrow> u32 \<Rightarrow> 'a memory_scheme \<Rightarrow> (u32 \<times> 'a memory_scheme) option" where
  "debug_loop tag limit tag_count s =
    (if tag_type (ram s) tag \<noteq> MULTIBOOT_TAG_TYPE_END \<and> tag < limit then
       let s = emit [Text ''      Tag '', Dec (scast tag_count), Text '': tipo=0x'',
                     Hex (ucast (tag_type (ram s) tag)), Write (lit '', tama'' @ [0xC3, 0xB1] @ lit ''o=''),
                     Dec (ucast (tag_size (ram s) tag)), Line ''''] s
       in Option.bind (debug_tag tag s) (\<lambda>s.
            debug_loop (tag + tag_step (tag_size (ram s) tag)) limit (tag_count + 1) s)
     else Some (tag_count, s))"

definition debug_multiboot_info :: "u32 \<Rightarrow> u32 \<Rightarrow> 'a memory_scheme \<Rightarrow> 'a memory_scheme option" where
  "debug_multiboot_info magic_number multiboot_info s =
    (let s = emit [Color VGA_COLOR_LIGHT_BROWN, Line ''DEBUG MULTIBOOT2:'', Text ''   Magic recibido: 0x'',
                   Hex (ucast magic_number), Text '' (esperado: 0x'',
                   Hex (ucast MULTIBOOT2_BOOTLOADER_MAGIC), Line '')''] s
     in if magic_number \<noteq> MULTIBOOT2_BOOTLOADER_MAGIC
        then Some (emit [Line ''Magic number incorrecto!''] s)
        else if multiboot_info = 0 then Some (emit [Line ''   multiboot_info es NULL''] s)
        else if multiboot_info AND 7 \<noteq> 0
        then Some (emit [Text ''Puntero no alineado: 0x'', Hex (ucast multiboot_info), Line ''''] s)
        else
          let total_size = load32 (ram s) (ucast multiboot_info);
              s = emit [Write (lit ''   Tama'' @ [0xC3, 0xB1] @ lit ''o total: ''), Dec (ucast total_size),
                        Line '' bytes'', Line ''   Tags encontrados:''] s
          in Option.bind (debug_loop (ucast (multiboot_info + 8)) (ucast multiboot_info + ucast total_size) 0 s)
               (\<lambda>(tag_count, s). Some (emit [Text ''   Total tags: '', Dec (scast tag_count), Line ''''] s)))"

section \<open>The largest available region\<close>

text \<open>The pair of the largest length and its base; the first entry of that length wins.\<close>

definition larger_region :: "memory_map_entry \<Rightarrow> u64 \<times> u64 \<Rightarrow> u64 \<times> u64" where
  "larger_region e = (\<lambda>(largest_size, largest_base).
    if entry_type e = MULTIBOOT_MEMORY_AVAILABLE \<and> largest_size < entry_length e
    then (entry_length e, base_addr e) else (largest_size, largest_base))"

definition find_available_memory_region :: "'a memory_scheme \<Rightarrow> u64 \<times> u64" where
  "find_available_memory_region s = fold larger_region (entries (memory_get_info s)) (0, 0)"

section \<open>The boot sequence\<close>

definition kernel_banner :: "tcall list" where
  "kernel_banner =
    [Initialize, Color VGA_COLOR_LIGHT_CYAN,
     Line ''==================================='', Line ''  Sistema Operativo 64-bit v0.4'',
     Line ''    Multiboot2'', Write (lit ''==================================='' @ [newline, newline])]"

text \<open>The memory for the frame allocator: the largest region, or the fallback.\<close>

definition choose_memory :: "'a memory_scheme \<Rightarrow> u64 \<times> u64 \<times> 'a memory_scheme" where
  "choose_memory s =
    (let (memory_size, memory_base) = find_available_memory_region s
     in if memory_base = 0 \<or> memory_size < 2 * 1024 * 1024 then
          let s = emit [Color VGA_COLOR_LIGHT_RED,
                        Write (lit ''[ERR] No se encontr'' @ [0xC3, 0xB3] @ lit '' memoria disponible suficiente'' @ [newline])] s;
              memory_base = 0x100000;
              memory_size = 64 * 1024 * 1024
          in (memory_base, memory_size,
              emit [Text ''[WARN] Usando memoria fallback: '', Dec (memory_size div (1024 * 1024)), Line '' MB''] s)
        else (memory_base, memory_size,
              emit [Text ''[OK] Memoria detectada: '', Dec (memory_size div (1024 * 1024)), Line '' MB disponible''] s))"

record boot_env =
  env_device :: device
  env_idt_addr :: u64
  env_isr_addr :: "nat \<Rightarrow> u64"
  env_irq_addr :: "nat \<Rightarrow> u64"

text \<open>From the detection of memory to the installation of the keyboard and the shell.\<close>

definition boot_devices :: "boot_env \<Rightarrow> u64 \<Rightarrow> u64 \<Rightarrow> 'a shell_scheme \<Rightarrow> cpu_exception + 'a shell_scheme" where
  "boot_devices env memory_base memory_size s =
    (let s = emit [Line ''[OK] IDT inicializada''] (idt_install (env_idt_addr env) s);
         s = isr_install (env_device env) (env_isr_addr env) (env_irq_addr env) s;
         s = emit [Line ''[OK] ISRs instalados (excepciones)'', Line ''[OK] IRQs instalados (hardware)'',
                   Line ''[OK] PIC remapeado'', Line ''[OK] Interrupciones habilitadas''] s;
         s = pmm_init memory_base memory_size s;
         s = emit [Line ''[OK] Heap del kernel inicializado''] (heap_init s)
     in case timer_install (env_device env) 100 s of
          Inl e \<Rightarrow> Inl e
        | Inr s \<Rightarrow>
            let s = emit [Line ''[OK] Timer PIT configurado (100 Hz)''] s;
                s = emit [Line ''[OK] Teclado PS/2 inicializado''] (keyboard_install (env_device env) s)
            in Inr (memory_print_info (shell_init s)))"

definition boot_prompt :: "tcall list" where
  "boot_prompt =
    [Color VGA_COLOR_LIGHT_GREY,
     Write (newline # [0xC2, 0xBF] @ lit ''Ejecutar suite de pruebas? (s/n): '')]"

text \<open>
  \<open>Returned\<close>: \<open>kernel_main\<close> returns to the boot code. \<open>None\<close>: the system runs for ever,
  waiting for input.
\<close>

type_synonym 'a test_suite = "u8 list \<Rightarrow> 'a shell_scheme \<Rightarrow> (cpu_exception + u8 list \<times> 'a shell_scheme) option"

definition kernel_main ::
  "boot_env \<Rightarrow> 'a test_suite \<Rightarrow> 'a memtest \<Rightarrow> u32 \<Rightarrow> u32 \<Rightarrow> u8 list \<Rightarrow> 'a shell_scheme \<Rightarrow> 'a shell_scheme outcome option" where
  "kernel_main env run_test_suite memtest magic_number multiboot_info pending s =
    Option.bind (debug_multiboot_info magic_number multiboot_info (emit kernel_banner s)) (\<lambda>s.
      let s = emit [Line ''''] s
      in if magic_number \<noteq> MULTIBOOT2_BOOTLOADER_MAGIC then
           Some (Returned (emit [Color VGA_COLOR_LIGHT_RED, Text ''Error: Magic number incorrecto: 0x'',
                                 Hex (ucast magic_number), Line ''''] s))
         else if multiboot_info AND 7 \<noteq> 0 then
           Some (Returned (emit [Color VGA_COLOR_LIGHT_RED, Line ''Error: Puntero Multiboot no alineado''] s))
         else
           let s = emit [Color VGA_COLOR_LIGHT_GREEN, Line ''[OK] Modo largo activado (64-bit)'',
                         Line ''[OK] Paginacion configurada'', Line ''[OK] Terminal VGA inicializado'',
                         Line ''[..] Detectando memoria...''] s
           in Option.bind (memory_detect multiboot_info s) (\<lambda>s.
                let (memory_base, memory_size, s) = choose_memory s
                in case boot_devices env memory_base memory_size s of
                     Inl e \<Rightarrow> Some (Fault e)
                   | Inr s \<Rightarrow>
                       Option.bind (keyboard_getchar pending (emit boot_prompt s)) (\<lambda>(response, pending, s).
                         let s = emit [Write [newline, newline]] s
                         in Option.bind
                              (if response = 115 \<or> response = 83
                               then map_option (map_sum id (map_prod id
                                      (emit [Write (newline # lit ''Tests completados.'' @ [newline, newline])])))
                                      (run_test_suite pending s)
                               else Some (Inr (pending, s)))
                              (\<lambda>r. case r of
                                 Inl e \<Rightarrow> Some (Fault e)
                               | Inr (pending, s) \<Rightarrow>
                                   map_option (case_sum Fault Halted) (shell_run memtest pending s)))))"

end
