(* ===== verification/Multiboot_Claims.thy ===== *)
theory Multiboot_Claims
  imports Pmm_Claims Kernel_Main
begin

text \<open>
  What \<open>memory_detect\<close> makes of the structure that the boot loader leaves in RAM: the specification
  reads the tags as a list, and the walk over the bytes is proved to compute it.
\<close>

section \<open>The structure as a list of tags\<close>

text \<open>The entries of a memory map: the addresses from \<open>p\<close> on, a stride apart, below the limit.\<close>

fun entry_chain :: "u64 \<Rightarrow> u64 \<Rightarrow> u64 \<Rightarrow> u64 list \<Rightarrow> bool" where
  "entry_chain stride limit p [] \<longleftrightarrow> \<not> p < limit"
| "entry_chain stride limit p (q # qs) \<longleftrightarrow> q = p \<and> p < limit \<and> entry_chain stride limit (p + stride) qs"

text \<open>The tags from \<open>p\<close> on, each with the addresses of its memory map entries.\<close>

fun tag_chain :: "mem \<Rightarrow> u64 \<Rightarrow> u64 \<Rightarrow> (u64 \<times> u64 list) list \<Rightarrow> bool" where
  "tag_chain m limit p [] \<longleftrightarrow> tag_type m p = MULTIBOOT_TAG_TYPE_END \<or> \<not> p < limit"
| "tag_chain m limit p ((t, qs) # ts) \<longleftrightarrow>
    t = p \<and> tag_type m p \<noteq> MULTIBOOT_TAG_TYPE_END \<and> p < limit \<and>
    (tag_type m p = MULTIBOOT_TAG_TYPE_MMAP \<longrightarrow>
      entry_chain (ucast (load32 m (p + 8))) (p + ucast (tag_size m p)) (p + 16) qs) \<and>
    (tag_type m p \<in> {MULTIBOOT_TAG_TYPE_CMDLINE, MULTIBOOT_TAG_TYPE_BOOT_LOADER_NAME} \<longrightarrow>
      strlen m (p + 8) \<noteq> None) \<and>
    tag_chain m limit (p + tag_step (tag_size m p)) ts"

definition add_info :: "memory_map_entry \<Rightarrow> memory_info \<Rightarrow> memory_info" where
  "add_info e i =
    (if length (entries i) < 256 then
       i\<lparr>entries := entries i @ [e], total_memory := total_memory i + entry_length e,
         available_memory := (if entry_type e = 1 then available_memory i + entry_length e
                              else available_memory i)\<rparr>
     else i)"

definition map_of_tag :: "mem \<Rightarrow> u64 \<times> u64 list \<Rightarrow> memory_map_entry list" where
  "map_of_tag m = (\<lambda>(t, qs). if tag_type m t = 6 then map (load_mmap_entry m) qs else [])"

definition tag_info :: "mem \<Rightarrow> u64 \<times> u64 list \<Rightarrow> memory_info \<Rightarrow> memory_info" where
  "tag_info m t i =
    (if tag_type m (fst t) = 4 then
       let kib = ucast (load32 m (fst t + 8) * 1024) + ucast (load32 m (fst t + 12) * 1024)
       in i\<lparr>total_memory := kib, available_memory := kib\<rparr>
     else fold add_info (map_of_tag m t) i)"

section \<open>The walk computes it\<close>

lemma walk_keeps [simp]:
  "ram (add_entry e s) = ram s" "ram (add_meminfo tag s) = ram s"
  by (simp_all add: add_entry_def add_meminfo_def Let_def)

lemma add_entry_info [simp]: "mem_info (add_entry e s) = add_info e (mem_info s)"
  by (simp add: add_entry_def add_info_def Let_def MEMORY_MAP_SIZE_def MULTIBOOT_MEMORY_AVAILABLE_def)

lemma mmap_loop_walks:
  "entry_chain (ucast (load32 (ram s) (tag + 8))) (tag + ucast (tag_size (ram s) tag)) p qs \<Longrightarrow>
   \<exists>s'. mmap_loop tag p s = Some s' \<and> ram s' = ram s \<and>
     mem_info s' = fold add_info (map (load_mmap_entry (ram s)) qs) (mem_info s)"
proof (induction qs arbitrary: p s)
  case Nil
  then show ?case by (subst mmap_loop.simps) simp
next
  case (Cons q qs)
  let ?s = "add_entry (load_mmap_entry (ram s) p) s"
  have "entry_chain (ucast (load32 (ram ?s) (tag + 8))) (tag + ucast (tag_size (ram ?s) tag))
      (p + ucast (load32 (ram s) (tag + 8))) qs"
    using Cons.prems by simp
  from Cons.IH [OF this] show ?case
    using Cons.prems by (subst mmap_loop.simps) simp
qed

lemma process_tag_info:
  assumes "tag_chain (ram s) limit tag ((tag, qs) # ts)"
  shows "\<exists>s'. process_tag tag s = Some s' \<and> ram s' = ram s \<and> mem_info s' = tag_info (ram s) (tag, qs) (mem_info s)"
proof -
  let ?ty = "tag_type (ram s) tag"
  consider "?ty = MULTIBOOT_TAG_TYPE_BASIC_MEMINFO" | "?ty = MULTIBOOT_TAG_TYPE_MMAP"
    | "?ty \<in> {MULTIBOOT_TAG_TYPE_CMDLINE, MULTIBOOT_TAG_TYPE_BOOT_LOADER_NAME}"
    | "?ty \<notin> {MULTIBOOT_TAG_TYPE_BASIC_MEMINFO, MULTIBOOT_TAG_TYPE_MMAP, MULTIBOOT_TAG_TYPE_CMDLINE,
         MULTIBOOT_TAG_TYPE_BOOT_LOADER_NAME}" by blast
  then show ?thesis
  proof cases
    case 1
    then show ?thesis
      by (simp add: process_tag_def tag_info_def add_meminfo_def Let_def tag_types)
  next
    case 2
    let ?s = "emit [Line ''Mapa de memoria detectado:''] s"
    have "entry_chain (ucast (load32 (ram ?s) (tag + 8))) (tag + ucast (tag_size (ram ?s) tag)) (tag + 16) qs"
      using assms 2 by simp
    from mmap_loop_walks [OF this] show ?thesis
      using 2 by (auto simp: process_tag_def add_mmap_def tag_info_def map_of_tag_def Let_def tag_types)
  next
    case 3
    then show ?thesis
      using assms by (auto simp: process_tag_def emit_string_def tag_info_def map_of_tag_def Let_def tag_types)
  next
    case 4
    then show ?thesis
      by (auto simp: process_tag_def tag_info_def map_of_tag_def Let_def tag_types)
  qed
qed

lemma tag_loop_walks:
  "tag_chain (ram s) limit p ts \<Longrightarrow>
   \<exists>s'. tag_loop p limit s = Some s' \<and> ram s' = ram s \<and>
     mem_info s' = fold (tag_info (ram s)) ts (mem_info s)"
proof (induction ts arbitrary: p s)
  case Nil
  then show ?case by (subst tag_loop.simps) auto
next
  case (Cons tq ts)
  obtain qs where tq: "tq = (p, qs)" using Cons.prems by (cases tq) simp
  obtain s1 where s1: "process_tag p s = Some s1" "ram s1 = ram s"
    "mem_info s1 = tag_info (ram s) (p, qs) (mem_info s)"
    using process_tag_info Cons.prems unfolding tq by blast
  have "tag_chain (ram s1) limit (p + tag_step (tag_size (ram s) p)) ts"
    using Cons.prems by (simp add: tq s1)
  from Cons.IH [OF this] show ?case
    using Cons.prems s1 by (subst tag_loop.simps) (simp add: tq)
qed

text \<open>The entries kept are the first 256.\<close>

lemma add_infos_entries:
  "length (entries i) \<le> 256 \<Longrightarrow> entries (fold add_info es i) = take 256 (entries i @ es)"
proof (induction es arbitrary: i)
  case (Cons e es)
  then show ?case by (cases "length (entries i) < 256") (auto simp: add_info_def take_Cons')
qed simp

lemma tag_infos_entries:
  "length (entries i) \<le> 256 \<Longrightarrow>
   entries (fold (tag_info m) ts i) = take 256 (entries i @ concat (map (map_of_tag m) ts))"
proof (induction ts arbitrary: i)
  case (Cons t ts)
  have e: "entries (tag_info m t i) = take 256 (entries i @ map_of_tag m t)"
    using add_infos_entries [OF Cons.prems, of "map_of_tag m t"] Cons.prems
    by (cases t) (auto simp: tag_info_def map_of_tag_def Let_def)
  then have "entries (fold (tag_info m) (t # ts) i) =
      take 256 (take 256 (entries i @ map_of_tag m t) @ concat (map (map_of_tag m) ts))"
    using Cons.IH [of "tag_info m t i"] by (simp only: fold_simps) simp
  then show ?case by (simp only: take_take_append append_assoc list.map concat.simps)
qed simp

lemma memory_detect_spec:
  assumes "mbi \<noteq> 0" and "mbi AND 7 = 0"
    and "tag_chain (ram s) (ucast mbi + ucast (load32 (ram s) (ucast mbi))) (ucast (mbi + 8)) ts"
  shows "\<exists>s'. memory_detect mbi s = Some s' \<and> ram s' = ram s \<and>
    mem_info s' = fold (tag_info (ram s)) ts \<lparr>entries = [], total_memory = 0, available_memory = 0\<rparr> \<and>
    entries (memory_get_info s') = take 256 (concat (map (map_of_tag (ram s)) ts))"
proof -
  let ?info = "\<lparr>entries = [], total_memory = 0, available_memory = 0\<rparr> :: memory_info"
  have walk: "\<exists>s'. tag_loop (ucast (mbi + 8)) (ucast mbi + ucast (load32 (ram s) (ucast mbi))) (emit cs (s\<lparr>mem_info := ?info\<rparr>)) = Some s' \<and>
      ram s' = ram s \<and> mem_info s' = fold (tag_info (ram s)) ts ?info" for cs
    using tag_loop_walks [of "emit cs (s\<lparr>mem_info := ?info\<rparr>)" "ucast mbi + ucast (load32 (ram s) (ucast mbi))"
      "ucast (mbi + 8)" ts] assms(3) by simp
  have "\<exists>s'. memory_detect mbi s = Some s' \<and> ram s' = ram s \<and> mem_info s' = fold (tag_info (ram s)) ts ?info"
  proof -
    have "\<exists>cs k. memory_detect mbi s =
        Option.bind (tag_loop (ucast (mbi + 8)) (ucast mbi + ucast (load32 (ram s) (ucast mbi)))
          (emit cs (s\<lparr>mem_info := ?info\<rparr>))) (\<lambda>s. Some (emit (k s) s))"
      by (simp only: memory_detect_def Let_def assms(1,2) if_False not_True_eq_False simp_thms emit_memory
          emit_simps machine.select_convs) (rule exI, rule exI, simp)
    then obtain cs k where "memory_detect mbi s =
        Option.bind (tag_loop (ucast (mbi + 8)) (ucast mbi + ucast (load32 (ram s) (ucast mbi)))
          (emit cs (s\<lparr>mem_info := ?info\<rparr>))) (\<lambda>s. Some (emit (k s) s))" by blast
    then show ?thesis using walk [of cs] by auto
  qed
  then show ?thesis
    using tag_infos_entries [of ?info "ram s" ts] by (auto simp: memory_get_info_def)
qed

section \<open>A structure to instantiate the properties on\<close>

text \<open>
  At 0x1000: 56 bytes, one memory map tag with one entry (128 MB available from 1 MB on), the
  end tag.
\<close>

definition mbi_ram :: mem where
  "mbi_ram = (\<lambda>_. 0)(0x1000 := 56, 0x1008 := 6, 0x100C := 40, 0x1010 := 24, 0x101A := 0x10, 0x1023 := 8, 0x1028 := 1)"

definition mbi_memory :: memory where
  "mbi_memory = boot_memory\<lparr>ram := mbi_ram\<rparr>"

lemma load_bytes:
  "load32 m a = of_nat (unat (m a) + 256 * (unat (m (a + 1)) + 256 * (unat (m (a + 2)) + 256 * unat (m (a + 3)))))"
  "load64 m a = of_nat (ld_le 4 m a + 4294967296 * ld_le 4 m (a + 4))"
  "ld_le 4 m a = unat (m a) + 256 * (unat (m (a + 1)) + 256 * (unat (m (a + 2)) + 256 * unat (m (a + 3))))"
proof -
  have four: "(4 :: nat) = Suc (Suc (Suc (Suc 0)))" and eight: "(8 :: nat) = Suc (Suc (Suc (Suc 4)))" by simp_all
  show l4: "ld_le 4 m a = unat (m a) + 256 * (unat (m (a + 1)) + 256 * (unat (m (a + 2)) + 256 * unat (m (a + 3))))" for a
    unfolding four by (simp only: ld_le.simps) (simp add: add.assoc)
  then show "load32 m a = of_nat (unat (m a) + 256 * (unat (m (a + 1)) + 256 * (unat (m (a + 2)) + 256 * unat (m (a + 3)))))"
    by (simp only: load32_def)
  have "ld_le 8 m a = ld_le 4 m a + 4294967296 * ld_le 4 m (a + 4)"
    unfolding eight by (simp only: ld_le.simps l4) (simp add: add.assoc)
  then show "load64 m a = of_nat (ld_le 4 m a + 4294967296 * ld_le 4 m (a + 4))"
    by (simp only: load64_def)
qed

lemma mbi_loads:
  "load32 mbi_ram 0x1000 = 56" "tag_type mbi_ram 0x1008 = 6" "tag_size mbi_ram 0x1008 = 40"
  "load32 mbi_ram 0x1010 = 24" "tag_type mbi_ram 0x1030 = 0"
  "load_mmap_entry mbi_ram 0x1018 = \<lparr>base_addr = 0x100000, entry_length = 0x8000000, entry_type = 1\<rparr>"
  by (simp_all add: mbi_ram_def load_bytes tag_type_def tag_size_def load_mmap_entry_def)

lemma mbi_chain: "tag_chain mbi_ram (0x1000 + 56) 0x1008 [(0x1008, [0x1018])]"
  by (simp add: mbi_loads tag_types tag_step_def word_less_nat_alt)

section \<open>Properties\<close>

text \<open>
  C14: On a well-formed structure, that is one whose tags and memory map entries can be listed,
  \<open>memory_detect\<close> returns, RAM is as before, and the information it leaves is the tags' effect
  in order; its entries are the first 256 of all the memory maps.
\<close>

theorem memory_detect_parses:
  assumes "mbi \<noteq> 0" and "mbi AND 7 = 0"
    and "tag_chain (ram s) (ucast mbi + ucast (load32 (ram s) (ucast mbi))) (ucast (mbi + 8)) ts"
  shows "\<exists>s'. memory_detect mbi s = Some s' \<and> ram s' = ram s \<and>
    mem_info s' = fold (tag_info (ram s)) ts \<lparr>entries = [], total_memory = 0, available_memory = 0\<rparr> \<and>
    entries (memory_get_info s') = take 256 (concat (map (map_of_tag (ram s)) ts))"
  by (rule memory_detect_spec [OF assms])

theorem memory_detect_parses_witness:
  "\<exists>s'. memory_detect 0x1000 mbi_memory = Some s' \<and>
    mem_info s' = \<lparr>entries = [\<lparr>base_addr = 0x100000, entry_length = 0x8000000, entry_type = 1\<rparr>],
      total_memory = 0x8000000, available_memory = 0x8000000\<rparr>"
  using memory_detect_parses [of "0x1000" mbi_memory "[(0x1008, [0x1018])]"] mbi_chain
  by (auto simp: mbi_memory_def mbi_loads tag_info_def map_of_tag_def add_info_def)

section \<open>Structures that are not well formed\<close>

lemma mmap_loop_keeps:
  assumes "mmap_loop tag p s = Some s'"
  shows "ram s' = ram s"
  by (rule mmap_loop.raw_induct [OF _ assms, where P = "\<lambda>tag p s s'. ram s' = ram s"])
    (fastforce split: if_splits)

lemma process_tag_keeps: "process_tag tag s = Some s' \<Longrightarrow> ram s' = ram s"
  by (auto simp: process_tag_def add_mmap_def emit_string_def Let_def Option.bind_eq_Some_conv
      dest!: mmap_loop_keeps split: if_splits)

text \<open>A walk with a step of 0 does not end.\<close>

lemma mmap_loop_stuck:
  assumes "load32 (ram s) (tag + 8) = 0" and "p < tag + ucast (tag_size (ram s) tag)"
  shows "mmap_loop tag p s = None"
proof -
  have "\<not> (load32 (ram s) (tag + 8) = 0 \<and> p < tag + ucast (tag_size (ram s) tag))"
    if "mmap_loop tag p s = Some s'" for s'
    by (rule mmap_loop.raw_induct [OF _ that, where P = "\<lambda>tag p s s'. \<not> (load32 (ram s) (tag + 8) = 0 \<and>
      p < tag + ucast (tag_size (ram s) tag))"]) (fastforce split: if_splits)
  then show ?thesis using assms by (cases "mmap_loop tag p s") auto
qed

lemma tag_loop_stuck:
  assumes "tag_type (ram s) p \<noteq> MULTIBOOT_TAG_TYPE_END" and "p < limit" and "tag_step (tag_size (ram s) p) = 0"
  shows "tag_loop p limit s = None"
proof -
  have "\<not> (tag_type (ram s) p \<noteq> MULTIBOOT_TAG_TYPE_END \<and> p < limit \<and> tag_step (tag_size (ram s) p) = 0)"
    if "tag_loop p limit s = Some s'" for s'
    by (rule tag_loop.raw_induct [OF _ that, where P = "\<lambda>p limit s s'. \<not> (tag_type (ram s) p \<noteq> MULTIBOOT_TAG_TYPE_END \<and>
      p < limit \<and> tag_step (tag_size (ram s) p) = 0)"])
      (fastforce simp: Option.bind_eq_Some_conv dest!: process_tag_keeps split: if_splits)
  then show ?thesis using assms by (cases "tag_loop p limit s") auto
qed

text \<open>
  C35: \<open>memory_detect\<close> trusts the sizes it reads. If the first tag lies below the limit and is not the
  end tag, then it never returns when the tag's size, rounded up in 32 bits, is 0 (a size of 0, or
  one within 7 of 2 to the 32), nor when the tag is a memory map whose entry size is 0.
\<close>

theorem memory_detect_hangs:
  assumes "mbi \<noteq> 0" and "mbi AND 7 = 0"
    and "tag = ucast (mbi + 8)" and "tag < ucast mbi + ucast (load32 (ram s) (ucast mbi))"
    and "tag_type (ram s) tag \<noteq> MULTIBOOT_TAG_TYPE_END"
    and "tag_step (tag_size (ram s) tag) = 0 \<or>
      (tag_type (ram s) tag = MULTIBOOT_TAG_TYPE_MMAP \<and> load32 (ram s) (tag + 8) = 0 \<and>
       tag + 16 < tag + ucast (tag_size (ram s) tag))"
  shows "memory_detect mbi s = None"
proof -
  let ?limit = "ucast mbi + ucast (load32 (ram s) (ucast mbi))"
  have "tag_loop tag ?limit s1 = None" if "ram s1 = ram s" for s1 :: "'a memory_scheme"
  proof (cases "tag_step (tag_size (ram s) tag) = 0")
    case True
    then show ?thesis using assms(4,5) that by (intro tag_loop_stuck) simp_all
  next
    case False
    then have "process_tag tag s1 = None"
      using assms(6) that mmap_loop_stuck [of "emit [Line ''Mapa de memoria detectado:''] s1" tag "tag + 16"]
      by (simp add: process_tag_def add_mmap_def Let_def tag_types)
    then show ?thesis using assms(4,5) that by (subst tag_loop.simps) simp
  qed
  then show ?thesis using assms(1-3) by (simp add: memory_detect_def Let_def)
qed

definition bad_memory :: memory where
  "bad_memory = boot_memory\<lparr>ram := (\<lambda>_. 0)(0x1000 := 56, 0x1008 := 6)\<rparr>"

theorem memory_detect_hangs_witness: "memory_detect 0x1000 bad_memory = None"
proof -
  have "ram bad_memory = (\<lambda>_. 0)(0x1000 := 56, 0x1008 := 6)" by (simp add: bad_memory_def)
  then show ?thesis
    by (intro memory_detect_hangs [of "0x1000" "0x1008" bad_memory])
      (simp_all add: load_bytes tag_type_def tag_size_def tag_types tag_step_def word_less_nat_alt)
qed

text \<open>
  The amount of memory above 1 MB is converted from KiB in 32 bits: 4 GiB counts as 0, and a
  machine with \<open>x\<close> GiB more than 4 reports what one with \<open>x\<close> GiB reports.
\<close>

theorem meminfo_wraps:
  assumes "unat (load32 (ram s) (tag + 8)) < 1024"
  shows "unat (total_memory (mem_info (add_meminfo tag s))) =
    unat (load32 (ram s) (tag + 8)) * 1024 + unat (load32 (ram s) (tag + 12)) mod 2 ^ 22 * 1024"
proof -
  have lo: "unat (load32 (ram s) (tag + 8) * 1024) = unat (load32 (ram s) (tag + 8)) * 1024"
    using assms by (simp add: unat_word_ariths)
  have hi: "unat (load32 (ram s) (tag + 12) * 1024) = unat (load32 (ram s) (tag + 12)) mod 2 ^ 22 * 1024"
    using mult_mod_left [of "unat (load32 (ram s) (tag + 12))" "2 ^ 22" 1024] by (simp add: unat_word_ariths)
  have "unat (load32 (ram s) (tag + 12)) mod 2 ^ 22 < 2 ^ 22" by simp
  then have "unat (total_memory (mem_info (add_meminfo tag s))) =
      unat (load32 (ram s) (tag + 8) * 1024) + unat (load32 (ram s) (tag + 12) * 1024)"
    using assms by (simp add: add_meminfo_def Let_def lo hi unat_add_u64)
  then show ?thesis by (simp add: lo hi)
qed

theorem meminfo_wraps_witness:
  "total_memory (mem_info (add_meminfo 0x1008
    (boot_memory\<lparr>ram := (\<lambda>_. 0)(0x1010 := 128, 0x1016 := 64)\<rparr>))) = 131072"
  using meminfo_wraps [of "boot_memory\<lparr>ram := (\<lambda>_. 0)(0x1010 := 128, 0x1016 := 64)\<rparr>" "0x1008"]
  by (simp add: load_bytes word_unat_eq_iff)

end
