(* ===== verification/Shell_Parse.thy ===== *)
theory Shell_Parse
  imports Shell Interrupt_Claims
begin

text \<open>
  The in-place parser against the words that a line means: \<open>tokens\<close> splits at spaces, with
  double quotes around words that may hold spaces, and drops empty words.
\<close>

section \<open>The words of a line\<close>

function tokens :: "u8 list \<Rightarrow> u8 list list" where
  "tokens s =
    (case dropWhile (\<lambda>c. c = blank) s of
       [] \<Rightarrow> []
     | c # cs \<Rightarrow>
         if c = quote then
           let w = takeWhile (\<lambda>c. c \<noteq> quote) cs
           in (if w = [] then [] else [w]) @ tokens (drop (length w + 1) cs)
         else
           let w = takeWhile (\<lambda>c. c \<noteq> blank) (c # cs)
           in w # tokens (drop (length w + 1) (c # cs)))"
  by pat_completeness auto
termination
proof (relation "measure length", goal_cases)
  case 1
  then show ?case by simp
next
  case (2 s c cs w)
  then have "length (c # cs) \<le> length s" by (metis length_dropWhile_le)
  then show ?case by simp
next
  case (3 s c cs w)
  then have "length (c # cs) \<le> length s" by (metis length_dropWhile_le)
  then show ?case by simp
qed

declare tokens.simps [simp del]

lemma tokens_skip: "tokens (dropWhile (\<lambda>c. c = blank) s) = tokens s"
  by (subst (1 2) tokens.simps) simp

lemma tokens_Nil [simp]: "tokens [] = []"
  by (subst tokens.simps) simp

text \<open>A word that ends at its delimiter, and one that ends with the line.\<close>

lemma tokens_quoted:
  assumes "quote \<notin> set w"
  shows "tokens (quote # w @ quote # rest) = (if w = [] then [] else [w]) @ tokens rest"
    and "tokens (quote # w) = (if w = [] then [] else [w])"
proof -
  have t: "takeWhile (\<lambda>c. c \<noteq> quote) (w @ quote # rest) = w" "takeWhile (\<lambda>c. c \<noteq> quote) w = w"
    using assms by (auto simp: takeWhile_append)
  show "tokens (quote # w @ quote # rest) = (if w = [] then [] else [w]) @ tokens rest"
    by (subst tokens.simps) (simp add: t)
  show "tokens (quote # w) = (if w = [] then [] else [w])"
    by (subst tokens.simps) (simp add: t)
qed

lemma tokens_plain:
  assumes "blank \<notin> set w" and "w \<noteq> []" and "hd w \<noteq> quote"
  shows "tokens (w @ blank # rest) = w # tokens rest" and "tokens w = [w]"
proof -
  obtain c cs where w: "w = c # cs" using assms(2) by (cases w) auto
  have t: "takeWhile (\<lambda>c. c \<noteq> blank) (w @ blank # rest) = w" "takeWhile (\<lambda>c. c \<noteq> blank) w = w"
    using assms(1) by (auto simp: takeWhile_append)
  have d: "dropWhile (\<lambda>c. c = blank) (w @ blank # rest) = w @ blank # rest" "dropWhile (\<lambda>c. c = blank) w = w"
    using assms(1) by (auto simp: w)
  show "tokens (w @ blank # rest) = w # tokens rest"
    using assms(3) t(1) by (subst tokens.simps, subst d(1)) (simp add: w)
  show "tokens w = [w]"
    using assms(3) t(2) by (subst tokens.simps, subst d(2)) (simp add: w)
qed

section \<open>Strings in the buffer\<close>

lemma string_at_app:
  assumes "0 \<in> set (drop i pre)"
  shows "string_at (pre @ x) i = string_at pre i"
proof -
  have "i \<le> length pre" using assms by (cases "i \<le> length pre") auto
  then show ?thesis using assms by (auto simp: string_at_def takeWhile_append1)
qed

lemma string_at_exact: "0 \<notin> set w \<Longrightarrow> string_at (pre @ w @ 0 # post) (length pre) = w"
  by (simp add: string_at_def takeWhile_append)

lemma skip_spaces_exact:
  "0 \<notin> set s \<Longrightarrow> skip_spaces (pre @ s @ 0 # post) (length pre) = length pre + length (takeWhile (\<lambda>c. c = blank) s)"
proof (induction s arbitrary: pre)
  case Nil
  then show ?case by (subst skip_spaces.simps) simp
next
  case (Cons c s)
  then show ?case using Cons.IH [of "pre @ [c]"] by (subst skip_spaces.simps) auto
qed

lemma find_end_exact:
  "0 \<notin> set w \<Longrightarrow> delim \<notin> set w \<Longrightarrow> d = 0 \<or> d = delim \<Longrightarrow>
   find_end delim (pre @ w @ d # post) (length pre) = length pre + length w"
proof (induction w arbitrary: pre)
  case Nil
  then show ?case by (subst find_end.simps) auto
next
  case (Cons c w)
  then show ?case using Cons.IH [of "pre @ [c]"] by (subst find_end.simps) auto
qed

text \<open>The two forms of an argument: its leading quote, if any, and its delimiter.\<close>

definition arg_form :: "u8 list \<Rightarrow> u8 \<Rightarrow> u8 list \<Rightarrow> bool" where
  "arg_form lead delim w \<longleftrightarrow>
    (lead = [quote] \<and> delim = quote \<or> lead = [] \<and> delim = blank \<and> w \<noteq> [] \<and> hd w \<noteq> quote) \<and>
    0 \<notin> set w \<and> delim \<notin> set w"

lemma parse_arg_exact:
  assumes "arg_form lead delim w"
  shows "parse_arg (pre @ lead @ w @ delim # rest) (length pre) =
      (pre @ lead @ w @ 0 # rest, length pre + length lead, length pre + length lead + length w + 1)"
    and "parse_arg (pre @ lead @ w @ 0 # post) (length pre) =
      (pre @ lead @ w @ 0 # post, length pre + length lead, length pre + length lead + length w)"
proof -
  have first: "(pre @ lead @ w @ x) ! length pre = quote \<longleftrightarrow> lead = [quote]" for x
    using assms by (cases w) (auto simp: arg_form_def)
  have delim: "delim = (if lead = [quote] then quote else blank)" "delim \<noteq> 0"
    using assms by (auto simp: arg_form_def)
  have start: "(if lead = [quote] then length pre + 1 else length pre) = length (pre @ lead)"
    using assms by (auto simp: arg_form_def)
  have w: "0 \<notin> set w" "delim \<notin> set w" using assms by (auto simp: arg_form_def)
  have e: "find_end delim (pre @ lead @ w @ d # x) (length (pre @ lead)) = length (pre @ lead) + length w"
    if "d = 0 \<or> d = delim" for d x
    using find_end_exact [OF w that, of "pre @ lead" x] by simp
  have upd: "(pre @ lead @ w @ d # x)[length (pre @ lead) + length w := 0] = pre @ lead @ w @ 0 # x" for d x
    by (simp add: list_update_append)
  have at: "(pre @ lead @ w @ d # x) ! (length (pre @ lead) + length w) = d" for d x
    by (simp add: nth_append)
  show "parse_arg (pre @ lead @ w @ delim # rest) (length pre) =
      (pre @ lead @ w @ 0 # rest, length pre + length lead, length pre + length lead + length w + 1)"
    unfolding parse_arg_def Let_def first delim(1) [symmetric] start e [OF disjI2 [OF refl]] upd at
    by simp
  show "parse_arg (pre @ lead @ w @ 0 # post) (length pre) =
      (pre @ lead @ w @ 0 # post, length pre + length lead, length pre + length lead + length w)"
    unfolding parse_arg_def Let_def first delim(1) [symmetric] start e [OF disjI1 [OF refl]] at
    using delim(2) by simp
qed

section \<open>The loop\<close>

text \<open>The next word of a line, with its form; what is left follows its delimiter, if it has one.\<close>

lemma next_word:
  assumes "s \<noteq> []" and "hd s \<noteq> blank" and "0 \<notin> set s"
  obtains (closed) lead delim w rest where "arg_form lead delim w" "s = lead @ w @ delim # rest"
      "tokens s = (if w = [] then [] else [w]) @ tokens rest"
  | (final) lead delim w where "arg_form lead delim w" "s = lead @ w"
      "tokens s = (if w = [] then [] else [w])"
proof (cases "hd s = quote")
  case True
  then obtain cs where s: "s = quote # cs" using assms(1) by (cases s) auto
  show ?thesis
  proof (cases "quote \<in> set cs")
    case True
    then obtain w rest where cs: "cs = w @ quote # rest" "quote \<notin> set w" by (meson split_list_first)
    show ?thesis
      using closed [of "[quote]" quote w rest] tokens_quoted(1) [OF cs(2), of rest] assms(3)
      by (simp add: s cs arg_form_def)
  next
    case False
    then show ?thesis
      using final [of "[quote]" quote cs] tokens_quoted(2) [OF False] assms(3) by (simp add: s arg_form_def)
  qed
next
  case False
  show ?thesis
  proof (cases "blank \<in> set s")
    case True
    then obtain w rest where cs: "s = w @ blank # rest" "blank \<notin> set w" by (meson split_list_first)
    have w: "w \<noteq> []" "hd w \<noteq> quote" using assms(2) False cs(1) by (cases w; simp)+
    show ?thesis
      using closed [of "[]" blank w rest] tokens_plain(1) [OF cs(2) w, of rest] assms(3) w cs(2)
      by (simp add: cs(1) arg_form_def)
  next
    case noblank: False
    then show ?thesis
      using final [of "[]" blank s] tokens_plain(2) [OF noblank assms(1) False] assms False
      by (simp add: arg_form_def)
  qed
qed

lemma parse_loop_step:
  assumes "p < length buf \<and> buf ! p \<noteq> 0 \<and> length argv < SHELL_MAX_ARGS" and "parse_arg buf p = (buf', start, p')"
  shows "parse_loop buf p argv = parse_loop buf' (skip_spaces buf' p')
    (if string_at buf' start = [] then argv else argv @ [start])"
  using assms by (subst parse_loop.simps) simp

lemma parse_loop_tokens:
  assumes "0 \<notin> set s" and "s = [] \<or> hd s \<noteq> blank" and "length argv \<le> 8"
    and "\<forall>i \<in> set argv. 0 \<in> set (drop i pre)"
  shows "map (string_at (fst (parse_loop (pre @ s @ 0 # post) (length pre) argv)))
        (snd (parse_loop (pre @ s @ 0 # post) (length pre) argv)) =
      map (string_at pre) argv @ take (8 - length argv) (tokens s) \<and>
    length (fst (parse_loop (pre @ s @ 0 # post) (length pre) argv)) = length (pre @ s @ 0 # post)"
  using assms
proof (induction "length s" arbitrary: s pre argv rule: less_induct)
  case less
  have old: "map (string_at (pre @ x)) argv = map (string_at pre) argv" for x
    using less.prems(4) by (auto intro!: string_at_app)
  show ?case
  proof (cases "s = [] \<or> length argv = 8")
    case True
    then have "parse_loop (pre @ s @ 0 # post) (length pre) argv = (pre @ s @ 0 # post, argv)"
      by (subst parse_loop.simps) (auto simp: SHELL_MAX_ARGS_def)
    then show ?thesis using True old by auto
  next
    case False
    then have s: "s \<noteq> []" "hd s \<noteq> blank" and n: "length argv < 8" using less.prems(2,3) by auto
    have run: "length pre < length (pre @ s @ 0 # post) \<and> (pre @ s @ 0 # post) ! length pre \<noteq> 0 \<and>
        length argv < SHELL_MAX_ARGS"
      using s(1) less.prems(1) n by (cases s) (auto simp: SHELL_MAX_ARGS_def)
    from s less.prems(1) show ?thesis
    proof (cases rule: next_word)
      case (closed lead delim w rest)
      define spaces where "spaces = takeWhile (\<lambda>c. c = blank) rest"
      define pre' where "pre' = pre @ lead @ w @ 0 # spaces"
      define s' where "s' = dropWhile (\<lambda>c. c = blank) rest"
      define argv' where "argv' = (if w = [] then argv else argv @ [length pre + length lead])"
      have rest: "rest = spaces @ s'" by (simp add: spaces_def s'_def)
      have z: "0 \<notin> set rest" "0 \<notin> set w" using less.prems(1) closed(2) by auto
      have skip: "skip_spaces (pre @ lead @ w @ 0 # rest @ 0 # post) (length pre + length lead + length w + 1) = length pre'"
        using skip_spaces_exact [OF z(1), of "pre @ lead @ w @ [0]" post] by (simp add: pre'_def spaces_def add.assoc)
      have word: "string_at (pre @ lead @ w @ 0 # rest @ 0 # post) (length pre + length lead) = w"
        using string_at_exact [OF z(2), of "pre @ lead" "rest @ 0 # post"] by simp
      have step: "parse_loop (pre @ s @ 0 # post) (length pre) argv = parse_loop (pre' @ s' @ 0 # post) (length pre') argv'"
      proof -
        have shape: "pre @ s @ 0 # post = pre @ lead @ w @ delim # rest @ 0 # post" by (simp add: closed(2))
        have "parse_arg (pre @ s @ 0 # post) (length pre) =
            (pre @ lead @ w @ 0 # rest @ 0 # post, length pre + length lead, length pre + length lead + length w + 1)"
          unfolding shape by (rule parse_arg_exact(1) [OF closed(1)])
        from parse_loop_step [OF run this]
        have "parse_loop (pre @ s @ 0 # post) (length pre) argv =
            parse_loop (pre @ lead @ w @ 0 # rest @ 0 # post) (length pre') argv'"
          by (simp only: skip word argv'_def)
        then show ?thesis by (simp add: pre'_def rest)
      qed
      have len: "length argv' \<le> 8" using n by (simp add: argv'_def)
      have "string_at pre' (length pre + length lead) = w"
        using string_at_exact [OF z(2), of "pre @ lead" spaces] by (simp add: pre'_def)
      then have strings: "map (string_at pre') argv' = map (string_at pre) argv @ (if w = [] then [] else [w])"
        using old [of "lead @ w @ 0 # spaces"] by (cases "w = []") (simp_all add: argv'_def pre'_def)
      have ends: "\<forall>i \<in> set argv'. 0 \<in> set (drop i pre')"
        using less.prems(4) by (auto simp: argv'_def pre'_def)
      have smaller: "length s' < length s"
        using length_dropWhile_le [of "\<lambda>c. c = blank" rest] by (simp add: s'_def closed(2))
      have s'_ok: "0 \<notin> set s'" "s' = [] \<or> hd s' \<noteq> blank"
        using z(1) hd_dropWhile [of "\<lambda>c. c = blank" rest] by (auto simp: s'_def dest: set_dropWhileD)
      have "tokens s' = tokens rest" unfolding s'_def by (rule tokens_skip)
      then show ?thesis
        using less.hyps [OF smaller s'_ok len ends] n
        by (simp add: step strings closed(3)) (simp add: pre'_def closed(2) rest argv'_def)
    next
      case (final lead delim w)
      have z: "0 \<notin> set w" using less.prems(1) final(2) by auto
      define argv' where "argv' = (if w = [] then argv else argv @ [length pre + length lead])"
      have word: "string_at (pre @ lead @ w @ 0 # post) (length pre + length lead) = w"
        using string_at_exact [OF z, of "pre @ lead" post] by simp
      have skip: "skip_spaces (pre @ lead @ w @ 0 # post) (length pre + length lead + length w) = length pre + length lead + length w"
        by (subst skip_spaces.simps) (simp add: nth_append)
      have stop: "parse_loop (pre @ lead @ w @ 0 # post) (length pre + length lead + length w) argv' = (pre @ lead @ w @ 0 # post, argv')"
        by (subst parse_loop.simps) (simp add: nth_append)
      have step: "parse_loop (pre @ s @ 0 # post) (length pre) argv = (pre @ lead @ w @ 0 # post, argv')"
      proof -
        have shape: "pre @ s @ 0 # post = pre @ lead @ w @ 0 # post" by (simp add: final(2))
        have "parse_arg (pre @ s @ 0 # post) (length pre) =
            (pre @ lead @ w @ 0 # post, length pre + length lead, length pre + length lead + length w)"
          unfolding shape by (rule parse_arg_exact(2) [OF final(1)])
        from parse_loop_step [OF run this]
        have "parse_loop (pre @ s @ 0 # post) (length pre) argv =
            parse_loop (pre @ lead @ w @ 0 # post) (length pre + length lead + length w) argv'"
          by (simp only: skip word argv'_def)
        then show ?thesis by (simp only: stop)
      qed
      show ?thesis
        unfolding step final(3) using n old [of "lead @ w @ 0 # post"]
        by (cases "w = []") (simp_all add: argv'_def word final(2))
    qed
  qed
qed

section \<open>The whole line\<close>

lemma parse_command_spec:
  assumes "0 \<notin> set input" and "length input < length (parse_buffer s)"
  shows "\<exists>argv buf. shell_parse_command input s = Some (argv, s\<lparr>parse_buffer := buf\<rparr>) \<and>
    map (string_at buf) argv = take SHELL_MAX_ARGS (tokens input) \<and> length buf = length (parse_buffer s)"
proof -
  define post where "post = drop (length input + 1) (parse_buffer s)"
  define spaces where "spaces = takeWhile (\<lambda>c. c = blank) input"
  define rest where "rest = dropWhile (\<lambda>c. c = blank) input"
  have input: "input = spaces @ rest" by (simp add: spaces_def rest_def)
  have buf: "array_strcpy (parse_buffer s) input = Some (spaces @ rest @ 0 # post)"
    using assms(2) by (simp add: array_strcpy_def post_def input)
  have skip: "skip_spaces (spaces @ rest @ 0 # post) 0 = length spaces"
  proof -
    have e: "spaces @ rest @ 0 # post = input @ 0 # post" using input by (metis append_assoc)
    show ?thesis unfolding e using skip_spaces_exact [OF assms(1), of "[]" post] by (simp flip: spaces_def)
  qed
  have ok: "0 \<notin> set rest" "rest = [] \<or> hd rest \<noteq> blank"
    using assms(1) hd_dropWhile [of "\<lambda>c. c = blank" input] by (auto simp: rest_def dest: set_dropWhileD)
  have t: "tokens rest = tokens input" unfolding rest_def by (rule tokens_skip)
  have len: "length (spaces @ rest @ 0 # post) = length (parse_buffer s)"
    using assms(2) by (simp add: input post_def)
  obtain buf' argv where loop: "parse_loop (spaces @ rest @ 0 # post) (length spaces) [] = (buf', argv)"
    by (cases "parse_loop (spaces @ rest @ 0 # post) (length spaces) []")
  have "map (string_at buf') argv = take 8 (tokens input) \<and> length buf' = length (parse_buffer s)"
    using parse_loop_tokens [OF ok, of "[]" spaces post] by (simp only: len) (simp add: loop t)
  then show ?thesis
    by (auto simp: shell_parse_command_def buf skip loop SHELL_MAX_ARGS_def)
qed

section \<open>Properties\<close>

text \<open>
  C18: A line without NUL bytes that fits into \<open>parse_buffer\<close> is parsed: the argument strings are the
  first eight words of the line, and nothing but the buffer changes.
\<close>

theorem parse_command_tokens:
  assumes "0 \<notin> set input" and "length input < length (parse_buffer s)"
  shows "\<exists>argv buf. shell_parse_command input s = Some (argv, s\<lparr>parse_buffer := buf\<rparr>) \<and>
    map (string_at buf) argv = take SHELL_MAX_ARGS (tokens input) \<and> length buf = length (parse_buffer s)"
  by (rule parse_command_spec [OF assms])

definition boot_shell :: shell where
  "boot_shell = kernel.extend boot_kernel
    \<lparr>shell_buffer = replicate 256 0, shell_buffer_pos = 0, parse_buffer = replicate 256 0,
     shell_history = replicate 10 (replicate 256 0), history_count = 0, history_current = -1\<rparr>"

lemma boot_shell_simps:
  "shell_buffer boot_shell = replicate 256 0" "parse_buffer boot_shell = replicate 256 0"
  "shell_history boot_shell = replicate 10 (replicate 256 0)" "history_count boot_shell = 0"
  by (simp_all add: boot_shell_def kernel.defs)

text \<open>The line \<open>e "a b"\<close>.\<close>

lemma example_words: "tokens [101, 32, 34, 97, 32, 98, 34] = [[101], [97, 32, 98]]"
  using tokens_plain(1) [of "[101]" "[34, 97, 32, 98, 34]"] tokens_quoted(1) [of "[97, 32, 98]" "[]"] by simp

theorem parse_command_tokens_witness:
  "\<exists>argv s. shell_parse_command [101, 32, 34, 97, 32, 98, 34] boot_shell = Some (argv, s) \<and>
    map (string_at (parse_buffer s)) argv = [[101], [97, 32, 98]]"
  using parse_command_tokens [of "[101, 32, 34, 97, 32, 98, 34]" boot_shell]
  unfolding example_words by (auto simp: SHELL_MAX_ARGS_def boot_shell_simps)

end
