(* ===== verification/Shell_Lines.thy ===== *)
theory Shell_Lines
  imports Shell_Parse
begin

text \<open>
  The line editor and the history. \<open>edit_line\<close> is what the keys do to the line typed so far,
  \<open>remember\<close> what a line does to the list of lines kept; the code's buffers implement both.
\<close>

section \<open>Specification\<close>

definition edit_char :: "u8 \<Rightarrow> u8 list \<Rightarrow> u8 list" where
  "edit_char c line =
    (if c = backspace then butlast line
     else if length line < 255 \<and> 32 \<le> c \<and> c \<le> 126 then line @ [c] else line)"

definition edit_line :: "u8 list \<Rightarrow> u8 list" where
  "edit_line cs = fold edit_char cs []"

definition remember :: "u8 list \<Rightarrow> u8 list list \<Rightarrow> u8 list list" where
  "remember line ls =
    (if line = [] \<or> ls \<noteq> [] \<and> last ls = line then ls
     else (if 10 \<le> length ls then tl ls else ls) @ [line])"

lemma emit_shell [simp]:
  "shell_buffer (emit cs s) = shell_buffer s" "shell_buffer_pos (emit cs s) = shell_buffer_pos s"
  "parse_buffer (emit cs s) = parse_buffer s" "shell_history (emit cs s) = shell_history s"
  "history_count (emit cs s) = history_count s" "history_current (emit cs s) = history_current s"
  by (simp_all add: emit_def)

lemma emit_keyboard [simp]:
  "kb_valid (emit cs s) = kb_valid s" "queue (emit cs s) = queue s"
  "shift_pressed (emit cs s) = shift_pressed s" "caps_lock (emit cs s) = caps_lock s"
  by (simp_all add: emit_def kb_valid_def queue_def)

section \<open>History\<close>

text \<open>The buffers of the history: ten arrays of 256 bytes, each with a NUL.\<close>

definition history_ok :: "'a shell_scheme \<Rightarrow> bool" where
  "history_ok s \<longleftrightarrow> length (shell_history s) = 10 \<and>
    (\<forall>a \<in> set (shell_history s). length a = 256 \<and> 0 \<in> set a) \<and>
    0 \<le> history_count s \<and> history_count s \<le> 10"

definition history_lines :: "'a shell_scheme \<Rightarrow> u8 list list" where
  "history_lines s = map (\<lambda>i. string_at (shell_history s ! i) 0) [0..<nat (history_count s)]"

lemma array_strcpy_exact:
  assumes "0 \<notin> set str" and "length str < length a"
  shows "\<exists>a'. array_strcpy a str = Some a' \<and> length a' = length a \<and> 0 \<in> set a' \<and> string_at a' 0 = str"
  using assms string_at_exact [OF assms(1), of "[]" "drop (length str + 1) a"] by (simp add: array_strcpy_def)

lemma string_at_no_zero: "0 \<notin> set (string_at a p)"
  by (auto simp: string_at_def dest: set_takeWhileD)

lemma string_at_short: "0 \<in> set a \<Longrightarrow> length (string_at a 0) < length a"
proof -
  assume "0 \<in> set a"
  then obtain pre post where "a = pre @ 0 # post" "0 \<notin> set pre" by (meson split_list_first)
  then show ?thesis using string_at_exact [of pre "[]" post] by simp
qed

text \<open>The loop moves every string down by one and keeps the last array.\<close>

lemma shift_history_exact:
  assumes "\<forall>a \<in> set h. length a = 256 \<and> 0 \<in> set a" and "k \<le> n" and "n < length h"
  shows "\<exists>h'. shift_history [k..<n] h = Some h' \<and> length h' = length h \<and>
    (\<forall>a \<in> set h'. length a = 256 \<and> 0 \<in> set a) \<and>
    (\<forall>i. i < k \<or> n \<le> i \<longrightarrow> h' ! i = h ! i) \<and>
    (\<forall>i. k \<le> i \<and> i < n \<longrightarrow> string_at (h' ! i) 0 = string_at (h ! Suc i) 0)"
  using assms
proof (induction "n - k" arbitrary: k h)
  case 0
  then show ?case by auto
next
  case (Suc m)
  then have kn: "k < n" by simp
  have nth: "\<And>i. i < length h \<Longrightarrow> length (h ! i) = 256 \<and> 0 \<in> set (h ! i)" using Suc.prems(1) by auto
  have "length (string_at (h ! Suc k) 0) < length (h ! k)"
    using string_at_short [of "h ! Suc k"] nth [of k] nth [of "Suc k"] kn Suc.prems(3) by simp
  from array_strcpy_exact [OF string_at_no_zero this] obtain a where a:
    "array_strcpy (h ! k) (string_at (h ! Suc k) 0) = Some a" "length a = 256" "0 \<in> set a"
    "string_at a 0 = string_at (h ! Suc k) 0" using nth [of k] kn Suc.prems(3) by auto
  let ?h = "h[k := a]"
  have ok: "\<forall>x \<in> set ?h. length x = 256 \<and> 0 \<in> set x"
    using Suc.prems(1) a(2,3) by (auto dest!: set_update_subset_insert [THEN subsetD])
  have "m = n - Suc k" "Suc k \<le> n" "n < length ?h" using Suc.hyps(2) kn Suc.prems(3) by simp_all
  from Suc.hyps(1) [OF this(1) ok this(2,3)] obtain h' where h': "shift_history [Suc k..<n] ?h = Some h'"
    "length h' = length h" "\<forall>a \<in> set h'. length a = 256 \<and> 0 \<in> set a"
    "\<forall>i. i < Suc k \<or> n \<le> i \<longrightarrow> h' ! i = ?h ! i"
    "\<forall>i. Suc k \<le> i \<and> i < n \<longrightarrow> string_at (h' ! i) 0 = string_at (?h ! Suc i) 0" by auto
  have "shift_history [k..<n] h = Some h'"
    using a(1) h'(1) kn by (simp add: upt_conv_Cons)
  moreover have "\<forall>i. i < k \<or> n \<le> i \<longrightarrow> h' ! i = h ! i" using h'(4) kn by auto
  moreover have "\<forall>i. k \<le> i \<and> i < n \<longrightarrow> string_at (h' ! i) 0 = string_at (h ! Suc i) 0"
  proof (intro allI impI)
    fix i assume i: "k \<le> i \<and> i < n"
    show "string_at (h' ! i) 0 = string_at (h ! Suc i) 0"
      using h'(4,5) i a(4) kn Suc.prems(3) by (cases "i = k") auto
  qed
  ultimately show ?case using h'(2,3) by auto
qed

text \<open>Storing a line in a slot that is free.\<close>

lemma store_line:
  assumes "history_ok s" and "0 \<notin> set line" and "length line < 256" and "history_count s < 10"
  shows "\<exists>a. array_strcpy (shell_history s ! nat (history_count s)) line = Some a \<and>
    history_ok (s\<lparr>shell_history := (shell_history s)[nat (history_count s) := a],
      history_count := history_count s + 1, history_current := c\<rparr>) \<and>
    history_lines (s\<lparr>shell_history := (shell_history s)[nat (history_count s) := a],
      history_count := history_count s + 1, history_current := c\<rparr>) = history_lines s @ [line]"
proof -
  let ?n = "nat (history_count s)"
  have n: "?n < length (shell_history s)" using assms(1,4) by (simp add: history_ok_def nat_less_iff)
  then have "shell_history s ! ?n \<in> set (shell_history s)" by simp
  then have l: "length (shell_history s ! ?n) = 256" using assms(1) unfolding history_ok_def by blast
  then have "length line < length (shell_history s ! ?n)" using assms(3) by simp
  from array_strcpy_exact [OF assms(2) this] obtain a where
    a: "array_strcpy (shell_history s ! ?n) line = Some a" "length a = 256" "0 \<in> set a" "string_at a 0 = line"
    using l by auto
  have "\<forall>x \<in> set ((shell_history s)[?n := a]). length x = 256 \<and> 0 \<in> set x"
    using assms(1) a(2,3) unfolding history_ok_def by (auto dest!: set_update_subset_insert [THEN subsetD])
  then have ok: "history_ok (s\<lparr>shell_history := (shell_history s)[?n := a], history_count := history_count s + 1, history_current := c\<rparr>)"
    using assms(1,4) by (simp add: history_ok_def)
  have "nat (history_count s + 1) = Suc ?n" using assms(1) by (simp add: history_ok_def nat_add_distrib)
  then have "history_lines (s\<lparr>shell_history := (shell_history s)[?n := a], history_count := history_count s + 1, history_current := c\<rparr>) =
      history_lines s @ [line]"
    using n a(4) by (simp add: history_lines_def)
  then show ?thesis using a(1) ok by blast
qed

text \<open>Room for one more line: after the shift the first line is gone.\<close>

lemma make_room:
  assumes "history_ok s" and "\<not> history_count s < 10"
  shows "\<exists>h. shift_history [0..<nat (SHELL_HISTORY_SIZE - 1)] (shell_history s) = Some h \<and>
    history_ok (s\<lparr>shell_history := h, history_count := history_count s - 1\<rparr>) \<and>
    history_lines (s\<lparr>shell_history := h, history_count := history_count s - 1\<rparr>) = tl (history_lines s)"
proof -
  have ten: "history_count s = 10" "length (shell_history s) = 10" using assms by (simp_all add: history_ok_def)
  have nine: "nat (SHELL_HISTORY_SIZE - 1) = 9" by (simp add: SHELL_HISTORY_SIZE_def)
  obtain h where h: "shift_history [0..<9] (shell_history s) = Some h" "length h = 10"
    "\<forall>a \<in> set h. length a = 256 \<and> 0 \<in> set a"
    "\<forall>i. i < 9 \<longrightarrow> string_at (h ! i) 0 = string_at (shell_history s ! Suc i) 0"
    using shift_history_exact [of "shell_history s" 0 9] assms(1) ten by (auto simp: history_ok_def)
  have "history_lines (s\<lparr>shell_history := h, history_count := history_count s - 1\<rparr>) =
      map (\<lambda>i. string_at (shell_history s ! Suc i) 0) [0..<9]"
    using h(4) ten by (auto simp: history_lines_def)
  also have "\<dots> = tl (history_lines s)"
  proof -
    have "tl [0..<10] = map Suc [0..<9]" by (simp add: map_Suc_upt)
    then show ?thesis using ten by (simp add: history_lines_def map_tl [symmetric])
  qed
  finally show ?thesis
    using h(1-3) ten nine by (auto simp: history_ok_def)
qed

lemma history_facts:
  assumes "history_ok s"
  shows "length (history_lines s) = nat (history_count s)" "(history_lines s = []) = (history_count s = 0)"
    "0 < history_count s \<Longrightarrow> last (history_lines s) = string_at (shell_history s ! nat (history_count s - 1)) 0"
  using assms by (auto simp: history_lines_def history_ok_def last_map nat_diff_distrib)

lemma add_to_history_remembers:
  assumes "history_ok s" and "0 \<notin> set line" and "length line < 256"
  shows "\<exists>s'. shell_add_to_history line s = Some s' \<and> history_ok s' \<and> history_lines s' = remember line (history_lines s) \<and>
    (\<exists>h n c. s' = s\<lparr>shell_history := h, history_count := n, history_current := c\<rparr>)"
proof -
  note f = history_facts [OF assms(1)]
  have pos: "0 \<le> history_count s" using assms(1) by (simp add: history_ok_def)
  consider (old) "line = [] \<or> 0 < history_count s \<and> string_at (shell_history s ! nat (history_count s - 1)) 0 = line"
    | (room) "line \<noteq> []" "\<not> (0 < history_count s \<and> string_at (shell_history s ! nat (history_count s - 1)) 0 = line)" "history_count s < 10"
    | (full) "line \<noteq> []" "\<not> (0 < history_count s \<and> string_at (shell_history s ! nat (history_count s - 1)) 0 = line)" "\<not> history_count s < 10"
    by blast
  then show ?thesis
  proof cases
    case old
    then have "shell_add_to_history line s = Some s" by (auto simp: shell_add_to_history_def)
    moreover have "remember line (history_lines s) = history_lines s"
      using old f by (auto simp: remember_def)
    moreover have "s = s\<lparr>shell_history := shell_history s, history_count := history_count s, history_current := history_current s\<rparr>" by simp
    ultimately show ?thesis using assms(1) by metis
  next
    case room
    then obtain a where a: "array_strcpy (shell_history s ! nat (history_count s)) line = Some a"
      "history_ok (s\<lparr>shell_history := (shell_history s)[nat (history_count s) := a],
        history_count := history_count s + 1, history_current := history_count s + 1\<rparr>)"
      "history_lines (s\<lparr>shell_history := (shell_history s)[nat (history_count s) := a],
        history_count := history_count s + 1, history_current := history_count s + 1\<rparr>) = history_lines s @ [line]"
      using store_line [OF assms, of "history_count s + 1"] by blast
    have "remember line (history_lines s) = history_lines s @ [line]"
      using room f pos by (auto simp: remember_def)
    moreover have "shell_add_to_history line s = Some (s\<lparr>shell_history := (shell_history s)[nat (history_count s) := a],
        history_count := history_count s + 1, history_current := history_count s + 1\<rparr>)"
      using room a(1) by (auto simp: shell_add_to_history_def SHELL_HISTORY_SIZE_def Let_def)
    moreover have "\<exists>h n c. s\<lparr>shell_history := (shell_history s)[nat (history_count s) := a],
        history_count := history_count s + 1, history_current := history_count s + 1\<rparr> =
        s\<lparr>shell_history := h, history_count := n, history_current := c\<rparr>"
      by (rule exI, rule exI, rule exI, rule refl)
    ultimately show ?thesis using a(2,3) by (metis (no_types, lifting))
  next
    case full
    then obtain h where h: "shift_history [0..<nat (SHELL_HISTORY_SIZE - 1)] (shell_history s) = Some h"
      "history_ok (s\<lparr>shell_history := h, history_count := history_count s - 1\<rparr>)"
      "history_lines (s\<lparr>shell_history := h, history_count := history_count s - 1\<rparr>) = tl (history_lines s)"
      using make_room [OF assms(1)] by blast
    let ?s = "s\<lparr>shell_history := h, history_count := history_count s - 1\<rparr>"
    have nine: "history_count ?s < 10" using assms(1) by (simp add: history_ok_def)
    obtain a where a: "array_strcpy (shell_history ?s ! nat (history_count ?s)) line = Some a"
      "history_ok (?s\<lparr>shell_history := (shell_history ?s)[nat (history_count ?s) := a],
        history_count := history_count ?s + 1, history_current := history_count ?s + 1\<rparr>)"
      "history_lines (?s\<lparr>shell_history := (shell_history ?s)[nat (history_count ?s) := a],
        history_count := history_count ?s + 1, history_current := history_count ?s + 1\<rparr>) = history_lines ?s @ [line]"
      using store_line [OF h(2) assms(2,3) nine, of "history_count ?s + 1"] by blast
    have "10 \<le> length (history_lines s)" using full f(1) by simp
    moreover from this have "\<not> (line = [] \<or> history_lines s \<noteq> [] \<and> last (history_lines s) = line)"
      using full f by auto
    ultimately have "remember line (history_lines s) = tl (history_lines s) @ [line]"
      by (simp only: remember_def if_False if_True)
    moreover have "shell_add_to_history line s = Some (?s\<lparr>shell_history := (shell_history ?s)[nat (history_count ?s) := a],
        history_count := history_count ?s + 1, history_current := history_count ?s + 1\<rparr>)"
      using full a(1) h(1) by (auto simp: shell_add_to_history_def SHELL_HISTORY_SIZE_def Let_def)
    moreover have "\<exists>h' n c. ?s\<lparr>shell_history := (shell_history ?s)[nat (history_count ?s) := a],
        history_count := history_count ?s + 1, history_current := history_count ?s + 1\<rparr> =
        s\<lparr>shell_history := h', history_count := n, history_current := c\<rparr>"
      by (rule exI [of _ "h[nat (history_count s - 1) := a]"], rule exI [of _ "history_count s"],
        rule exI [of _ "history_count s"]) simp
    ultimately show ?thesis using a(2,3) h(3) by (metis (no_types, lifting))
  qed
qed

section \<open>The line editor\<close>

definition holds_line :: "u8 list \<Rightarrow> 'a shell_scheme \<Rightarrow> bool" where
  "holds_line line s \<longleftrightarrow> length (shell_buffer s) = 256 \<and> length line \<le> 255 \<and> 0 \<notin> set line \<and>
    unat (shell_buffer_pos s) = length line \<and> take (length line) (shell_buffer s) = line"

lemma holds_line_string:
  assumes "holds_line line s"
  shows "string_at ((shell_buffer s)[length line := 0]) 0 = line"
proof -
  have "(shell_buffer s)[length line := 0] = line @ 0 # drop (Suc (length line)) (shell_buffer s)"
    using assms by (auto simp: holds_line_def upd_conv_take_nth_drop)
  then show ?thesis using string_at_exact [of line "[]"] assms by (simp add: holds_line_def)
qed

lemma edit_key_line:
  assumes "holds_line line s"
  shows "holds_line (edit_char c line) (edit_key c s)"
proof -
  have b: "length (shell_buffer s) = 256" "length line \<le> 255" "0 \<notin> set line"
    "unat (shell_buffer_pos s) = length line" "take (length line) (shell_buffer s) = line"
    using assms by (simp_all add: holds_line_def)
  have pos: "0 < shell_buffer_pos s \<longleftrightarrow> line \<noteq> []" by (simp add: word_less_nat_alt b(4))
  have room: "shell_buffer_pos s < of_nat (SHELL_BUFFER_SIZE - 1) \<longleftrightarrow> length line < 255"
    by (simp add: word_less_nat_alt b(4) SHELL_BUFFER_SIZE_def)
  show ?thesis
  proof (cases "c = backspace")
    case True
    show ?thesis
    proof (cases "line = []")
      case True
      then show ?thesis using \<open>c = backspace\<close> assms pos by (simp add: edit_key_def edit_char_def)
    next
      case False
      then have d: "unat (shell_buffer_pos s - 1) = length line - 1" using b(4) by (simp add: unat_diff_u64 Suc_le_eq)
      have "take (length line - 1) (shell_buffer s) = butlast line"
        using b(5) by (metis butlast_conv_take take_take min.commute min_def diff_le_self)
      moreover have "0 \<notin> set (butlast line)" using b(3) by (auto dest: in_set_butlastD)
      ultimately show ?thesis
        using True False pos b d by (simp add: edit_key_def edit_char_def holds_line_def Let_def)
    qed
  next
    case False
    show ?thesis
    proof (cases "length line < 255 \<and> 32 \<le> c \<and> c \<le> 126")
      case True
      have u: "unat (shell_buffer_pos s + 1) = length line + 1" using b(2,4) by (simp add: unat_add_u64)
      have "c \<noteq> 0" using True by auto
      moreover have "take (length line + 1) ((shell_buffer s)[length line := c]) = line @ [c]"
        using b True by (simp add: take_Suc_conv_app_nth)
      ultimately show ?thesis
        using True False b u room by (simp add: edit_key_def edit_char_def holds_line_def Let_def)
    next
      case no: False
      then show ?thesis using False assms room by (auto simp: edit_key_def edit_char_def)
    qed
  qed
qed

section \<open>Reading a line\<close>

text \<open>Waiting for a key changes the keyboard only.\<close>

lemma keyboard_more [simp]:
  "keyboard.more (keyboard_interrupt c s) = keyboard.more s" "keyboard.more (snd (take_char s)) = keyboard.more s"
proof -
  have push: "keyboard.more (keyboard_buffer_push c s) = keyboard.more s" for c and s :: "'a keyboard_scheme"
    by (simp add: keyboard_buffer_push_def Let_def)
  show "keyboard.more (keyboard_interrupt c s) = keyboard.more s"
    by (simp add: keyboard_interrupt_handles pic_send_eoi_def outb_def Let_def handle_scancode_def push)
  show "keyboard.more (snd (take_char s)) = keyboard.more s" by (simp add: take_char_def Let_def)
qed

lemma getchar_keeps:
  assumes "\<And>sc s. f (keyboard_interrupt sc s) = f s" and "\<And>s. f (snd (take_char s)) = f s"
  shows "keyboard_getchar pending s = Some (c, rest, s') \<Longrightarrow> f s' = f s"
proof (induction pending s rule: keyboard_getchar.induct)
  case (1 pending s)
  show ?case
  proof (cases "buffer_read_pos s = buffer_write_pos s")
    case True
    then obtain sc ps where "pending = sc # ps" "keyboard_getchar ps (keyboard_interrupt sc s) = Some (c, rest, s')"
      using 1(2) by (subst (asm) keyboard_getchar.simps) (simp split: list.splits)
    then show ?thesis using 1(1) [OF True] assms(1) by simp
  next
    case False
    then have "s' = snd (take_char s)"
      using 1(2) by (subst (asm) keyboard_getchar.simps) (simp add: case_prod_beta)
    then show ?thesis by (simp add: assms(2))
  qed
qed

lemmas getchar_more = getchar_keeps [where f = keyboard.more, OF keyboard_more]

lemma shell_fields_of_more:
  assumes "keyboard.more s' = keyboard.more (s :: 'a shell_scheme)"
  shows "shell_buffer s' = shell_buffer s" "shell_buffer_pos s' = shell_buffer_pos s" "parse_buffer s' = parse_buffer s"
    "shell_history s' = shell_history s" "history_count s' = history_count s" "history_current s' = history_current s"
  using assms by (cases s; cases s'; simp)+

lemma shell_keyboard [simp]:
  "kb_valid (s\<lparr>shell_buffer := b\<rparr>) = kb_valid s" "kb_valid (s\<lparr>shell_buffer_pos := p\<rparr>) = kb_valid s"
  "kb_valid (s\<lparr>parse_buffer := b\<rparr>) = kb_valid s" "kb_valid (s\<lparr>shell_history := h\<rparr>) = kb_valid s"
  "kb_valid (s\<lparr>history_count := n\<rparr>) = kb_valid s" "kb_valid (s\<lparr>history_current := n\<rparr>) = kb_valid s"
  "stream p' (s\<lparr>shell_buffer := b\<rparr>) = stream p' s" "stream p' (s\<lparr>shell_buffer_pos := p\<rparr>) = stream p' s"
  "stream p' (s\<lparr>parse_buffer := b\<rparr>) = stream p' s" "stream p' (s\<lparr>shell_history := h\<rparr>) = stream p' s"
  "stream p' (s\<lparr>history_count := n\<rparr>) = stream p' s" "stream p' (s\<lparr>history_current := n\<rparr>) = stream p' s"
  by (simp_all add: kb_valid_def stream_def queue_def)

lemma stream_emit [simp]: "stream p (emit cs s) = stream p s"
  by (simp add: stream_def)

lemma edit_key_other:
  "kb_valid (edit_key c s) = kb_valid s" "stream p (edit_key c s) = stream p s"
  "history_ok (edit_key c s) = history_ok s" "history_lines (edit_key c s) = history_lines s"
  "parse_buffer (edit_key c s) = parse_buffer s"
  by (simp_all add: edit_key_def Let_def history_ok_def history_lines_def)

lemma enter_key_line:
  assumes "holds_line line s" and "history_ok s"
  shows "\<exists>s'. enter_key s = Some s' \<and> string_at (shell_buffer s') 0 = line \<and> length (shell_buffer s') = 256 \<and>
    history_ok s' \<and> history_lines s' = remember line (history_lines s) \<and>
    kb_valid s' = kb_valid s \<and> (\<forall>p. stream p s' = stream p s) \<and> parse_buffer s' = parse_buffer s"
proof -
  have pos: "unat (shell_buffer_pos s) = length line" "length (shell_buffer s) = 256" "0 \<notin> set line" "length line \<le> 255"
    using assms(1) by (simp_all add: holds_line_def)
  let ?s = "emit [PutChar newline] s\<lparr>shell_buffer := (shell_buffer s)[length line := 0]\<rparr>"
  have str: "string_at (shell_buffer ?s) 0 = line" using holds_line_string [OF assms(1)] by simp
  have e: "enter_key s = (if 0 < length line then shell_add_to_history line ?s else Some ?s)"
    using str by (simp add: enter_key_def Let_def pos(1))
  have ok: "history_ok ?s" "history_lines ?s = history_lines s"
    using assms(2) by (simp_all add: history_ok_def history_lines_def)
  have "length line < 256" using pos(4) by simp
  from add_to_history_remembers [OF ok(1) pos(3) this] obtain s' h n c where
    s': "shell_add_to_history line ?s = Some s'" "history_ok s'" "history_lines s' = remember line (history_lines s)"
      "s' = ?s\<lparr>shell_history := h, history_count := n, history_current := c\<rparr>" unfolding ok(2) by blast
  show ?thesis
  proof (cases "line = []")
    case True
    then show ?thesis using e ok str pos by (auto simp: remember_def)
  next
    case False
    have "string_at (shell_buffer s') 0 = line" "length (shell_buffer s') = 256" "kb_valid s' = kb_valid s"
      "\<forall>p. stream p s' = stream p s" "parse_buffer s' = parse_buffer s"
      using str pos(2) by (simp_all add: s'(4))
    then show ?thesis using False e s'(1-3) by simp
  qed
qed

lemma readline_loop_line:
  fixes pending :: "u8 list"
  assumes "kb_valid s" and "holds_line line s" and "history_ok s"
  defines "typed_line \<equiv> fold edit_char (takeWhile (\<lambda>c. c \<noteq> newline) (stream pending s)) line"
  shows "if newline \<in> set (stream pending s)
    then \<exists>rest s'. readline_loop pending s = Some (rest, s') \<and> string_at (shell_buffer s') 0 = typed_line \<and>
      length (shell_buffer s') = 256 \<and> history_ok s' \<and> history_lines s' = remember typed_line (history_lines s) \<and>
      kb_valid s' \<and> stream rest s' = tl (dropWhile (\<lambda>c. c \<noteq> newline) (stream pending s)) \<and>
      parse_buffer s' = parse_buffer s
    else readline_loop pending s = None"
  using assms(1-3) unfolding typed_line_def
proof (induction "length (stream pending s)" arbitrary: pending s line)
  case 0
  then have "keyboard_getchar pending s = None" using getchar_stream [OF 0(2), of pending] by simp
  then have "readline_loop pending s = None" by (subst readline_loop.simps) simp
  then show ?case using 0(1) by simp
next
  case (Suc n)
  then obtain c cs where cs: "stream pending s = c # cs" by (cases "stream pending s") auto
  obtain rest s1 where g: "keyboard_getchar pending s = Some (c, rest, s1)" "stream rest s1 = cs" "kb_valid s1"
    using getchar_stream [OF Suc(3), of pending] by (auto simp: cs)
  note f = shell_fields_of_more [OF getchar_more [OF g(1)]]
  have h: "holds_line line s1" "history_ok s1" "history_lines s1 = history_lines s"
    using Suc(4,5) f by (simp_all add: holds_line_def history_ok_def history_lines_def)
  show ?case
  proof (cases "c = newline")
    case True
    obtain s' where e: "enter_key s1 = Some s'" "string_at (shell_buffer s') 0 = line" "length (shell_buffer s') = 256"
      "history_ok s'" "history_lines s' = remember line (history_lines s1)" "kb_valid s' = kb_valid s1"
      "\<forall>p. stream p s' = stream p s1" "parse_buffer s' = parse_buffer s1"
      using enter_key_line [OF h(1,2)] by blast
    then have "readline_loop pending s = Some (rest, s')" using g(1) True by (subst readline_loop.simps) simp
    then show ?thesis using True e g h f by (simp add: cs)
  next
    case False
    have n: "n = length (stream rest (edit_key c s1))" using Suc(2) g(2) by (simp add: cs edit_key_other)
    have "readline_loop pending s = readline_loop rest (edit_key c s1)"
      using g(1) False by (subst readline_loop.simps) simp
    moreover have "kb_valid (edit_key c s1)" "history_ok (edit_key c s1)" using g(3) h(2) by (simp_all add: edit_key_other)
    ultimately show ?thesis
      using Suc(1) [OF n _ edit_key_line [OF h(1)]] False g(2) h(3) f
      by (cases "newline \<in> set cs") (simp_all add: cs edit_key_other)
  qed
qed

section \<open>Properties\<close>

text \<open>The state that the shell starts in, and keeps between two lines.\<close>

definition shell_ok :: "'a shell_scheme \<Rightarrow> bool" where
  "shell_ok s \<longleftrightarrow> kb_valid s \<and> history_ok s \<and> length (shell_buffer s) = 256 \<and> length (parse_buffer s) = 256"

lemma boot_shell_ok: "shell_ok boot_shell" "history_lines boot_shell = []"
proof -
  have "kb_valid boot_shell"
    by (simp add: boot_shell_def boot_kernel_def boot_keyboard_def kernel.defs keyboard.defs kb_valid_def
        KEYBOARD_BUFFER_SIZE_def)
  then show "shell_ok boot_shell" by (simp add: shell_ok_def history_ok_def boot_shell_simps)
  show "history_lines boot_shell = []" by (simp add: history_lines_def boot_shell_simps)
qed

lemma readline_spec:
  fixes pending :: "u8 list"
  assumes "shell_ok s"
  defines "chars \<equiv> stream pending s"
  shows "if newline \<in> set chars
    then \<exists>rest s'. shell_readline pending s = Some (edit_line (takeWhile (\<lambda>c. c \<noteq> newline) chars), rest, s') \<and>
      stream rest s' = tl (dropWhile (\<lambda>c. c \<noteq> newline) chars) \<and> shell_ok s' \<and>
      history_lines s' = remember (edit_line (takeWhile (\<lambda>c. c \<noteq> newline) chars)) (history_lines s)
    else shell_readline pending s = None"
proof -
  let ?s = "shell_show_prompt (s\<lparr>shell_buffer_pos := 0, shell_buffer := (shell_buffer s)[0 := 0]\<rparr>)"
  have a: "kb_valid ?s" "holds_line [] ?s" "history_ok ?s" "history_lines ?s = history_lines s" "stream pending ?s = chars"
    "length (parse_buffer ?s) = 256"
    using assms by (simp_all add: shell_ok_def shell_show_prompt_def holds_line_def history_ok_def history_lines_def)
  have r: "shell_readline pending s = Option.bind (readline_loop pending ?s) (\<lambda>(pending, s). Some (string_at (shell_buffer s) 0, pending, s))"
    by (simp add: shell_readline_def Let_def)
  show ?thesis
  proof (cases "newline \<in> set chars")
    case True
    then obtain rest s' where s': "readline_loop pending ?s = Some (rest, s')"
      "string_at (shell_buffer s') 0 = edit_line (takeWhile (\<lambda>c. c \<noteq> newline) chars)"
      "length (shell_buffer s') = 256" "history_ok s'"
      "history_lines s' = remember (edit_line (takeWhile (\<lambda>c. c \<noteq> newline) chars)) (history_lines s)"
      "kb_valid s'" "stream rest s' = tl (dropWhile (\<lambda>c. c \<noteq> newline) chars)" "parse_buffer s' = parse_buffer ?s"
      using readline_loop_line [OF a(1-3), of pending] unfolding a(4,5) edit_line_def by auto
    then show ?thesis using True a(6) by (simp add: r shell_ok_def)
  next
    case False
    then show ?thesis using readline_loop_line [OF a(1-3), of pending] unfolding a(4,5) by (simp add: r)
  qed
qed

text \<open>
  C19: \<open>shell_readline\<close> returns exactly when Enter is typed. The line it returns is what the typed
  characters make of an empty line: printable ones are appended while fewer than 255 are there,
  a backspace removes the last one, all others are ignored. What follows Enter is left to be
  read, and the line is entered into the history.
\<close>

theorem readline_edits:
  fixes pending :: "u8 list"
  assumes "shell_ok s"
  shows "if newline \<in> set (stream pending s)
    then \<exists>rest s'. shell_readline pending s = Some (edit_line (takeWhile (\<lambda>c. c \<noteq> newline) (stream pending s)), rest, s') \<and>
      stream rest s' = tl (dropWhile (\<lambda>c. c \<noteq> newline) (stream pending s)) \<and> shell_ok s' \<and>
      history_lines s' = remember (edit_line (takeWhile (\<lambda>c. c \<noteq> newline) (stream pending s))) (history_lines s)
    else shell_readline pending s = None"
  by (rule readline_spec [OF assms])

lemma boot_stream: "stream pending boot_shell = typed False False pending"
proof -
  have "queue boot_shell = []" "shift_pressed boot_shell = False" "caps_lock boot_shell = False"
    by (simp_all add: boot_shell_def boot_kernel_def boot_keyboard_def kernel.defs keyboard.defs queue_def ring_def)
  then show ?thesis by (simp add: stream_def)
qed

text \<open>The keys h, x, Backspace, i, Enter.\<close>

lemma typed_hi: "typed False False [0x23, 0x2D, 0x0E, 0x17, 0x1C] = [104, 120, 8, 105, 10]"
  by (simp add: key_char_def scancode_to_ascii_def lit_def)

theorem readline_edits_witness:
  "\<exists>rest s'. shell_readline [0x23, 0x2D, 0x0E, 0x17, 0x1C] boot_shell = Some ([104, 105], rest, s') \<and>
    history_lines s' = [[104, 105]]"
  using readline_edits [OF boot_shell_ok(1), of "[0x23, 0x2D, 0x0E, 0x17, 0x1C]"]
  unfolding boot_stream typed_hi by (auto simp: edit_line_def edit_char_def remember_def boot_shell_ok)

text \<open>
  The history keeps the last ten lines: a new line that is not empty and not the same as the
  one before it is appended, and the oldest goes when there are ten. The buffers never overflow.
\<close>

theorem history_keeps_ten:
  assumes "history_ok s" and "0 \<notin> set line" and "length line < 256"
  shows "\<exists>s'. shell_add_to_history line s = Some s' \<and> history_ok s' \<and>
    history_lines s' = remember line (history_lines s) \<and> length (history_lines s') \<le> 10"
  using add_to_history_remembers [OF assms] history_facts(1) by (fastforce simp: history_ok_def)

theorem history_keeps_ten_witness:
  "\<exists>s'. shell_add_to_history [104, 105] boot_shell = Some s' \<and> history_lines s' = [[104, 105]]"
  using history_keeps_ten [of boot_shell "[104, 105]"] boot_shell_ok
  by (auto simp: shell_ok_def remember_def)

end
