(* ===== verification/Memory_Tests.thy ===== *)
theory Memory_Tests
  imports Shell "HOL-Library.Monad_Syntax"
begin

text \<open>
  The memory tests that the shell runs on the command \<open>memtest\<close> (\<open>memory_tests.c\<close>) and the
  reports of the test suite that they use (\<open>test_print_pass\<close> and its siblings of \<open>test_suite.c\<close>).
  The tests are clients of the heap and of the frame allocator of the running kernel. A test
  returns \<open>None\<close> when a walk along the heap's list would not end. Structures that the code leaves
  to the callee to fill start as \<open>blank_stats\<close>.
\<close>

section \<open>Reports\<close>

record tests = shell +
  tests_passed :: u32
  tests_failed :: u32

abbreviation a_acute :: "u8 list" where "a_acute \<equiv> [0xC3, 0xA1]"
abbreviation e_acute :: "u8 list" where "e_acute \<equiv> [0xC3, 0xA9]"
abbreviation i_acute :: "u8 list" where "i_acute \<equiv> [0xC3, 0xAD]"
abbreviation o_acute :: "u8 list" where "o_acute \<equiv> [0xC3, 0xB3]"
abbreviation u_acute :: "u8 list" where "u_acute \<equiv> [0xC3, 0xBA]"
abbreviation n_tilde :: "u8 list" where "n_tilde \<equiv> [0xC3, 0xB1]"
abbreviation O_acute :: "u8 list" where "O_acute \<equiv> [0xC3, 0x93]"

definition TEST_COLOR_PASS :: u8 where "TEST_COLOR_PASS = vga_entry_color VGA_COLOR_LIGHT_GREEN VGA_COLOR_BLACK"
definition TEST_COLOR_FAIL :: u8 where "TEST_COLOR_FAIL = vga_entry_color VGA_COLOR_LIGHT_RED VGA_COLOR_BLACK"
definition TEST_COLOR_INFO :: u8 where "TEST_COLOR_INFO = vga_entry_color VGA_COLOR_LIGHT_CYAN VGA_COLOR_BLACK"
definition TEST_COLOR_WARN :: u8 where "TEST_COLOR_WARN = vga_entry_color VGA_COLOR_LIGHT_BROWN VGA_COLOR_BLACK"

definition test_print_pass :: "u8 list \<Rightarrow> 'a tests_scheme \<Rightarrow> 'a tests_scheme" where
  "test_print_pass test_name s =
    (let s = emit [SetColor TEST_COLOR_PASS, Text ''[PASS] '', Color VGA_COLOR_LIGHT_GREY, Write test_name, Line ''''] s
     in s\<lparr>tests_passed := tests_passed s + 1\<rparr>)"

definition test_print_fail :: "u8 list \<Rightarrow> 'a tests_scheme \<Rightarrow> 'a tests_scheme" where
  "test_print_fail test_name s =
    (let s = emit [SetColor TEST_COLOR_FAIL, Text ''[FAIL] '', Color VGA_COLOR_LIGHT_GREY, Write test_name, Line ''''] s
     in s\<lparr>tests_failed := tests_failed s + 1\<rparr>)"

definition test_print_info :: "u8 list \<Rightarrow> 'a tests_scheme \<Rightarrow> 'a tests_scheme" where
  "test_print_info message =
    emit [SetColor TEST_COLOR_INFO, Text ''[INFO] '', Color VGA_COLOR_LIGHT_GREY, Write message, Line '''']"

definition test_print_warn :: "u8 list \<Rightarrow> 'a tests_scheme \<Rightarrow> 'a tests_scheme" where
  "test_print_warn message =
    emit [SetColor TEST_COLOR_WARN, Text ''[WARN] '', Color VGA_COLOR_LIGHT_GREY, Write message, Line '''']"

section \<open>Loops over blocks\<close>

text \<open>The allocation loop that gives up at the first \<open>NULL\<close> (\<open>None\<close> in the pair).\<close>

fun alloc_each :: "u64 list \<Rightarrow> 'a heap_scheme \<Rightarrow> (u64 list option \<times> 'a heap_scheme) option" where
  "alloc_each [] s = Some (Some [], s)"
| "alloc_each (n # ns) s = do {
     (p, s) \<leftarrow> kmalloc n s;
     if p = NULL then Some (None, s)
     else do {
       (ps, s) \<leftarrow> alloc_each ns s;
       Some (map_option (Cons p) ps, s)
     }
   }"

text \<open>The allocation loop that stores whatever \<open>kmalloc\<close> returns.\<close>

fun alloc_all :: "u64 list \<Rightarrow> 'a heap_scheme \<Rightarrow> (u64 list \<times> 'a heap_scheme) option" where
  "alloc_all [] s = Some ([], s)"
| "alloc_all (n # ns) s = do {
     (p, s) \<leftarrow> kmalloc n s;
     (ps, s) \<leftarrow> alloc_all ns s;
     Some (p # ps, s)
   }"

fun free_all :: "u64 list \<Rightarrow> 'a heap_scheme \<Rightarrow> 'a heap_scheme option" where
  "free_all [] s = Some s"
| "free_all (p # ps) s = do {
     s \<leftarrow> kfree p s;
     free_all ps s
   }"

text \<open>\<open>if (ptrs[idx]) { kfree(ptrs[idx]); ptrs[idx] = NULL; }\<close> for the indices in turn.\<close>

fun free_at :: "nat list \<Rightarrow> u64 list \<Rightarrow> 'a heap_scheme \<Rightarrow> (u64 list \<times> 'a heap_scheme) option" where
  "free_at [] ptrs s = Some (ptrs, s)"
| "free_at (idx # is) ptrs s =
     (if ptrs ! idx \<noteq> NULL then do {
        s \<leftarrow> kfree (ptrs ! idx) s;
        free_at is (ptrs[idx := NULL]) s
      }
      else free_at is ptrs s)"

section \<open>The tests of the heap\<close>

definition test_kmalloc_alloc_free_basic :: "'a tests_scheme \<Rightarrow> 'a tests_scheme option" where
  "test_kmalloc_alloc_free_basic s = do {
     let s = test_print_info (lit ''Test: kmalloc/kfree b'' @ a_acute @ lit ''sico...'') s;
     stats_before \<leftarrow> heap_get_stats blank_stats s;
     (blocks, s) \<leftarrow> alloc_each (replicate 10 64) s;
     case blocks of
       None \<Rightarrow> Some (test_print_fail (lit ''kmalloc/kfree b'' @ a_acute @ lit ''sico'') s)
     | Some blocks \<Rightarrow> do {
         s \<leftarrow> free_all blocks s;
         stats_after \<leftarrow> heap_get_stats blank_stats s;
         if stat_used_size stats_after \<le> stat_used_size stats_before + 256
         then Some (test_print_pass (lit ''kmalloc/kfree b'' @ a_acute @ lit ''sico'') s)
         else Some (test_print_warn (lit ''kmalloc/kfree b'' @ a_acute @ lit ''sico - posible fragmentaci'' @ o_acute @ lit ''n'') s)
       }
   }"

definition test_kmalloc_coalesce :: "'a tests_scheme \<Rightarrow> 'a tests_scheme option" where
  "test_kmalloc_coalesce s = do {
     let s = test_print_info (lit ''Test: Coalescencia de bloques...'') s;
     (block1, s) \<leftarrow> kmalloc 100 s;
     (block2, s) \<leftarrow> kmalloc 100 s;
     (block3, s) \<leftarrow> kmalloc 100 s;
     if block1 = NULL \<or> block2 = NULL \<or> block3 = NULL
     then Some (test_print_fail (lit ''Coalescencia - allocaci'' @ o_acute @ lit ''n fall'' @ o_acute) s)
     else do {
       stats_before \<leftarrow> heap_get_stats blank_stats s;
       let blocks_before = stat_free_block_count stats_before;
       s \<leftarrow> kfree block1 s;
       s \<leftarrow> kfree block2 s;
       s \<leftarrow> kfree block3 s;
       stats_after \<leftarrow> heap_get_stats blank_stats s;
       if stat_free_block_count stats_after \<le> blocks_before
       then Some (emit [Text ''  Bloques libres antes: '', Dec (ucast blocks_before),
                        Write (lit '', despu'' @ e_acute @ lit ''s: ''), Dec (ucast (stat_free_block_count stats_after)),
                        Line ''''] (test_print_pass (lit ''Coalescencia de bloques'') s))
       else Some (test_print_warn (lit ''Coalescencia - bloques no fusionados correctamente'') s)
     }
   }"

text \<open>\<open>str[i] = 'A' + i\<close> for nine bytes, a NUL byte, and the comparison with the moved string.\<close>

definition write_letters :: "u64 \<Rightarrow> mem \<Rightarrow> mem" where
  "write_letters str m =
    store8 (fold (\<lambda>i m. store8 m (str + of_nat i) (65 + of_nat i)) [0..<9] m) (str + 9) 0"

definition letters_kept :: "u64 \<Rightarrow> mem \<Rightarrow> bool" where
  "letters_kept new_str m \<longleftrightarrow> list_all (\<lambda>i. load8 m (new_str + of_nat i) = 65 + of_nat i) [0..<9]"

definition test_krealloc :: "'a tests_scheme \<Rightarrow> 'a tests_scheme option" where
  "test_krealloc s = do {
     let s = test_print_info (lit ''Test: krealloc...'') s;
     (str, s) \<leftarrow> kmalloc 10 s;
     if str = NULL
     then Some (test_print_fail (lit ''krealloc - allocaci'' @ o_acute @ lit ''n inicial fall'' @ o_acute) s)
     else do {
       let s = upd_ram (write_letters str) s;
       (new_str, s) \<leftarrow> krealloc str 20 s;
       if new_str = NULL
       then kfree str (test_print_fail (lit ''krealloc - redimensi'' @ o_acute @ lit ''n fall'' @ o_acute) s)
       else do {
         let data_ok = letters_kept new_str (ram s);
         s \<leftarrow> kfree new_str s;
         if data_ok then Some (test_print_pass (lit ''krealloc'') s)
         else Some (test_print_fail (lit ''krealloc - datos corrompidos'') s)
       }
     }
   }"

definition test_kcalloc :: "'a tests_scheme \<Rightarrow> 'a tests_scheme option" where
  "test_kcalloc s = do {
     let s = test_print_info (lit ''Test: kcalloc...'') s;
     (array, s) \<leftarrow> kcalloc 50 4 s;
     if array = NULL
     then Some (test_print_fail (lit ''kcalloc - allocaci'' @ o_acute @ lit ''n fall'' @ o_acute) s)
     else do {
       let all_zero = list_all (\<lambda>i. load32 (ram s) (array + 4 * of_nat i) = 0) [0..<50];
       s \<leftarrow> kfree array s;
       if all_zero then Some (test_print_pass (lit ''kcalloc'') s)
       else Some (test_print_fail (lit ''kcalloc - memoria no limpia'') s)
     }
   }"

definition test_double_free :: "'a tests_scheme \<Rightarrow> 'a tests_scheme option" where
  "test_double_free s = do {
     let s = test_print_info (lit ''Test: Detecci'' @ o_acute @ lit ''n de doble liberaci'' @ o_acute @ lit ''n...'') s;
     (ptr, s) \<leftarrow> kmalloc 100 s;
     if ptr = NULL
     then Some (test_print_fail (lit ''Doble free - allocaci'' @ o_acute @ lit ''n fall'' @ o_acute) s)
     else do {
       s \<leftarrow> kfree ptr s;
       let s = emit [Line ''  Intentando doble free (debe mostrar warning):''] s;
       s \<leftarrow> kfree ptr s;
       Some (test_print_pass (lit ''Detecci'' @ o_acute @ lit ''n de doble liberaci'' @ o_acute @ lit ''n'') s)
     }
   }"

definition STRESS_ITERATIONS :: nat where "STRESS_ITERATIONS = 100"

text \<open>The cycles; each one fills \<open>ptrs\<close> anew, and what it leaves in \<open>ptrs\<close> is not read.\<close>

fun stress_cycles :: "nat \<Rightarrow> 'a heap_scheme \<Rightarrow> 'a heap_scheme option" where
  "stress_cycles 0 s = Some s"
| "stress_cycles (Suc n) s = do {
     (ptrs, s) \<leftarrow> alloc_all (map (\<lambda>i. of_nat ((i * 17 + 13) mod 200 + 16)) [0..<STRESS_ITERATIONS]) s;
     (ptrs, s) \<leftarrow> free_at (map (\<lambda>i. (i * 37 + 11) mod STRESS_ITERATIONS) [0..<STRESS_ITERATIONS]) ptrs s;
     stress_cycles n s
   }"

definition test_kmalloc_stress :: "'a tests_scheme \<Rightarrow> 'a tests_scheme option" where
  "test_kmalloc_stress s = do {
     let s = test_print_info (lit ''Test: Stress test kmalloc/kfree...'') s;
     stats_initial \<leftarrow> heap_get_stats blank_stats s;
     s \<leftarrow> stress_cycles 5 s;
     stats_final \<leftarrow> heap_get_stats blank_stats s;
     let s = emit [Text ''  Memoria usada inicial: '', Dec (stat_used_size stats_initial), Text '', final: '',
                   Dec (stat_used_size stats_final), Line ''''] s;
     let (valid, s) = heap_validate s;
     if valid then Some (test_print_pass (lit ''Stress test kmalloc/kfree'') s)
     else Some (test_print_fail (lit ''Stress test - heap corrupto'') s)
   }"

definition FRAG_TEST_BLOCKS :: nat where "FRAG_TEST_BLOCKS = 20"

text \<open>
  The first release loop does not test for \<open>NULL\<close>, which \<open>kfree\<close> accepts; the blocks at odd
  indices are those that it leaves in the array.
\<close>

definition test_heap_fragmentation :: "'a tests_scheme \<Rightarrow> 'a tests_scheme option" where
  "test_heap_fragmentation s = do {
     let s = test_print_info (lit ''Test: Medici'' @ o_acute @ lit ''n de fragmentaci'' @ o_acute @ lit ''n del heap...'') s;
     (blocks, s) \<leftarrow> alloc_all (map (\<lambda>i. of_nat ((i + 1) * 50)) [0..<FRAG_TEST_BLOCKS]) s;
     s \<leftarrow> free_all (map (\<lambda>k. blocks ! (2 * k)) [0..<FRAG_TEST_BLOCKS div 2]) s;
     stats \<leftarrow> heap_get_stats blank_stats s;
     let s = emit [Text ''  Bloques libres: '', Dec (ucast (stat_free_block_count stats)), Text '', memoria libre: '',
                   Dec (stat_free_size stats), Line '' bytes''] s;
     (blocks, s) \<leftarrow> free_at (map (\<lambda>k. 2 * k + 1) [0..<FRAG_TEST_BLOCKS div 2]) blocks s;
     Some (test_print_pass (lit ''Medici'' @ o_acute @ lit ''n de fragmentaci'' @ o_acute @ lit ''n'') s)
   }"

section \<open>The tests of the frame allocator\<close>

definition test_pmm_alloc_multiple :: "'a tests_scheme \<Rightarrow> 'a tests_scheme" where
  "test_pmm_alloc_multiple s =
    (let s = test_print_info (lit ''Test: PMM allocar m'' @ u_acute @ lit ''ltiples frames...'') s;
         stats_before = pmm_get_stats s;
         (addr, s) = pmm_alloc_frames 10 s
     in if addr = 0
        then test_print_fail (lit ''PMM alloc m'' @ u_acute @ lit ''ltiple - allocaci'' @ o_acute @ lit ''n fall'' @ o_acute) s
        else
          let stats_after_alloc = pmm_get_stats s
          in if st_used_frames stats_after_alloc = st_used_frames stats_before + 10 then
               let s = pmm_free_frames addr 10 s;
                   stats_after_free = pmm_get_stats s
               in if st_used_frames stats_after_free = st_used_frames stats_before
                  then test_print_pass (lit ''PMM alloc/free m'' @ u_acute @ lit ''ltiple'') s
                  else test_print_warn (lit ''PMM alloc/free m'' @ u_acute @ lit ''ltiple - liberaci'' @ o_acute @ lit ''n parcial'') s
             else
               let s = test_print_fail (lit ''PMM alloc m'' @ u_acute @ lit ''ltiple - frames incorrectos'') s
               in pmm_free_frames addr 10 s)"

definition test_pmm_stats :: "'a tests_scheme \<Rightarrow> 'a tests_scheme" where
  "test_pmm_stats s =
    (let s = test_print_info (lit ''Test: Estad'' @ i_acute @ lit ''sticas del PMM...'') s;
         stats = pmm_get_stats s;
         stats_valid = True;
         (s, stats_valid) = (if st_total_frames stats \<noteq> st_used_frames stats + st_free_frames stats
           then (emit [Line ''  [ERROR] Total != Used + Free''] s, False) else (s, stats_valid));
         (s, stats_valid) = (if st_total_bytes stats \<noteq> st_total_frames stats * PAGE_SIZE
           then (emit [Line ''  [ERROR] Total bytes incorrecto''] s, False) else (s, stats_valid));
         (s, stats_valid) = (if 100 < st_usage_percent stats
           then (emit [Line ''  [ERROR] Porcentaje > 100''] s, False) else (s, stats_valid))
     in if stats_valid
        then emit [Text ''  Total: '', Dec (st_total_frames stats), Text '' frames, usado: '',
                   Dec (ucast (st_usage_percent stats)), Line ''%'']
               (test_print_pass (lit ''Estad'' @ i_acute @ lit ''sticas del PMM'') s)
        else test_print_fail (lit ''Estad'' @ i_acute @ lit ''sticas del PMM'') s)"

definition test_pmm_contiguous_large :: "'a tests_scheme \<Rightarrow> 'a tests_scheme" where
  "test_pmm_contiguous_large s =
    (let s = test_print_info (lit ''Test: PMM bloques contiguos grandes...'') s;
         (addr, s) = pmm_alloc_frames 100 s
     in if addr = 0
        then emit [Write (lit ''  (Esto es normal si hay fragmentaci'' @ o_acute @ lit ''n)'' @ [newline])]
               (test_print_warn (lit ''PMM bloques grandes - no hay 100 frames contiguos'') s)
        else
          let contiguous = list_all (\<lambda>i.
                let expected = addr + of_nat i * PAGE_SIZE;
                    next = addr + (of_nat i + 1) * PAGE_SIZE
                in next = expected + PAGE_SIZE) [0..<99];
              s = pmm_free_frames addr 100 s
          in if contiguous then test_print_pass (lit ''PMM bloques contiguos grandes'') s
             else test_print_fail (lit ''PMM bloques grandes - no son contiguos'') s)"

section \<open>All tests\<close>

text \<open>Steps in order, until one raises an exception.\<close>

fun in_order :: "('s \<Rightarrow> (cpu_exception + 's) option) list \<Rightarrow> 's \<Rightarrow> (cpu_exception + 's) option" where
  "in_order [] s = Some (Inr s)"
| "in_order (f # fs) s = do {
     r \<leftarrow> f s;
     case r of Inl e \<Rightarrow> Some (Inl e) | Inr s \<Rightarrow> in_order fs s
   }"

definition printing :: "tcall list \<Rightarrow> 'a tests_scheme \<Rightarrow> (cpu_exception + 'a tests_scheme) option" where
  "printing cs s = Some (Inr (emit cs s))"

text \<open>\<open>test(); timer_wait(100);\<close>\<close>

definition then_wait :: "('a tests_scheme \<Rightarrow> 'a tests_scheme option) \<Rightarrow>
    'a tests_scheme \<Rightarrow> (cpu_exception + 'a tests_scheme) option" where
  "then_wait test s = do {
     s \<leftarrow> test s;
     Some (timer_wait 100 s)
   }"

definition run_memory_tests :: "'a tests_scheme \<Rightarrow> (cpu_exception + 'a tests_scheme) option" where
  "run_memory_tests = in_order
     [printing
        [Color VGA_COLOR_LIGHT_CYAN, Line '''',
         Line ''|=========================================|'',
         Line ''|    TESTS DEL BLOQUE 2.1 - MEMORIA       |'',
         Line ''|=========================================|'', Line '''',
         Color VGA_COLOR_LIGHT_BROWN, Write (lit ''--- Tests de KMALLOC con KFREE ---'' @ [newline, newline])],
      then_wait test_kmalloc_alloc_free_basic,
      then_wait test_kmalloc_coalesce,
      then_wait test_krealloc,
      then_wait test_kcalloc,
      then_wait test_double_free,
      then_wait test_kmalloc_stress,
      printing
        [Line '''', Color VGA_COLOR_LIGHT_BROWN, Write (lit ''--- Tests de PMM MEJORADO ---'' @ [newline, newline])],
      then_wait (\<lambda>s. Some (test_pmm_alloc_multiple s)),
      then_wait (\<lambda>s. Some (test_pmm_stats s)),
      then_wait (\<lambda>s. Some (test_pmm_contiguous_large s)),
      printing
        [Line '''', Color VGA_COLOR_LIGHT_BROWN,
         Write (lit ''--- Tests de FRAGMENTACI'' @ O_acute @ lit ''N ---'' @ [newline, newline])],
      then_wait test_heap_fragmentation,
      printing
        [Line '''', Color VGA_COLOR_LIGHT_CYAN, Line ''Tests del Bloque 2.1 completados.'']]"

section \<open>The command\<close>

text \<open>The state of the two allocators, in the colours of the reports.\<close>

definition report_state :: "'a tests_scheme \<Rightarrow> (pmm_stats \<times> heap_stats \<times> 'a tests_scheme) option" where
  "report_state s = do {
     let pmm = pmm_get_stats s;
     heap \<leftarrow> heap_get_stats blank_stats s;
     Some (pmm, heap, emit
       [Color VGA_COLOR_LIGHT_GREY, Text ''PMM: '', Dec (st_free_frames pmm), Text '' frames libres ('',
        Dec (ucast (st_usage_percent pmm)), Line ''% usado)'', Text ''Heap: '', Dec (stat_free_size heap div 1024),
        Text '' KB libres, '', Dec (ucast (stat_block_count heap))] s)
   }"

text \<open>The signed difference of two counters, with a sign and its absolute value.\<close>

definition difference :: "u64 \<Rightarrow> tcall list" where
  "difference d = (if 0 < sint d then [Text ''+'', Dec d] else [Dec (- d)])"

definition leak_analysis :: "u64 \<Rightarrow> u64 \<Rightarrow> tcall list" where
  "leak_analysis pmm_diff heap_diff =
    (if pmm_diff = 0 \<and> heap_diff = 0
     then [Color VGA_COLOR_GREEN, Line ''No se detectaron memory leaks'']
     else
       (if pmm_diff \<noteq> 0
        then [Color VGA_COLOR_LIGHT_BROWN, Text ''PMM diferencia: ''] @ difference pmm_diff @ [Line '' frames''] else []) @
       (if heap_diff \<noteq> 0
        then [Color VGA_COLOR_LIGHT_BROWN, Text ''Heap diferencia: ''] @ difference heap_diff @ [Line '' bytes''] else []) @
       [Color VGA_COLOR_LIGHT_GREY,
        Write (lit ''(Peque'' @ n_tilde @ lit ''as diferencias son normales debido a overhead)'' @ [newline])])"

definition shell_cmd_memtest :: "'a tests_scheme \<Rightarrow> (cpu_exception + 'a tests_scheme) option" where
  "shell_cmd_memtest s = do {
     let s = emit [Color VGA_COLOR_LIGHT_CYAN, Line '''',
                   Line ''|========================================|'',
                   Line ''|     SUITE DE TESTS DE MEMORIA          |'',
                   Line ''|========================================|'', Line '''',
                   Color VGA_COLOR_LIGHT_BROWN, Write (lit ''--- Estado inicial ---'' @ [newline, newline])] s;
     (pmm_initial, heap_initial, s) \<leftarrow> report_state s;
     let s = emit [Write (lit '' bloques'' @ [newline, newline])] s;
     r \<leftarrow> run_memory_tests s;
     case r of
       Inl e \<Rightarrow> Some (Inl e)
     | Inr s \<Rightarrow> do {
         let s = emit [Line '''', Color VGA_COLOR_LIGHT_BROWN,
                       Write (lit ''--- Estado final ---'' @ [newline, newline])] s;
         (pmm_final, heap_final, s) \<leftarrow> report_state s;
         let s = emit [Line '' bloques'', Line '''', Color VGA_COLOR_LIGHT_BROWN,
                       Write (lit ''--- An'' @ a_acute @ lit ''lisis de memory leaks ---'' @ [newline, newline])] s;
         let pmm_diff = st_used_frames pmm_final - st_used_frames pmm_initial;
         let heap_diff = stat_used_size heap_final - stat_used_size heap_initial;
         Some (Inr (emit (leak_analysis pmm_diff heap_diff @ [Line '''']) s))
       }
   }"

end
