(* ===== verification/Heap_State.thy ===== *)
theory Heap_State
  imports Heap_Claims Memory_Tests
begin

text \<open>
  The heap as a client sees it: a map from the pointers handed out to the sizes of their blocks.
  Between two operations no two neighbours are free, and such a heap has only one layout for a
  given map; so a client that releases what it allocated, in any order, leaves the very same
  layout behind. The loops of the memory tests are specified over this map.
\<close>

section \<open>The layout is determined by the live blocks\<close>

lemma live_at_start: "live_map a xs a = Some k \<Longrightarrow> \<exists>zs. xs = (k, False) # zs"
  by (cases "(a, xs)" rule: live_map.cases) (auto simp: live_map_outside split: if_splits)

lemma no_adjacent_tl: "no_adjacent_free (z # zs) \<Longrightarrow> no_adjacent_free zs"
  by (cases zs) (auto simp: no_adjacent_free_def)

lemma after_free:
  assumes "no_adjacent_free ((k, True) # zs)"
  obtains "zs = []" | j ws where "zs = (j, False) # ws" "live_map a zs a = Some j"
  using assms by (cases zs) (auto simp: no_adjacent_free_def)

lemma layout_unique:
  "no_adjacent_free xs \<Longrightarrow> no_adjacent_free ys \<Longrightarrow> endof a xs = endof a ys \<Longrightarrow>
   live_map a xs = live_map a ys \<Longrightarrow> xs = ys"
proof (induction a xs arbitrary: ys rule: live_map.induct)
  case (1 a)
  then show ?case
  proof (cases ys)
    case (Cons y zs)
    then show ?thesis using 1(3) endof_ge [of "a + HDR + fst y" zs] by (cases y) simp
  qed simp
next
  case (2 a k f xs)
  note adj = no_adjacent_tl [OF 2(3)]
  show ?case
  proof (cases f)
    case False
    then have "live_map a ys a = Some k" using 2(6) by (simp flip: 2(6))
    then obtain zs where zs: "ys = (k, False) # zs" using live_at_start by blast
    let ?X = "live_map (a + HDR + k) xs" and ?Z = "live_map (a + HDR + k) zs"
    have "?X(a \<mapsto> k) = ?Z(a \<mapsto> k)" using 2(6) False zs by (simp del: fun_upd_apply)
    moreover have "?X a = None" "?Z a = None" by (simp_all add: live_map_outside)
    ultimately have "?X = ?Z" by (metis fun_upd_triv fun_upd_upd)
    then show ?thesis
      using 2(2) [OF False adj no_adjacent_tl [OF 2(4) [unfolded zs]]] 2(5) False zs by simp
  next
    case f: True
    have Xa: "live_map a ys a = None" using 2(6) f by (simp flip: 2(6) add: live_map_outside)
    have "ys \<noteq> []" using 2(5) endof_ge [of "a + HDR + k" xs] by auto
    then obtain k' zs where zs: "ys = (k', True) # zs" using Xa by (cases ys) (auto split: if_splits)
    let ?X = "live_map (a + HDR + k) xs" and ?Z = "live_map (a + HDR + k') zs"
    have XZ: "?X = ?Z" using 2(6) f zs by simp
    have adjf: "no_adjacent_free ((k, True) # xs)" using 2(3) f by simp
    have kk: "k = k'"
    proof (cases rule: after_free [OF adjf, where a = "a + HDR + k"])
      case 1
      have "zs = []"
        by (rule after_free [OF 2(4) [unfolded zs], where a = "a + HDR + k'"]) (use XZ 1 in \<open>auto dest: fun_cong [of _ _ "a + HDR + k'"]\<close>)
      then show ?thesis using 1 2(5) zs by simp
    next
      case X: (2 j ws)
      show ?thesis
      proof (cases rule: after_free [OF 2(4) [unfolded zs], where a = "a + HDR + k'"])
        case 1
        then show ?thesis using XZ X by simp
      next
        case Z: (2 j' ws')
        have "?Z (a + HDR + k) = Some j" "?X (a + HDR + k') = Some j'" using XZ X(2) Z(2) by simp_all
        from live_map_range [OF this(1)] live_map_range [OF this(2)] show ?thesis by simp
      qed
    qed
    then show ?thesis
      using 2(1) [OF f adj no_adjacent_tl [OF 2(4) [unfolded zs]]] 2(5) XZ f zs by simp
  qed
qed

section \<open>The map of pointers\<close>

definition block_map :: "layout \<Rightarrow> u64 \<rightharpoonup> nat" where
  "block_map bs p = (if HDR \<le> unat p then live_map H0 bs (unat p - HDR) else None)"

definition tidy :: "'a heap_scheme \<Rightarrow> layout \<Rightarrow> bool" where
  "tidy s bs \<longleftrightarrow> heap_inv s bs \<and> no_adjacent_free bs"

lemma tidy_emit [simp]: "tidy (emit cs s) bs = tidy s bs"
  by (simp add: tidy_def)

lemma tidy_range:
  assumes "tidy s bs" and "live_map H0 bs b = Some k"
  shows "unat (of_nat (b + HDR) :: u64) = b + HDR" "b + HDR + k \<le> HE" "H0 \<le> b"
proof -
  have "endof H0 bs = HE" using assms(1) by (simp add: tidy_def heap_inv_def)
  then show "b + HDR + k \<le> HE" "H0 \<le> b" using live_map_range [OF assms(2)] by simp_all
  then show "unat (of_nat (b + HDR) :: u64) = b + HDR" by (intro unat_of_nat_u64) simp
qed

lemma block_map_Some:
  assumes "tidy s bs" and "block_map bs p = Some k"
  obtains b where "p = of_nat (b + HDR)" "live_map H0 bs b = Some k"
proof -
  have b: "HDR \<le> unat p" "live_map H0 bs (unat p - HDR) = Some k"
    using assms(2) by (simp_all add: block_map_def split: if_splits)
  then have "p = of_nat (unat p - HDR + HDR)" by simp
  then show ?thesis using b(2) by (rule that)
qed

lemma block_map_at:
  assumes "tidy s bs" and "live_map H0 bs b = Some k"
  shows "block_map bs (of_nat (b + HDR)) = Some k"
  using tidy_range [OF assms] assms(2) by (simp add: block_map_def del: of_nat_add)

lemma block_map_NULL: "tidy s bs \<Longrightarrow> block_map bs NULL = None"
  by (simp add: block_map_def)

lemma block_map_update:
  assumes "unat (of_nat (b + HDR) :: u64) = b + HDR" and "live_map H0 bs' = (live_map H0 bs)(b := x)"
  shows "block_map bs' = (block_map bs)(of_nat (b + HDR) := x)"
proof
  fix p :: u64
  have "p = of_nat (b + HDR) \<longleftrightarrow> unat p = b + HDR"
    using assms(1) by (metis of_nat_unat_u64)
  then show "block_map bs' p = ((block_map bs)(of_nat (b + HDR) := x)) p"
    using assms(2) by (auto simp: block_map_def)
qed

text \<open>The map of pointers determines the layout.\<close>

lemma live_map_block_map:
  assumes "tidy t cs" and "block_map ds = block_map cs" and "live_map H0 cs b = Some k"
  shows "live_map H0 ds b = Some k"
proof -
  have "block_map ds (of_nat (b + HDR)) = Some k" using block_map_at [OF assms(1,3)] assms(2) by simp
  then show ?thesis
    using tidy_range(1) [OF assms(1,3)] by (simp add: block_map_def del: of_nat_add split: if_splits)
qed

lemma tidy_unique:
  assumes "tidy s bs" and "tidy s' bs'" and "block_map bs' = block_map bs"
  shows "bs' = bs"
proof -
  have "live_map H0 bs' = live_map H0 bs"
  proof
    fix b
    show "live_map H0 bs' b = live_map H0 bs b"
      using live_map_block_map [OF assms(1,3), of b] live_map_block_map [OF assms(2) assms(3) [symmetric], of b]
      by (cases "live_map H0 bs b"; cases "live_map H0 bs' b") simp_all
  qed
  then show ?thesis
    using assms(1,2) by (intro layout_unique [where a = H0]) (auto simp: tidy_def heap_inv_def)
qed

section \<open>Allocation and release on the map\<close>

text \<open>The bytes that a request takes; a free block of \<open>K\<close> bytes.\<close>

definition rounded :: "nat \<Rightarrow> nat" where
  "rounded n = (n + 15) div 16 * 16"

definition fits :: "nat \<Rightarrow> layout \<Rightarrow> bool" where
  "fits K bs \<longleftrightarrow> (\<exists>k. (k, True) \<in> set bs \<and> K \<le> k)"

lemma rounded_align:
  assumes "unat sz \<le> MAX_REQUEST"
  shows "unat (align_up sz (alignment_used HEAP_ALIGNMENT)) = rounded (unat sz)"
proof -
  have "alignment_used HEAP_ALIGNMENT = 2 ^ 4" by (simp add: alignment_used_def HEAP_ALIGNMENT_def)
  then show ?thesis using align_up_rounds [of 4 _ sz] assms by (simp add: rounded_def)
qed

lemma fits_less: "fits K bs \<Longrightarrow> J \<le> K \<Longrightarrow> fits J bs"
  by (force simp: fits_def)

lemma alloc_layout_fits:
  assumes "alloc_layout n a bs = Some (b, bs')" and "fits K bs" and "n + 45 \<le> K"
  shows "fits (K - n - HDR) bs'"
  using assms(1)
proof (cases rule: alloc_layout_split)
  case (1 xs k ys)
  obtain j where j: "(j, True) \<in> set bs" "K \<le> j" using assms(2) by (auto simp: fits_def)
  show ?thesis
  proof (cases "j = k")
    case True
    then show ?thesis using 1(5) j(2) assms(3) by (auto simp: fits_def intro!: exI [of _ "k - n - HDR"])
  next
    case False
    then have "(j, True) \<in> set bs'" using j(1) 1(1,5) by auto
    then show ?thesis using j(2) by (force simp: fits_def)
  qed
qed

text \<open>What a request for \<open>n\<close> bytes may return, with the RAM and the layout after it.\<close>

definition allotted :: "nat \<Rightarrow> layout \<Rightarrow> u64 \<Rightarrow> mem \<Rightarrow> layout \<Rightarrow> bool" where
  "allotted n bs p m bs' \<longleftrightarrow>
    (if p = NULL then bs' = bs \<and> \<not> fits (rounded n) bs
     else block_map bs p = None \<and> (\<exists>k \<ge> rounded n. block_map bs' = (block_map bs)(p \<mapsto> k)) \<and>
       (\<forall>i < rounded n. m (p + of_nat i) = 0) \<and>
       (\<forall>K. fits K bs \<and> rounded n + 45 \<le> K \<longrightarrow> fits (K - rounded n - HDR) bs'))"

lemma allotted_fits: "allotted n bs p m bs' \<Longrightarrow> fits K bs \<Longrightarrow> rounded n \<le> K \<Longrightarrow> p \<noteq> NULL"
  using fits_less by (auto simp: allotted_def)

lemma kmalloc_tidy:
  assumes t: "tidy s bs" and sz: "0 < sz" "unat sz \<le> MAX_REQUEST"
  obtains p s' bs' where "kmalloc sz s = Some (p, s')" "tidy s' bs'" "heap_frame s s'"
    "allotted (unat sz) bs p (ram s') bs'"
proof -
  have inv: "heap_inv s bs" "no_adjacent_free bs" using t by (simp_all add: tidy_def)
  have sz0: "sz \<noteq> 0" using sz(1) by auto
  note n = rounded_align [OF sz(2), symmetric]
  note run = kmalloc_aligned_refines [OF inv(1) sz0 n]
  show ?thesis
  proof (cases "alloc_layout (rounded (unat sz)) H0 bs")
    case None
    have "\<not> fits (rounded (unat sz)) bs" using None by (auto simp: alloc_layout_None fits_def)
    then show ?thesis
      using run None t inv
      by (intro that [of NULL _ bs]) (auto simp: kmalloc_def tidy_def heap_frame_def heap_inv_def emit_def allotted_def)
  next
    case (Some r)
    obtain b bs' where r: "r = (b, bs')" by (cases r)
    have p0: "(of_nat (b + HDR) :: u64) \<noteq> NULL" by (rule alloc_ptr_not_null [OF inv(1) Some [unfolded r]])
    from run obtain s' where k: "kmalloc sz s = Some (of_nat (b + HDR), s')"
      by (simp add: Some r kmalloc_def)
    obtain k where l: "heap_inv s' bs'" "live_map H0 bs' = (live_map H0 bs)(b \<mapsto> k)" "live_map H0 bs b = None"
      "rounded (unat sz) \<le> k" "\<forall>x \<in> {b + HDR..<b + HDR + rounded (unat sz)}. ram s' (of_nat x) = 0"
      "no_adjacent_free bs'" "heap_frame s s'"
      by (rule kmalloc_aligned_live [OF inv(1) sz0 n k [unfolded kmalloc_def] p0])
        (use p0 Some r inv k block_ptr_inj in \<open>force simp del: of_nat_add\<close>)
    have t': "tidy s' bs'" using l by (simp add: tidy_def)
    have at: "live_map H0 bs' b = Some k" using l(2) by simp
    note rg = tidy_range [OF t' at]
    have new: "block_map bs' = (block_map bs)(of_nat (b + HDR) \<mapsto> k)"
      by (rule block_map_update [OF rg(1) l(2)])
    have old: "block_map bs (of_nat (b + HDR)) = None"
      using rg(1) l(3) by (simp add: block_map_def del: of_nat_add)
    have z: "ram s' (of_nat (b + HDR) + of_nat i) = 0" if "i < rounded (unat sz)" for i
      using bspec [OF l(5), of "b + HDR + i"] that by simp
    show ?thesis
      by (rule that [OF k t' l(7)])
        (use p0 old new z l(4) alloc_layout_fits [OF Some [unfolded r]] in \<open>auto simp: allotted_def simp del: of_nat_add\<close>)
  qed
qed

text \<open>\<open>kfree\<close> of a live pointer, or of \<open>NULL\<close>; a second release of the pointer only prints.\<close>

definition releasable :: "layout \<Rightarrow> u64 \<Rightarrow> bool" where
  "releasable bs p \<longleftrightarrow> p = NULL \<or> block_map bs p \<noteq> None"

lemma kfree_tidy:
  assumes t: "tidy s bs" and p: "releasable bs p"
  obtains s' bs' where "kfree p s = Some s'" "tidy s' bs'" "heap_frame s s'"
    "block_map bs' = (block_map bs)(p := None)"
    "p \<noteq> NULL \<longrightarrow> (\<exists>cs. \<forall>ds. kfree p (emit ds s') = Some (emit cs (emit ds s')))"
proof (cases "p = NULL")
  case True
  then show ?thesis
    using t block_map_NULL [OF t] by (intro that [of s bs]) (auto simp: kfree_def fun_upd_idem)
next
  case False
  then obtain k where k: "block_map bs p = Some k" using p by (auto simp: releasable_def)
  obtain b where b: "p = of_nat (b + HDR)" "live_map H0 bs b = Some k" by (rule block_map_Some [OF t k])
  have inv: "heap_inv s bs" "no_adjacent_free bs" using t by (simp_all add: tidy_def)
  obtain s' bs' where f: "kfree p s = Some s'" "heap_inv s' bs'" "live_map H0 bs' = (live_map H0 bs)(b := None)"
    "no_adjacent_free bs'" "heap_frame s s'"
    "magic (load_block (ram s') (of_nat b)) = 0 \<or> is_free (load_block (ram s') (of_nat b))"
    by (rule kfree_live [OF inv(1) b(2), folded b(1)]) (use inv in blast)
  define cs where "cs = (if is_valid_block (ram s') (ptr_to_block p)
    then [Color VGA_COLOR_LIGHT_BROWN, Write (lit ''[WARN] kfree: doble liberaci'' @ [0xC3, 0xB3] @ lit ''n detectada: 0x''),
          Hex p, Line '''']
    else [Color VGA_COLOR_LIGHT_RED, Write (lit ''[ERROR] kfree: puntero inv'' @ [0xC3, 0xA1] @ lit ''lido: 0x''),
          Hex p, Line ''''])"
  have "kfree p (emit ds s') = Some (emit cs (emit ds s'))" for ds
    using f(2,6) False
    by (auto simp: kfree_def heap_inv_def cs_def b(1) ptr_to_block_nat is_valid_block_def heap_consts HEAP_MAGIC_def simp del: of_nat_add)
  then show ?thesis
    using f block_map_update [OF tidy_range(1) [OF t b(2)] f(3)]
    by (intro that [of s' bs']) (auto simp: tidy_def b(1))
qed

lemma heap_frame_emit [simp]: "heap_frame s (emit cs s') = heap_frame s s'" "heap_frame (emit cs s) s' = heap_frame s s'"
  by (simp_all add: heap_frame_def emit_def)

section \<open>Loops of allocations and releases\<close>

text \<open>\<open>extra ps bs bs'\<close>: \<open>bs'\<close> has, beyond the blocks of \<open>bs\<close>, those of the pointers \<open>ps\<close>.\<close>

definition extra :: "u64 list \<Rightarrow> layout \<Rightarrow> layout \<Rightarrow> bool" where
  "extra ps bs bs' \<longleftrightarrow> distinct (filter (\<lambda>p. p \<noteq> NULL) ps) \<and>
    (\<forall>p \<in> set ps. p \<noteq> NULL \<longrightarrow> block_map bs p = None \<and> block_map bs' p \<noteq> None) \<and>
    block_map bs = block_map bs' |` (- set ps)"

lemma restrict_all [simp]: "m |` UNIV = m"
  by (simp add: restrict_map_def)

lemma extra_Nil: "extra [] bs bs"
  by (simp add: extra_def)

lemma extra_Cons:
  assumes a: "allotted n bs p m bs1" and ps: "extra ps bs1 bs'" and t: "tidy s bs"
  shows "extra (p # ps) bs bs'"
proof (cases "p = NULL")
  case True
  have "block_map bs q = (block_map bs' |` (- set (p # ps))) q" for q
    using ps a True block_map_NULL [OF t] by (cases "q = NULL") (auto simp: extra_def allotted_def restrict_map_def split: if_splits)
  then have "block_map bs = block_map bs' |` (- set (p # ps))" by (rule ext)
  then show ?thesis using ps a True by (auto simp: extra_def allotted_def)
next
  case False
  then obtain k where k: "block_map bs p = None" "block_map bs1 = (block_map bs)(p \<mapsto> k)" using a by (auto simp: allotted_def)
  have "block_map bs1 p = Some k" using k(2) by simp
  then have p: "p \<notin> set ps" "block_map bs' p = Some k"
    using ps False by (auto simp: extra_def restrict_map_def split: if_splits)
  have "block_map bs q = (block_map bs' |` (- set (p # ps))) q" for q
    using k ps p by (cases "q = p") (auto simp: extra_def restrict_map_def fun_eq_iff split: if_splits)
  then have "block_map bs = block_map bs' |` (- set (p # ps))" by (rule ext)
  moreover have "\<forall>q \<in> set ps. q \<noteq> NULL \<longrightarrow> block_map bs q = None"
    using ps k(2) by (auto simp: extra_def split: if_splits)
  ultimately show ?thesis using ps p k False by (auto simp: extra_def)
qed

definition valid_sizes :: "u64 list \<Rightarrow> bool" where
  "valid_sizes ns \<longleftrightarrow> list_all (\<lambda>n. 0 < n \<and> unat n \<le> MAX_REQUEST) ns"

lemma alloc_all_tidy:
  "tidy s bs \<Longrightarrow> valid_sizes ns \<Longrightarrow>
   \<exists>ps s' bs'. alloc_all ns s = Some (ps, s') \<and> tidy s' bs' \<and> heap_frame s s' \<and> length ps = length ns \<and> extra ps bs bs'"
proof (induction ns arbitrary: s bs)
  case Nil
  then show ?case using extra_Nil by auto
next
  case (Cons n ns)
  have n: "0 < n" "unat n \<le> MAX_REQUEST" and ns: "valid_sizes ns" using Cons.prems(2) by (simp_all add: valid_sizes_def)
  obtain p s1 bs1 where k: "kmalloc n s = Some (p, s1)" "tidy s1 bs1" "heap_frame s s1"
    "allotted (unat n) bs p (ram s1) bs1"
    by (rule kmalloc_tidy [OF Cons.prems(1) n])
  obtain ps s' bs' where r: "alloc_all ns s1 = Some (ps, s')" "tidy s' bs'" "heap_frame s1 s'"
    "length ps = length ns" "extra ps bs1 bs'"
    using Cons.IH [OF k(2) ns] by blast
  have "extra (p # ps) bs bs'" by (rule extra_Cons [OF k(4) r(5) Cons.prems(1)])
  then show ?case
    using k(1) r heap_frame_trans [OF k(3) r(3)] by (intro exI [of _ "p # ps"] exI [of _ s'] exI [of _ bs']) simp
qed

text \<open>The space that requests take up, each rounded and with a header.\<close>

definition space :: "u64 list \<Rightarrow> nat" where
  "space ns = sum_list (map (\<lambda>n. rounded (unat n) + HDR) ns)"

lemma alloc_each_tidy:
  "tidy s bs \<Longrightarrow> valid_sizes ns \<Longrightarrow>
   \<exists>r s' bs'. alloc_each ns s = Some (r, s') \<and> tidy s' bs' \<and> heap_frame s s' \<and>
     (\<forall>ps. r = Some ps \<longrightarrow> extra ps bs bs') \<and>
     (\<forall>K. fits K bs \<and> space ns + 16 \<le> K \<longrightarrow> r \<noteq> None)"
proof (induction ns arbitrary: s bs)
  case Nil
  then show ?case using extra_Nil by auto
next
  case (Cons n ns)
  have n: "0 < n" "unat n \<le> MAX_REQUEST" and ns: "valid_sizes ns" using Cons.prems(2) by (simp_all add: valid_sizes_def)
  obtain p s1 bs1 where k: "kmalloc n s = Some (p, s1)" "tidy s1 bs1" "heap_frame s s1"
    "allotted (unat n) bs p (ram s1) bs1"
    by (rule kmalloc_tidy [OF Cons.prems(1) n])
  show ?case
  proof (cases "p = NULL")
    case True
    have "\<not> fits K bs" if "space (n # ns) + 16 \<le> K" for K
    proof -
      have "rounded (unat n) \<le> K" using that by (simp add: space_def)
      then show ?thesis using allotted_fits [OF k(4)] True by blast
    qed
    moreover have "alloc_each (n # ns) s = Some (None, s1)" using k(1) True by simp
    ultimately show ?thesis using k(2,3) by (intro exI conjI) auto
  next
    case False
    obtain r s' bs' where r: "alloc_each ns s1 = Some (r, s')" "tidy s' bs'" "heap_frame s1 s'"
      "\<forall>ps. r = Some ps \<longrightarrow> extra ps bs1 bs'"
      "\<forall>K. fits K bs1 \<and> space ns + 16 \<le> K \<longrightarrow> r \<noteq> None"
      using Cons.IH [OF k(2) ns] by (elim exE conjE) (rule that)
    have "extra qs bs bs'" if qs: "map_option (Cons p) r = Some qs" for qs
    proof -
      obtain ps where ps: "r = Some ps" "qs = p # ps" using qs by (cases r) auto
      have "extra ps bs1 bs'" using r(4) ps(1) by blast
      from extra_Cons [OF k(4) this Cons.prems(1)] show ?thesis by (simp add: ps(2))
    qed
    moreover have "map_option (Cons p) r \<noteq> None" if K: "fits K bs" "space (n # ns) + 16 \<le> K" for K
    proof -
      have "fits (K - rounded (unat n) - HDR) bs1" using k(4) False K by (simp add: space_def allotted_def)
      moreover have "space ns + 16 \<le> K - rounded (unat n) - HDR" using K(2) by (simp add: space_def)
      ultimately have "r \<noteq> None" using r(5) by blast
      then show ?thesis by simp
    qed
    moreover have run: "alloc_each (n # ns) s = Some (map_option (Cons p) r, s')" using k(1) r(1) False by simp
    ultimately show ?thesis
      using r(2) heap_frame_trans [OF k(3) r(3)] by (intro exI conjI) auto
  qed
qed

text \<open>Releases, in any order.\<close>

lemma distinct_filter_nth:
  "distinct (filter P xs) \<Longrightarrow> i < length xs \<Longrightarrow> j < length xs \<Longrightarrow> xs ! i = xs ! j \<Longrightarrow> P (xs ! i) \<Longrightarrow> i = j"
proof (induction xs arbitrary: i j)
  case (Cons x xs)
  have "x \<notin> set xs" if "P x" using Cons.prems(1) that by simp
  then show ?case
    using Cons by (cases i; cases j) (auto split: if_splits dest: nth_mem)
qed simp

lemma distinct_filter_map_nth:
  "distinct (filter P xs) \<Longrightarrow> distinct is \<Longrightarrow> \<forall>i \<in> set is. i < length xs \<Longrightarrow> distinct (filter P (map ((!) xs) is))"
proof (induction "is")
  case (Cons i "is")
  have "xs ! i \<noteq> xs ! j" if "P (xs ! i)" "j \<in> set is" for j
    using distinct_filter_nth [OF Cons.prems(1), of i j] Cons.prems(2,3) that by auto
  then show ?case using Cons by auto
qed simp

lemma distinct_filter_update:
  "distinct (filter P xs) \<Longrightarrow> \<not> P x \<Longrightarrow> distinct (filter P (xs[i := x]))"
proof (induction xs arbitrary: i)
  case (Cons y ys)
  then show ?case
    using set_update_subset_insert [of ys _ x] by (cases i) (auto split: if_splits)
qed simp

definition all_releasable :: "layout \<Rightarrow> u64 list \<Rightarrow> bool" where
  "all_releasable bs ps \<longleftrightarrow> distinct (filter (\<lambda>p. p \<noteq> NULL) ps) \<and> (\<forall>p \<in> set ps. releasable bs p)"

lemma extra_releasable: "extra ps bs bs' \<Longrightarrow> all_releasable bs' ps"
  by (auto simp: extra_def all_releasable_def releasable_def)

lemma free_all_tidy:
  "tidy s bs \<Longrightarrow> all_releasable bs ps \<Longrightarrow>
   \<exists>s' bs'. free_all ps s = Some s' \<and> tidy s' bs' \<and> heap_frame s s' \<and> block_map bs' = block_map bs |` (- set ps)"
proof (induction ps arbitrary: s bs)
  case (Cons p ps)
  have "releasable bs p" using Cons.prems(2) by (simp add: all_releasable_def)
  then obtain s1 bs1 where f: "kfree p s = Some s1" "tidy s1 bs1" "heap_frame s s1"
    "block_map bs1 = (block_map bs)(p := None)" by (rule kfree_tidy [OF Cons.prems(1)])
  have "all_releasable bs1 ps"
    using Cons.prems(2) f(4) by (auto simp: all_releasable_def releasable_def split: if_splits)
  then obtain s' bs' where r: "free_all ps s1 = Some s'" "tidy s' bs'" "heap_frame s1 s'"
    "block_map bs' = block_map bs1 |` (- set ps)"
    using Cons.IH [OF f(2)] by blast
  have "block_map bs' = block_map bs |` (- set (p # ps))"
    using r(4) f(4) by (auto simp: restrict_map_def fun_eq_iff)
  then show ?case using f(1) r heap_frame_trans [OF f(3) r(3)] by auto
qed auto

lemma free_at_tidy:
  "tidy s bs \<Longrightarrow> distinct (filter (\<lambda>p. p \<noteq> NULL) ps) \<Longrightarrow>
   \<forall>i \<in> set is. i < length ps \<and> releasable bs (ps ! i) \<Longrightarrow>
   \<exists>ps' s' bs'. free_at is ps s = Some (ps', s') \<and> tidy s' bs' \<and> heap_frame s s' \<and>
     block_map bs' = block_map bs |` (- (!) ps ` set is)"
proof (induction "is" arbitrary: s bs ps)
  case (Cons i "is")
  have i: "i < length ps" "releasable bs (ps ! i)" using Cons.prems(3) by auto
  show ?case
  proof (cases "ps ! i = NULL")
    case True
    obtain ps' s' bs' where r: "free_at is ps s = Some (ps', s')" "tidy s' bs'" "heap_frame s s'"
      "block_map bs' = block_map bs |` (- (!) ps ` set is)"
      using Cons.IH [OF Cons.prems(1,2)] Cons.prems(3) by auto
    moreover have "block_map bs |` (- (!) ps ` set is) = block_map bs |` (- (!) ps ` set (i # is))"
      using True block_map_NULL [OF Cons.prems(1)] by (auto simp: restrict_map_def fun_eq_iff)
    ultimately show ?thesis using True by auto
  next
    case False
    obtain s1 bs1 where f: "kfree (ps ! i) s = Some s1" "tidy s1 bs1" "heap_frame s s1"
      "block_map bs1 = (block_map bs)(ps ! i := None)" by (rule kfree_tidy [OF Cons.prems(1) i(2)])
    define qs where "qs = ps[i := NULL]"
    have only: "j = i" if "j < length ps" "ps ! j = ps ! i" for j
      using distinct_filter_nth [of _ ps j i] Cons.prems(2) i(1) that False by auto
    have qs: "length qs = length ps" "\<And>j. qs ! j = (if j = i then NULL else ps ! j)"
      using i(1) by (auto simp: qs_def nth_list_update)
    have "distinct (filter (\<lambda>p. p \<noteq> NULL) qs)"
      using Cons.prems(2) unfolding qs_def by (intro distinct_filter_update) auto
    moreover have "\<forall>j \<in> set is. j < length qs \<and> releasable bs1 (qs ! j)"
      using Cons.prems(3) only qs f(4) by (auto simp: releasable_def)
    ultimately have "\<exists>ps' s' bs'. free_at is qs s1 = Some (ps', s') \<and> tidy s' bs' \<and> heap_frame s1 s' \<and>
        block_map bs' = block_map bs1 |` (- (!) qs ` set is)"
      by (rule Cons.IH [OF f(2)])
    then obtain ps' s' bs' where r: "free_at is qs s1 = Some (ps', s')" "tidy s' bs'" "heap_frame s1 s'"
      "block_map bs' = block_map bs1 |` (- (!) qs ` set is)"
      by blast
    have "block_map bs' p = (block_map bs |` (- (!) ps ` set (i # is))) p" for p
    proof (cases "p = NULL \<or> p = ps ! i")
      case True
      then show ?thesis
        using r(2,4) f(4) block_map_NULL [OF Cons.prems(1)] block_map_NULL [OF r(2)]
        by (auto simp: restrict_map_def)
    next
      case False
      then have "p \<in> (!) qs ` set is \<longleftrightarrow> p \<in> (!) ps ` set is" using qs(2) by (auto simp: image_iff)
      then show ?thesis using r(4) f(4) False by (simp add: restrict_map_def)
    qed
    then show ?thesis
      using f(1) r(1,2) heap_frame_trans [OF f(3) r(3)] False unfolding qs_def by auto
  qed
qed auto

text \<open>Releasing what was allocated restores the layout.\<close>

lemma extra_restored:
  assumes "extra ps bs bs'" and "block_map bs'' = block_map bs' |` (- set ps)"
    and "tidy s bs" and "tidy s'' bs''"
  shows "bs'' = bs"
  by (rule tidy_unique [OF assms(3,4)]) (use assms(1,2) in \<open>simp add: extra_def\<close>)

lemma allotted_restored:
  assumes "allotted n bs p m bs'" and "block_map bs'' = (block_map bs')(p := None)"
    and "tidy s bs" and "tidy s'' bs''"
  shows "bs'' = bs"
proof (rule tidy_unique [OF assms(3,4)])
  show "block_map bs'' = block_map bs"
    using assms(1,2) block_map_NULL [OF assms(3)] by (auto simp: allotted_def split: if_splits)
qed

lemma allotted_releasable: "allotted n bs p m bs' \<Longrightarrow> releasable bs' p"
  by (cases "p = NULL") (auto simp: allotted_def releasable_def)

section \<open>Statistics, validation and reallocation\<close>

lemma stats_tidy:
  assumes "tidy s bs"
  shows "\<exists>st. heap_get_stats st0 s = Some st \<and> stat_used_size st = of_nat (used_sizes bs) \<and>
    stat_free_block_count st = of_nat (length (filter snd bs))"
proof -
  have inv: "heap_inv s bs" using assms by (simp add: tidy_def)
  have "stats_walk (heap_head s) (ram s) st =
     Some (st\<lparr>stat_used_size := stat_used_size st + of_nat (used_sizes bs),
              stat_free_size := stat_free_size st + of_nat (free_sizes bs),
              stat_block_count := stat_block_count st + of_nat (length bs),
              stat_free_block_count := stat_free_block_count st + of_nat (length (filter snd bs)),
              stat_used_block_count := stat_used_block_count st + of_nat (length (filter (\<lambda>b. \<not> snd b) bs))\<rparr>)" for st
    using stats_walk_chain [of "ram s" 0 H0 bs st] inv by (simp add: heap_inv_def nextptr_def)
  then show ?thesis using inv by (simp add: heap_get_stats_def heap_inv_def)
qed

lemma validate_tidy:
  assumes "tidy s bs"
  shows "heap_validate s = (True, s)"
proof -
  have inv: "heap_inv s bs" using assms by (simp add: tidy_def)
  then have "validate_walk (of_nat (nextptr H0)) 0 (ram s) = None"
    by (intro validate_walk_chain) (auto simp: heap_inv_def)
  then show ?thesis using inv by (simp add: heap_validate_def heap_inv_def nextptr_def)
qed

lemma krealloc_tidy:
  assumes t: "tidy s bs" and p: "block_map bs p = Some k" and sz: "0 < sz" "unat sz \<le> MAX_REQUEST"
  obtains q s' bs' where "krealloc p sz s = Some (q, s')" "tidy s' bs'" "heap_frame s s'"
    "if q = NULL then bs' = bs \<and> \<not> fits (rounded (unat sz)) bs
     else block_map (bs') q \<noteq> None \<and> block_map bs' |` (- {q}) = block_map bs |` (- {p}) \<and> (q = p \<or> block_map bs q = None) \<and>
       (\<forall>i < min k (unat sz). ram s' (q + of_nat i) = ram s (p + of_nat i))"
proof -
  obtain b where b: "p = of_nat (b + HDR)" "live_map H0 bs b = Some k" by (rule block_map_Some [OF t p])
  have inv: "heap_inv s bs" "no_adjacent_free bs" using t by (simp_all add: tidy_def)
  note v = live_valid [OF inv(1) b(2)]
  show ?thesis
  proof (cases "unat sz \<le> k")
    case True
    have "krealloc p sz s = Some (p, s)" using krealloc_keeps_small [OF inv(1) b(2) sz(1) True] by (simp only: b(1))
    then show ?thesis using t p v(4) by (intro that [of p s bs]) (auto simp: b(1) simp del: of_nat_add)
  next
    case False
    obtain q s1 bs1 where q: "kmalloc sz s = Some (q, s1)" "tidy s1 bs1" "heap_frame s s1"
      "allotted (unat sz) bs q (ram s1) bs1"
      by (rule kmalloc_tidy [OF t sz])
    have n: "unat (align_up sz HEAP_ALIGNMENT) = rounded (unat sz)"
      using rounded_align [OF sz(2)] by (simp add: alignment_used_def HEAP_ALIGNMENT_def)
    have big: "unat sz \<le> rounded (unat sz)" unfolding rounded_def by linarith
    show ?thesis
    proof (cases "q = NULL")
      case True
      have "unat (of_nat k :: u64) = k" using v(6) by (intro unat_of_nat_u64) simp
      then have "\<not> sz \<le> of_nat k" "sz \<noteq> 0" using False sz(1) by (auto simp: word_le_nat_alt)
      then have "krealloc p sz s = Some (NULL, s1)"
        using v q(1) True by (simp add: krealloc_def b(1) ptr_to_block_nat Let_def del: of_nat_add)
      then show ?thesis using q(2-4) True by (intro that [of NULL s1 bs1]) (auto simp: allotted_def)
    next
      case q0: False
      have fresh: "k < unat sz" using False by simp
      obtain c j bs' s' where r: "krealloc (of_nat (b + HDR)) sz s = Some (of_nat (c + HDR), s')"
        "q = of_nat (c + HDR)" "heap_inv s' bs'" "c \<noteq> b"
        "live_map H0 bs' = (live_map H0 bs)(c \<mapsto> j, b := None)" "live_map H0 bs c = None"
        "\<forall>i < k. ram s' (of_nat (c + HDR + i)) = ram s (of_nat (b + HDR + i))" "no_adjacent_free bs'" "heap_frame s s'"
        by (rule krealloc_relocates [OF inv(1) b(2) fresh n [symmetric] big q(1) [unfolded kmalloc_def] q0])
          (use inv(2) in blast)
      have t': "tidy s' bs'" using r by (simp add: tidy_def)
      have at: "live_map H0 bs' c = Some j" using r(4,5) by simp
      note rg = tidy_range(1) [OF t' at] tidy_range(1) [OF t b(2)]
      have ne: "(of_nat (c + HDR) :: u64) \<noteq> of_nat (b + HDR)"
        using rg r(4) by (metis add_right_cancel)
      have "block_map bs' = (block_map bs)(q \<mapsto> j, p := None)"
      proof
        fix x :: u64
        have "x = of_nat (b + HDR) \<longleftrightarrow> unat x = b + HDR" "x = of_nat (c + HDR) \<longleftrightarrow> unat x = c + HDR"
          using rg by (metis of_nat_unat_u64)+
        then show "block_map bs' x = ((block_map bs)(q \<mapsto> j, p := None)) x"
          using r(2,5) b(1) by (auto simp: block_map_def)
      qed
      moreover have "block_map bs q = None" using rg r(2,6) by (simp add: block_map_def del: of_nat_add)
      moreover have "\<forall>i < k. ram s' (q + of_nat i) = ram s (p + of_nat i)" using r(2,7) b(1) by simp
      ultimately show ?thesis
        using r(1,2,9) t' q0 ne b(1)
        by (intro that [of q s' bs']) (auto simp: restrict_map_def fun_eq_iff simp del: of_nat_add)
    qed
  qed
qed

end
