(* ===== verification/Shell_Session.thy ===== *)
theory Shell_Session
  imports Shell_Lines Heap_State
begin

text \<open>
  The shell as an interpreter of lines. The locale \<open>line_interpreter\<close> is the contract between the
  main loop and the two operations it calls, reading a line and running it; it is interpreted on
  \<open>shell_loop\<close>, \<open>shell_readline\<close> and \<open>shell_execute_command\<close>, for every command \<open>memtest\<close> with the
  contract \<open>memtest_command\<close>. The specification is \<open>session\<close>,
  which runs over the list of the lines typed and keeps the history only.
\<close>

section \<open>The specification\<close>

text \<open>The lines that a sequence of typed characters completes.\<close>

function typed_lines :: "u8 list \<Rightarrow> u8 list list" where
  "typed_lines cs =
    (if newline \<in> set cs
     then edit_line (takeWhile (\<lambda>c. c \<noteq> newline) cs) # typed_lines (tl (dropWhile (\<lambda>c. c \<noteq> newline) cs))
     else [])"
  by pat_completeness auto
termination
proof (relation "measure length", goal_cases)
  case 1
  then show ?case by simp
next
  case (2 cs)
  then have "0 < length cs" by (auto simp: length_pos_if_in_set)
  moreover have "length (dropWhile (\<lambda>c. c \<noteq> newline) cs) \<le> length cs" by (rule length_dropWhile_le)
  ultimately show ?case by (simp only: in_measure length_tl)
qed

declare typed_lines.simps [simp del]

lemma typed_lines_Nil: "newline \<notin> set cs \<Longrightarrow> typed_lines cs = []"
  by (subst typed_lines.simps) simp

lemma typed_lines_append: "newline \<notin> set cs \<Longrightarrow> typed_lines (cs @ newline # rest) = edit_line cs # typed_lines rest"
  by (subst typed_lines.simps) (auto simp: takeWhile_append dropWhile_append)

text \<open>
  A session enters every line and acts on it; \<open>act\<close> returns \<open>None\<close> for a line that ends the
  session. The result is \<open>None\<close> when the lines run out first.
\<close>

fun session :: "('l \<Rightarrow> 'v \<Rightarrow> 'v) \<Rightarrow> ('l \<Rightarrow> 'v \<Rightarrow> 'v option) \<Rightarrow> 'l list \<Rightarrow> 'v \<Rightarrow> 'v option" where
  "session enter act [] v = None"
| "session enter act (l # ls) v =
    (case act l (enter l v) of None \<Rightarrow> Some (enter l v) | Some v' \<Rightarrow> session enter act ls v')"

text \<open>What the first word of a line does to the history: \<open>halt\<close> ends, \<open>reboot\<close> forgets.\<close>

definition act_on :: "u8 list \<Rightarrow> u8 list list \<Rightarrow> u8 list list option" where
  "act_on line ls =
    (case tokens line of [] \<Rightarrow> Some ls
     | w # ws \<Rightarrow> if w = lit ''halt'' then None else if w = lit ''reboot'' then Some [] else Some ls)"

definition shell_session :: "u8 list list \<Rightarrow> u8 list list \<Rightarrow> u8 list list option" where
  "shell_session = session remember act_on"

section \<open>The contract of the main loop\<close>

locale line_interpreter =
  fixes read :: "'p \<Rightarrow> 's \<Rightarrow> ('l \<times> 'p \<times> 's) option"
    and eval :: "'l \<Rightarrow> 's \<Rightarrow> ('r + 's) option"
    and loop :: "'p \<Rightarrow> 's \<Rightarrow> 'r option"
    and inputs :: "'p \<Rightarrow> 's \<Rightarrow> 'l list"
    and ok :: "'s \<Rightarrow> bool"
    and good :: "'l \<Rightarrow> bool"
    and view :: "'s \<Rightarrow> 'v"
    and enter :: "'l \<Rightarrow> 'v \<Rightarrow> 'v"
    and act :: "'l \<Rightarrow> 'v \<Rightarrow> 'v option"
    and final :: "'r \<Rightarrow> 'v \<Rightarrow> bool"
  assumes loop_step: "loop p s = Option.bind (read p s) (\<lambda>(l, p, s).
      Option.bind (eval l s) (\<lambda>r. case r of Inl e \<Rightarrow> Some e | Inr s \<Rightarrow> loop p s))"
    and read_none: "ok s \<Longrightarrow> inputs p s = [] \<Longrightarrow> read p s = None"
    and read_line: "ok s \<Longrightarrow> inputs p s = l # ls \<Longrightarrow>
      \<exists>p' s'. read p s = Some (l, p', s') \<and> ok s' \<and> inputs p' s' = ls \<and> view s' = enter l (view s)"
    and eval_line: "ok s \<Longrightarrow> good l \<Longrightarrow> \<exists>r. eval l s = Some r \<and>
      (case r of Inl e \<Rightarrow> act l (view s) = None \<and> final e (view s)
       | Inr s' \<Rightarrow> ok s' \<and> act l (view s) = Some (view s') \<and> (\<forall>p. inputs p s' = inputs p s))"
begin

text \<open>The loop ends exactly when the session does, in a state that shows the session's result.\<close>

lemma loop_session:
  assumes "ok s" and "list_all good (inputs p s)"
  shows "case session enter act (inputs p s) (view s) of
      None \<Rightarrow> loop p s = None
    | Some v \<Rightarrow> \<exists>e. loop p s = Some e \<and> final e v"
  using assms
proof (induction "inputs p s" arbitrary: p s)
  case Nil
  then have "loop p s = None" using read_none [of s p] by (subst loop_step) simp
  then show ?case using Nil(1) by (simp flip: Nil(1))
next
  case (Cons l ls)
  obtain p' s1 where r: "read p s = Some (l, p', s1)" "ok s1" "inputs p' s1 = ls" "view s1 = enter l (view s)"
    using read_line [OF Cons(3) Cons(2) [symmetric]] by blast
  have "good l" "list_all good ls" using Cons(4) by (simp_all flip: Cons(2))
  obtain x where x: "eval l s1 = Some x"
    "case x of Inl e \<Rightarrow> act l (view s1) = None \<and> final e (view s1)
     | Inr s' \<Rightarrow> ok s' \<and> act l (view s1) = Some (view s') \<and> (\<forall>p. inputs p s' = inputs p s1)"
    using eval_line [OF r(2) \<open>good l\<close>] by blast
  have step: "loop p s = (case x of Inl e \<Rightarrow> Some e | Inr s \<Rightarrow> loop p' s)"
    using r(1) x(1) by (subst loop_step) simp
  show ?case
  proof (cases x)
    case (Inl e)
    then show ?thesis using x(2) r(4) step by (simp flip: Cons(2))
  next
    case (Inr s')
    then have s': "ok s'" "act l (view s1) = Some (view s')" "inputs p' s' = ls" using x(2) r(3) by auto
    from Cons(1) [OF s'(3) [symmetric] s'(1)] \<open>list_all good ls\<close> s'
    show ?thesis using Inr step r(4) by (simp flip: Cons(2) split: option.splits)
  qed
qed

end

section \<open>What the keyboard and the editor leave alone\<close>

definition machine_part :: "'a timer_scheme \<Rightarrow> mem \<times> u64 \<times> bool \<times> u32 \<times> u64 \<times> u64" where
  "machine_part s = (ram s, heap_head s, heap_initialized s, timer_frequency s, pmm_bitmap s, pmm_total_frames s)"

lemma machine_part_emit [simp]: "machine_part (emit cs s) = machine_part s"
  by (simp add: machine_part_def emit_def)

lemma machine_part_push: "machine_part (keyboard_buffer_push c s) = machine_part s"
  by (simp add: keyboard_buffer_push_def Let_def machine_part_def)

lemma machine_part_keys [simp]:
  "machine_part (s\<lparr>shift_pressed := b\<rparr>) = machine_part s" "machine_part (s\<lparr>ctrl_pressed := b\<rparr>) = machine_part s"
  "machine_part (s\<lparr>alt_pressed := b\<rparr>) = machine_part s" "machine_part (s\<lparr>caps_lock := b\<rparr>) = machine_part s"
  "machine_part (s\<lparr>buffer_read_pos := x\<rparr>) = machine_part s" "machine_part (t\<lparr>port_log := l\<rparr>) = machine_part t"
  by (simp_all add: machine_part_def)

lemma machine_part_keyboard [simp]:
  "machine_part (keyboard_interrupt sc s) = machine_part s" "machine_part (snd (take_char s)) = machine_part s"
  by (simp_all add: keyboard_interrupt_handles pic_send_eoi_def outb_def handle_scancode_def Let_def
      machine_part_push take_char_def)

lemma machine_part_shell [simp]:
  "machine_part (s\<lparr>shell_buffer := b\<rparr>) = machine_part s" "machine_part (s\<lparr>shell_buffer_pos := p\<rparr>) = machine_part s"
  "machine_part (s\<lparr>parse_buffer := b\<rparr>) = machine_part s" "machine_part (s\<lparr>shell_history := h\<rparr>) = machine_part s"
  "machine_part (s\<lparr>history_count := n\<rparr>) = machine_part s" "machine_part (s\<lparr>history_current := n\<rparr>) = machine_part s"
  by (simp_all add: machine_part_def)

lemma machine_part_edit [simp]: "machine_part (edit_key c s) = machine_part s"
  by (simp add: edit_key_def Let_def)

lemma enter_key_machine: "enter_key s = Some s' \<Longrightarrow> machine_part s' = machine_part s"
  by (auto simp: enter_key_def shell_add_to_history_def Let_def Option.bind_eq_Some_conv split: if_splits)

lemma readline_loop_machine:
  assumes "readline_loop pending s = Some (rest, s')"
  shows "machine_part s' = machine_part s"
proof -
  have "machine_part (snd (rest, s')) = machine_part s"
    by (rule readline_loop.raw_induct [OF _ assms, where P = "\<lambda>pending s r. machine_part (snd r) = machine_part s"])
      (auto simp: Option.bind_eq_Some_conv dest!: enter_key_machine getchar_keeps [where f = machine_part, rotated 2]
        split: if_splits)
  then show ?thesis by simp
qed

lemma readline_machine: "shell_readline pending s = Some (line, rest, s') \<Longrightarrow> machine_part s' = machine_part s"
  by (auto simp: shell_readline_def shell_show_prompt_def Let_def Option.bind_eq_Some_conv dest!: readline_loop_machine)

section \<open>Running a line\<close>

text \<open>The command that a word names.\<close>

definition command_of :: "u8 list \<Rightarrow> command option" where
  "command_of w = map_of (map (\<lambda>(name, description, f). (name, f)) shell_commands) w"

lemma find_command:
  "command_of w = map_option (\<lambda>(name, description, f). f) (List.find (\<lambda>(name, description, f). w = name) shell_commands)"
proof -
  have "map_of (map (\<lambda>(name, description, f). (name, f)) cs) w =
      map_option (\<lambda>(name, description, f). f) (List.find (\<lambda>(name, description, f). w = name) cs)"
    for cs :: "(u8 list \<times> u8 list \<times> command) list"
    by (induction cs) auto
  then show ?thesis by (simp add: command_of_def)
qed

lemma command_names:
  "command_of w = Some Halt \<longleftrightarrow> w = lit ''halt''" "command_of w = Some Reboot \<longleftrightarrow> w = lit ''reboot''"
  "command_of w = Some Memtest \<longleftrightarrow> w = lit ''memtest''"
  by (auto simp: command_of_def shell_commands_def lit_def)

lemma execute_cases:
  assumes "0 \<notin> set input" and "length input < length (parse_buffer s)"
  obtains buf where "length buf = length (parse_buffer s)"
    "shell_execute_command memtest input s =
      (case tokens input of [] \<Rightarrow> Some (Returned (s\<lparr>parse_buffer := buf\<rparr>))
       | name # ws \<Rightarrow>
         (case command_of name of
            Some f \<Rightarrow> run_command memtest f (take 8 (name # ws)) (s\<lparr>parse_buffer := buf\<rparr>)
          | None \<Rightarrow> Some (Returned (emit (unknown_command name) (s\<lparr>parse_buffer := buf\<rparr>)))))"
proof (cases "dropWhile (\<lambda>c. c = blank) input = []")
  case True
  then have "tokens input = []" by (metis tokens_Nil tokens_skip)
  then show ?thesis using that [of "parse_buffer s"] True by (simp add: shell_execute_command_def)
next
  case False
  obtain argv buf where p: "shell_parse_command input s = Some (argv, s\<lparr>parse_buffer := buf\<rparr>)"
    "map (string_at buf) argv = take 8 (tokens input)" "length buf = length (parse_buffer s)"
    using parse_command_spec [OF assms] by (auto simp: SHELL_MAX_ARGS_def)
  let ?s = "s\<lparr>parse_buffer := buf\<rparr>"
  have args: "map (string_at (parse_buffer ?s)) argv = take 8 (tokens input)" using p(2) by simp
  have run: "shell_execute_command memtest input s =
      (if argv = [] then Some (Returned ?s)
       else case List.find (\<lambda>(name, description, f). take 8 (tokens input) ! 0 = name) shell_commands of
              Some (name, description, f) \<Rightarrow> run_command memtest f (take 8 (tokens input)) ?s
            | None \<Rightarrow> Some (Returned (emit (unknown_command (take 8 (tokens input) ! 0)) ?s)))"
    by (simp only: shell_execute_command_def False if_False p(1) Option.bind.simps prod.case args Let_def)
  have empty: "argv = [] \<longleftrightarrow> tokens input = []" using p(2) by (cases argv) auto
  show ?thesis
  proof (rule that [OF p(3)], cases "tokens input")
    case Nil
    then show "shell_execute_command memtest input s = (case tokens input of [] \<Rightarrow> Some (Returned ?s)
       | name # ws \<Rightarrow>
         (case command_of name of Some f \<Rightarrow> run_command memtest f (take 8 (name # ws)) ?s
          | None \<Rightarrow> Some (Returned (emit (unknown_command name) ?s))))"
      using run empty by simp
  next
    case (Cons name ws)
    then show "shell_execute_command memtest input s = (case tokens input of [] \<Rightarrow> Some (Returned ?s)
       | name # ws \<Rightarrow>
         (case command_of name of Some f \<Rightarrow> run_command memtest f (take 8 (name # ws)) ?s
          | None \<Rightarrow> Some (Returned (emit (unknown_command name) ?s))))"
      using run empty find_command [of name] by (auto split: option.splits)
  qed
qed

section \<open>Commands keep the shell ready\<close>

definition shell_ready :: "'a shell_scheme \<Rightarrow> bool" where
  "shell_ready s \<longleftrightarrow> shell_ok s \<and> timer_frequency s \<noteq> 0 \<and> (\<exists>bs. tidy s bs)"

text \<open>The bitmap of the frame allocator and the heap have no byte in common.\<close>

definition bitmap_apart :: "'a memory_scheme \<Rightarrow> bool" where
  "bitmap_apart s \<longleftrightarrow> (\<forall>x. unat x \<in> {H0..<HE} \<longrightarrow>
    4 * ((unat (pmm_total_frames s) + 31) div 32) \<le> unat (x - pmm_bitmap s))"

text \<open>A step that keeps the shell ready, the history and what is still to be read.\<close>

definition keeps_shell :: "'a shell_scheme \<Rightarrow> 'a shell_scheme \<Rightarrow> bool" where
  "keeps_shell s s' \<longleftrightarrow> (shell_ready s \<longrightarrow> shell_ready s') \<and> history_lines s' = history_lines s \<and>
    (\<forall>p. stream p s' = stream p s) \<and> bitmap_apart s' = bitmap_apart s"

lemma keeps_shell_refl [simp]: "keeps_shell s s"
  by (simp add: keeps_shell_def)

lemma keeps_ready: "keeps_shell s s' \<Longrightarrow> shell_ready s \<Longrightarrow> shell_ready s'"
  by (simp add: keeps_shell_def)

lemma keeps_shell_trans [trans]: "keeps_shell s s' \<Longrightarrow> keeps_shell s' s'' \<Longrightarrow> keeps_shell s s''"
  by (simp add: keeps_shell_def)

lemma shell_ready_machine: "shell_ready s \<longleftrightarrow> shell_ok s \<and>
    (case machine_part s of (m, head, init, freq, rest) \<Rightarrow> freq \<noteq> 0 \<and> init \<and> head = HEAP_START \<and>
      (\<exists>bs. endof H0 bs = HE \<and> chain m 0 H0 bs \<and> no_adjacent_free bs))"
  by (auto simp: shell_ready_def machine_part_def heap_inv_def tidy_def)

lemma bitmap_apart_machine: "machine_part s' = machine_part s \<Longrightarrow> bitmap_apart s' = bitmap_apart s"
  by (simp add: machine_part_def bitmap_apart_def)

lemma bitmap_apart_emit [simp]: "bitmap_apart (emit cs s) = bitmap_apart s"
  by (simp add: bitmap_apart_def emit_def)

lemma keeps_emit [simp]: "keeps_shell s (emit cs s)"
  by (simp add: keeps_shell_def shell_ready_machine shell_ok_def history_ok_def history_lines_def)

lemma keeps_emit_after [simp]: "keeps_shell s s' \<Longrightarrow> keeps_shell s (emit cs s')"
  by (rule keeps_shell_trans [OF _ keeps_emit])

lemma keeps_parse_buffer: "length buf = length (parse_buffer s) \<Longrightarrow> keeps_shell s (s\<lparr>parse_buffer := buf\<rparr>)"
  by (simp add: keeps_shell_def bitmap_apart_def shell_ready_machine shell_ok_def history_ok_def history_lines_def)

text \<open>The wait of \<open>reboot\<close> changes the tick count only.\<close>

lemma keeps_ticks: "keeps_shell s (s\<lparr>timer_ticks := t\<rparr>)"
  by (simp add: keeps_shell_def shell_ready_def shell_ok_def history_ok_def history_lines_def bitmap_apart_def
      tidy_def heap_inv_def stream_def queue_def kb_valid_def)

lemma timer_wait_keeps: "timer_frequency s \<noteq> 0 \<Longrightarrow> \<exists>s'. timer_wait ms s = Inr s' \<and> (\<exists>t. s' = s\<lparr>timer_ticks := t\<rparr>)"
proof (cases "timer_ticks s \<le> wait_target ms s")
  case True
  assume "timer_frequency s \<noteq> 0"
  then show ?thesis using wait_loop_ends True by (auto simp: timer_wait_def)
next
  case False
  then have "\<not> timer_ticks s < wait_target ms s" by (meson less_imp_le)
  then have "timer_wait ms s = Inr s" by (subst timer_wait_def, subst wait_loop.simps) simp
  moreover have "s = s\<lparr>timer_ticks := timer_ticks s\<rparr>" by simp
  ultimately show ?thesis by blast
qed

lemma countdown_keeps: "shell_ready s \<Longrightarrow> \<exists>s'. countdown is s = Inr s' \<and> keeps_shell s s'"
proof (induction "is" arbitrary: s)
  case Nil
  then show ?case by simp
next
  case (Cons i "is")
  let ?s = "emit [Text ''Reiniciando en '', Dec (of_nat i), Line ''...''] s"
  have "shell_ready ?s" by (rule keeps_ready [OF keeps_emit Cons.prems])
  then obtain t where t: "timer_wait 1000 ?s = Inr (?s\<lparr>timer_ticks := t\<rparr>)"
    using timer_wait_keeps [of ?s 1000] by (auto simp: shell_ready_def)
  have k: "keeps_shell s (?s\<lparr>timer_ticks := t\<rparr>)" using keeps_shell_trans [OF keeps_emit keeps_ticks] .
  from Cons.IH [OF keeps_ready [OF this Cons.prems]] show ?case using t keeps_shell_trans [OF k] by auto
qed

lemma shell_init_ready:
  assumes "shell_ready s"
  shows "shell_ready (shell_init s)" "history_lines (shell_init s) = []" "stream p (shell_init s) = stream p s"
    "bitmap_apart (shell_init s) = bitmap_apart s"
  using assms
  by (simp_all add: shell_init_def bitmap_apart_def Let_def shell_ready_machine shell_ok_def history_ok_def history_lines_def)

text \<open>An operation of the heap keeps the rest of the kernel.\<close>

lemma heap_more_fields:
  assumes "heap.more s' = heap.more (s :: 'a shell_scheme)"
  shows "shell_ok s' = shell_ok s" "timer_frequency s' = timer_frequency s" "history_lines s' = history_lines s"
    "stream p s' = stream p s" "bitmap_apart s' = bitmap_apart s"
  using assms
  by (cases s; cases s'; simp add: bitmap_apart_def shell_ok_def history_ok_def history_lines_def stream_def queue_def kb_valid_def)+

lemma heap_keeps: "heap_frame s s' \<Longrightarrow> tidy s' bs' \<Longrightarrow> keeps_shell s s'"
  using heap_more_fields [of s' s] by (auto simp: keeps_shell_def shell_ready_def heap_frame_def)

lemma kmalloc_keeps:
  assumes "shell_ready s"
  shows "\<exists>p s'. kmalloc 1048576 s = Some (p, s') \<and> keeps_shell s s'"
proof -
  obtain bs where bs: "tidy s bs" using assms by (auto simp: shell_ready_def)
  have n: "0 < (1048576 :: u64)" "unat (1048576 :: u64) \<le> MAX_REQUEST" by simp_all
  obtain p s' bs' where k: "kmalloc 1048576 s = Some (p, s')" "tidy s' bs'" "heap_frame s s'"
    by (rule kmalloc_tidy [OF bs n])
  then have "keeps_shell s s'" using assms by (intro heap_keeps) (auto simp: shell_ready_def)
  then show ?thesis using k(1) by blast
qed

lemma heapinfo_keeps:
  assumes "shell_ready s"
  shows "\<exists>cs. shell_cmd_heapinfo s = Some (emit cs s)"
proof -
  obtain bs where bs: "heap_inv s bs" using assms by (auto simp: shell_ready_def tidy_def)
  then have "\<exists>st'. stats_walk (heap_head s) (ram s) st = Some st'" for st
    using stats_walk_chain [of "ram s" 0 H0 bs] by (auto simp: heap_inv_def nextptr_def)
  then have "\<exists>st. heap_get_stats blank_stats s = Some st"
    using bs by (simp add: heap_get_stats_def heap_inv_def)
  then show ?thesis
    using bs by (auto simp: shell_cmd_heapinfo_def cmd_heapinfo_def heap_print_info_def heap_inv_def)
qed

lemma meminfo_keeps: "keeps_shell s (shell_cmd_meminfo s)"
  by (simp add: shell_cmd_meminfo_def cmd_meminfo_def memory_print_info_def pmm_print_stats_def Let_def)

lemma run_command_keeps:
  assumes "shell_ready s" and "f = Memtest \<Longrightarrow> \<exists>s'. memtest s = Some (Inr s') \<and> keeps_shell s s'"
  shows "\<exists>r. run_command memtest f args s = Some r \<and>
    (case r of
       Returned s' \<Rightarrow> f \<noteq> Halt \<and> f \<noteq> Reboot \<and> keeps_shell s s'
     | Halted s' \<Rightarrow> f = Halt \<and> \<not> interrupts_on s' \<and> history_lines s' = history_lines s
     | Rerun s' \<Rightarrow> f = Reboot \<and> shell_ready s' \<and> history_lines s' = [] \<and> (\<forall>p. stream p s' = stream p s) \<and>
         bitmap_apart s' = bitmap_apart s
     | Fault e \<Rightarrow> False)"
proof (cases f)
  case Halt
  then show ?thesis by (simp add: run_command_def shell_cmd_halt_def cli_def history_lines_def)
next
  case Reboot
  let ?s = "emit [Color VGA_COLOR_LIGHT_GREEN, Write (newline # lit ''REINICIANDO EL SISTEMA'' @ [newline]),
                   Line ''========================'', Line ''El sistema se reiniciara...''] s"
  have "shell_ready ?s" by (rule keeps_ready [OF keeps_emit assms(1)])
  from countdown_keeps [OF this] obtain s1 where s1: "countdown [3, 2, 1] ?s = Inr s1" "keeps_shell ?s s1" by blast
  let ?s1 = "emit [Line ''Reiniciando ahora...'', Initialize] s1"
  have k: "keeps_shell s ?s1" using keeps_shell_trans [OF keeps_shell_trans [OF keeps_emit s1(2)] keeps_emit] .
  have "shell_ready ?s1" by (rule keeps_ready [OF k assms(1)])
  from shell_init_ready [OF this] show ?thesis
    using Reboot s1(1) k by (simp add: run_command_def shell_cmd_reboot_def Let_def keeps_shell_def)
next
  case Kmalloc
  then show ?thesis
    using kmalloc_keeps [OF assms(1)] keeps_shell_trans [OF _ keeps_emit]
    by (fastforce simp: run_command_def shell_cmd_kmalloc_def)
next
  case Heapinfo
  then show ?thesis using heapinfo_keeps [OF assms(1)] by (auto simp: run_command_def)
next
  case Memtest
  then show ?thesis using assms(2) by (auto simp: run_command_def)
qed (use meminfo_keeps in \<open>simp_all add: run_command_def shell_cmd_help_def shell_cmd_clear_def shell_cmd_echo_def
    shell_cmd_uptime_def shell_cmd_history_def shell_show_history_def Let_def split: option.splits\<close>)

section \<open>The main loop is such an interpreter\<close>

text \<open>The lines still to come, and what running one of them leads to.\<close>

definition shell_inputs :: "u8 list \<Rightarrow> 'a shell_scheme \<Rightarrow> u8 list list" where
  "shell_inputs pending s = typed_lines (stream pending s)"

definition shell_eval :: "'a memtest \<Rightarrow> u8 list \<Rightarrow> 'a shell_scheme \<Rightarrow>
    ((cpu_exception + 'a shell_scheme) + 'a shell_scheme) option" where
  "shell_eval memtest line s = map_option (\<lambda>r. case r of
      Returned s \<Rightarrow> Inr s | Halted s \<Rightarrow> Inl (Inr s) | Rerun s \<Rightarrow> Inr (emit shell_greeting s) | Fault e \<Rightarrow> Inl (Inl e))
    (shell_execute_command memtest line s)"

text \<open>
  A line that fits into the buffers and, unless \<open>tests\<close> holds, does not start the memory tests;
  when it may, the bitmap of the frame allocator has to lie outside of the heap.
\<close>

definition runnable_line :: "bool \<Rightarrow> u8 list \<Rightarrow> bool" where
  "runnable_line tests line \<longleftrightarrow> 0 \<notin> set line \<and> length line \<le> 255 \<and> (tests \<or> take 1 (tokens line) \<noteq> [lit ''memtest''])"

definition ready_for :: "bool \<Rightarrow> 'a shell_scheme \<Rightarrow> bool" where
  "ready_for tests s \<longleftrightarrow> shell_ready s \<and> (tests \<longrightarrow> bitmap_apart s)"

definition shut_down :: "cpu_exception + 'a shell_scheme \<Rightarrow> u8 list list \<Rightarrow> bool" where
  "shut_down r ls \<longleftrightarrow> (\<exists>s. r = Inr s \<and> \<not> interrupts_on s \<and> history_lines s = ls)"

lemma edit_char_fits: "0 \<notin> set line \<and> length line \<le> 255 \<Longrightarrow> 0 \<notin> set (edit_char c line) \<and> length (edit_char c line) \<le> 255"
  by (auto simp: edit_char_def dest: in_set_butlastD)

lemma edit_line_fits: "0 \<notin> set (edit_line cs) \<and> length (edit_line cs) \<le> 255"
  unfolding edit_line_def
  by (rule fold_invariant [where Q = "\<lambda>_. True" and P = "\<lambda>l. 0 \<notin> set l \<and> length l \<le> 255"])
    (simp, simp, erule edit_char_fits)

lemma typed_lines_fit: "l \<in> set (typed_lines cs) \<Longrightarrow> 0 \<notin> set l \<and> length l \<le> 255"
proof (induction cs rule: typed_lines.induct)
  case (1 cs)
  then show ?case by (subst (asm) (2) typed_lines.simps) (auto simp: edit_line_fits split: if_splits)
qed

text \<open>
  What the shell relies on when it runs the memory tests. With \<open>tests\<close> false it is promised not
  to call them, and then any command will do.
\<close>

locale memtest_command =
  fixes memtest :: "'a memtest"
    and tests :: bool
  assumes memtest_keeps: "tests \<Longrightarrow> shell_ready s \<Longrightarrow> bitmap_apart s \<Longrightarrow>
    \<exists>s'. memtest s = Some (Inr s') \<and> keeps_shell s s'"
begin

lemma eval_runnable_line:
  assumes "ready_for tests s" and "runnable_line tests line"
  shows "\<exists>r. shell_eval memtest line s = Some r \<and>
    (case r of Inl e \<Rightarrow> act_on line (history_lines s) = None \<and> shut_down e (history_lines s)
     | Inr s' \<Rightarrow> ready_for tests s' \<and> act_on line (history_lines s) = Some (history_lines s') \<and>
         (\<forall>p. shell_inputs p s' = shell_inputs p s))"
proof -
  have l: "0 \<notin> set line" "length line < length (parse_buffer s)"
    using assms by (auto simp: runnable_line_def ready_for_def shell_ready_def shell_ok_def)
  obtain buf where buf: "length buf = length (parse_buffer s)"
    "shell_execute_command memtest line s =
      (case tokens line of [] \<Rightarrow> Some (Returned (s\<lparr>parse_buffer := buf\<rparr>))
       | name # ws \<Rightarrow>
         (case command_of name of
            Some f \<Rightarrow> run_command memtest f (take 8 (name # ws)) (s\<lparr>parse_buffer := buf\<rparr>)
          | None \<Rightarrow> Some (Returned (emit (unknown_command name) (s\<lparr>parse_buffer := buf\<rparr>)))))"
    by (rule execute_cases [OF l])
  let ?s = "s\<lparr>parse_buffer := buf\<rparr>"
  have k: "keeps_shell s ?s" by (rule keeps_parse_buffer [OF buf(1)])
  have continue: "?thesis" if "shell_execute_command memtest line s = Some (Returned s')" "keeps_shell s s'"
    "act_on line (history_lines s) = Some (history_lines s)" for s'
    using that assms(1) by (auto simp: shell_eval_def keeps_shell_def shell_inputs_def ready_for_def)
  show ?thesis
  proof (cases "tokens line")
    case Nil
    then show ?thesis using buf(2) k by (intro continue) (simp_all add: act_on_def)
  next
    case (Cons name ws)
    show ?thesis
    proof (cases "command_of name")
      case None
      then have "name \<noteq> lit ''halt''" "name \<noteq> lit ''reboot''" using command_names [of name] by auto
      then show ?thesis
        using None Cons buf(2) k by (intro continue [of "emit (unknown_command name) ?s"]) (simp_all add: act_on_def)
    next
      case (Some f)
      have f: "f = Halt \<longleftrightarrow> name = lit ''halt''" "f = Reboot \<longleftrightarrow> name = lit ''reboot''" "f = Memtest \<Longrightarrow> tests"
        using command_names [of name] Some assms(2) Cons by (auto simp: runnable_line_def)
      have ready: "shell_ready ?s" "tests \<Longrightarrow> bitmap_apart ?s"
        using keeps_ready [OF k] k assms(1) by (auto simp: ready_for_def keeps_shell_def)
      have mt: "\<exists>s'. memtest ?s = Some (Inr s') \<and> keeps_shell ?s s'" if "f = Memtest"
        using memtest_keeps [OF f(3) ready(1) ready(2)] f(3) that by blast
      obtain r where r: "shell_execute_command memtest line s = Some r" "case r of
           Returned s' \<Rightarrow> f \<noteq> Halt \<and> f \<noteq> Reboot \<and> keeps_shell ?s s'
         | Halted s' \<Rightarrow> f = Halt \<and> \<not> interrupts_on s' \<and> history_lines s' = history_lines ?s
         | Rerun s' \<Rightarrow> f = Reboot \<and> shell_ready s' \<and> history_lines s' = [] \<and> (\<forall>p. stream p s' = stream p ?s) \<and>
             bitmap_apart s' = bitmap_apart ?s
         | Fault e \<Rightarrow> False"
        using run_command_keeps [where f = f and memtest = memtest and args = "take 8 (name # ws)", OF ready(1) mt] buf(2) Cons Some by auto
      have h: "history_lines ?s = history_lines s" "\<forall>p. stream p ?s = stream p s" "bitmap_apart ?s = bitmap_apart s"
        using k by (simp_all add: keeps_shell_def)
      show ?thesis
      proof (cases r)
        case (Returned s')
        then show ?thesis
          using r f Cons keeps_shell_trans [OF k] by (intro continue) (auto simp: act_on_def)
      next
        case (Halted s')
        then show ?thesis using r f Cons h by (auto simp: shell_eval_def act_on_def shut_down_def)
      next
        case (Rerun s')
        then have s': "shell_ready s'" "history_lines s' = []" "\<forall>p. stream p s' = stream p s" "name = lit ''reboot''"
          "bitmap_apart s' = bitmap_apart s"
          using r(2) f h by auto
        have g: "keeps_shell s' (emit shell_greeting s')" by simp
        have "lit ''reboot'' \<noteq> lit ''halt''" by (simp add: lit_def)
        then show ?thesis
          using Rerun r(1) s' Cons keeps_ready [OF g] g assms(1)
          by (simp add: ready_for_def shell_eval_def act_on_def shell_inputs_def keeps_shell_def)
      next
        case (Fault e)
        then show ?thesis using r(2) by simp
      qed
    qed
  qed
qed

end

text \<open>With such a command the shell is an interpreter of lines.\<close>

sublocale memtest_command \<subseteq> sh: line_interpreter shell_readline "shell_eval memtest" "shell_loop memtest" shell_inputs
  "ready_for tests" "runnable_line tests" history_lines remember act_on shut_down
proof unfold_locales
  have "Option.bind (shell_execute_command memtest l s) (\<lambda>r. case r of
        Returned s \<Rightarrow> shell_loop memtest p s | Halted s \<Rightarrow> Some (Inr s)
      | Rerun s \<Rightarrow> shell_loop memtest p (emit shell_greeting s) | Fault e \<Rightarrow> Some (Inl e)) =
    Option.bind (shell_eval memtest l s) (\<lambda>r. case r of Inl e \<Rightarrow> Some e | Inr s \<Rightarrow> shell_loop memtest p s)"
    for memtest :: "'a memtest" and l p s
    by (cases "shell_execute_command memtest l s") (auto simp: shell_eval_def split: outcome.split)
  then show "shell_loop memtest p s = Option.bind (shell_readline p s) (\<lambda>(l, p, s).
      Option.bind (shell_eval memtest l s) (\<lambda>r. case r of Inl e \<Rightarrow> Some e | Inr s \<Rightarrow> shell_loop memtest p s))"
    for memtest :: "'a memtest" and p s
    by (subst shell_loop.simps) simp
  fix p and s :: "'a shell_scheme"
  assume ok: "ready_for tests s"
  then have "shell_ok s" by (simp add: ready_for_def shell_ready_def)
  note spec = readline_spec [OF this, of p]
  show "shell_readline p s = None" if "shell_inputs p s = []"
  proof -
    have "newline \<notin> set (stream p s)"
      using that by (subst (asm) shell_inputs_def, subst (asm) typed_lines.simps) (simp split: if_splits)
    then show ?thesis using spec by simp
  qed
  show "\<exists>p' s'. shell_readline p s = Some (l, p', s') \<and> ready_for tests s' \<and> shell_inputs p' s' = ls \<and>
      history_lines s' = remember l (history_lines s)" if "shell_inputs p s = l # ls" for l ls
  proof -
    have n: "newline \<in> set (stream p s)" "l = edit_line (takeWhile (\<lambda>c. c \<noteq> newline) (stream p s))"
      "ls = typed_lines (tl (dropWhile (\<lambda>c. c \<noteq> newline) (stream p s)))"
      using that by (subst (asm) shell_inputs_def, subst (asm) typed_lines.simps, simp split: if_splits)+
    then obtain rest s' where s': "shell_readline p s = Some (l, rest, s')" "typed_lines (stream rest s') = ls"
      "shell_ok s'" "history_lines s' = remember l (history_lines s)"
      using spec by auto
    note m = readline_machine [OF s'(1)]
    have "ready_for tests s'"
      using ok s'(3) m bitmap_apart_machine [OF m] by (simp add: ready_for_def shell_ready_machine)
    then show ?thesis using s' by (simp add: shell_inputs_def)
  qed
qed (use eval_runnable_line in blast)

context memtest_command
begin

text \<open>The session of the shell over the lines typed.\<close>

lemma session_spec:
  assumes "ready_for tests s" and "tests \<or> (\<forall>l \<in> set (typed_lines (stream pending s)). take 1 (tokens l) \<noteq> [lit ''memtest''])"
  shows "case shell_session (typed_lines (stream pending s)) (history_lines s) of
      None \<Rightarrow> shell_loop memtest pending s = None
    | Some ls \<Rightarrow> \<exists>s'. shell_loop memtest pending s = Some (Inr s') \<and> \<not> interrupts_on s' \<and> history_lines s' = ls"
proof -
  have "list_all (runnable_line tests) (shell_inputs pending s)"
    using assms(2) typed_lines_fit by (auto simp: list_all_iff runnable_line_def shell_inputs_def)
  from sh.loop_session [OF assms(1) this] show ?thesis
    by (auto simp: shell_session_def shell_inputs_def shut_down_def split: option.splits)
qed

end

text \<open>As long as the tests are not run, nothing is asked of them.\<close>

interpretation untested: memtest_command memtest False
  for memtest :: "'a memtest"
  by unfold_locales simp

section \<open>Properties\<close>

text \<open>
  A line runs the command that its first word names, with the first eight words as its
  arguments; a line without words does nothing, and a word that names no command prints the
  suggestions. Whatever happens, the parser changes its own buffer only.
\<close>

theorem execute_dispatches:
  assumes "0 \<notin> set input" and "length input < length (parse_buffer s)"
  shows "\<exists>buf. length buf = length (parse_buffer s) \<and>
    shell_execute_command memtest input s =
      (case tokens input of [] \<Rightarrow> Some (Returned (s\<lparr>parse_buffer := buf\<rparr>))
       | name # ws \<Rightarrow>
         (case command_of name of
            Some f \<Rightarrow> run_command memtest f (take 8 (name # ws)) (s\<lparr>parse_buffer := buf\<rparr>)
          | None \<Rightarrow> Some (Returned (emit (unknown_command name) (s\<lparr>parse_buffer := buf\<rparr>)))))"
  using execute_cases [OF assms] by blast

theorem execute_dispatches_witness:
  "\<exists>s. shell_execute_command (\<lambda>s. Some (Inr s)) [101, 32, 34, 97, 32, 98, 34] boot_shell = Some (Returned (emit (unknown_command [101]) s))"
  using execute_dispatches [of "[101, 32, 34, 97, 32, 98, 34]" boot_shell "\<lambda>s. Some (Inr s)"]
  unfolding example_words by (auto simp: boot_shell_simps command_of_def shell_commands_def lit_def)

text \<open>A shell with a fresh heap, and the keys of \<open>hi\<close>, Enter, \<open>halt\<close>, Enter.\<close>

definition ready_shell :: shell where
  "ready_shell = heap_init boot_shell"

lemma heap_init_more [simp]: "memory.more (heap_init s) = memory.more s"
  by (simp add: heap_init_def Let_def emit_def)

lemma heap_init_keeps:
  "heap.more (heap_init s) = heap.more s" "\<exists>bs. tidy (heap_init s) bs"
proof -
  show "heap.more (heap_init s) = heap.more s" by (auto simp: heap_init_def Let_def emit_def)
  show "\<exists>bs. tidy (heap_init s) bs"
    using heap_init_inv [of s] by (auto simp: tidy_def no_adjacent_free_def)
qed

lemma ready_shell: "shell_ready ready_shell" "history_lines ready_shell = []"
  "stream pending ready_shell = typed False False pending"
proof -
  have "heap.more ready_shell = heap.more boot_shell" by (simp add: ready_shell_def heap_init_keeps)
  note f = heap_more_fields [OF this]
  have "timer_frequency boot_shell = 100"
    by (simp add: boot_shell_def kernel.defs boot_kernel_simps)
  then show "shell_ready ready_shell" "history_lines ready_shell = []"
    "stream pending ready_shell = typed False False pending"
    using f boot_shell_ok boot_stream [of pending] heap_init_keeps(2) [of boot_shell]
    by (simp_all add: shell_ready_def ready_shell_def)
qed

lemma hi_halt:
  "typed False False [0x23, 0x17, 0x1C, 0x23, 0x1E, 0x26, 0x14, 0x1C] = [104, 105, newline, 104, 97, 108, 116, newline]"
  "typed_lines [104, 105, newline, 104, 97, 108, 116, newline] = [[104, 105], lit ''halt'']"
proof -
  show "typed False False [0x23, 0x17, 0x1C, 0x23, 0x1E, 0x26, 0x14, 0x1C] = [104, 105, newline, 104, 97, 108, 116, newline]"
    by (simp add: key_char_def scancode_to_ascii_def lit_def)
  show "typed_lines [104, 105, newline, 104, 97, 108, 116, newline] = [[104, 105], lit ''halt'']"
    using typed_lines_append [of "[104, 105]" "[104, 97, 108, 116, newline]"]
      typed_lines_append [of "[104, 97, 108, 116]" "[]"] typed_lines_Nil [of "[]"]
    by (simp add: edit_line_def edit_char_def lit_def)
qed

lemma one_word: "blank \<notin> set w \<Longrightarrow> quote \<notin> set w \<Longrightarrow> w \<noteq> [] \<Longrightarrow> tokens w = [w]"
  by (cases w) (auto intro!: tokens_plain(2))

lemma hi_halt_words: "tokens [104, 105] = [[104, 105]]" "tokens (lit ''halt'') = [lit ''halt'']"
  by (rule one_word; simp add: lit_def)+

end
