(* ===== verification/Memory_Tests_Props.thy ===== *)
theory Memory_Tests_Props
  imports Shell_Session Pmm_Props
begin

text \<open>
  The memory tests as steps of the running kernel. \<open>test_ok\<close> is what a test promises: the shell
  stays ready and, when the heap has a free block of a kilobyte and the frame allocator a run of
  100 frames, the layout of the heap and the set of used frames are the same as before, no test
  fails, and the number of tests that pass lies within the given bounds. The promise composes.
\<close>

section \<open>The promise of a test\<close>

definition pmm_healthy :: "'a memory_scheme \<Rightarrow> bool" where
  "pmm_healthy s \<longleftrightarrow> pmm_ok s \<and> pmm_memory_base s \<noteq> 0 \<and> (\<exists>a. free_run s a 100)"

definition healthy :: "'a memory_scheme \<Rightarrow> layout \<Rightarrow> bool" where
  "healthy s bs \<longleftrightarrow> fits 1024 bs \<and> pmm_healthy s"

definition test_ok :: "nat \<Rightarrow> nat \<Rightarrow> 'a tests_scheme \<Rightarrow> layout \<Rightarrow> 'a tests_scheme \<Rightarrow> layout \<Rightarrow> bool" where
  "test_ok lo hi s bs s' bs' \<longleftrightarrow> keeps_shell s s' \<and> tidy s' bs' \<and>
    (healthy s bs \<longrightarrow> bs' = bs \<and> pmm_healthy s' \<and> used s' = used s \<and> tests_failed s' = tests_failed s \<and>
      (\<exists>n. lo \<le> n \<and> n \<le> hi \<and> tests_passed s' = tests_passed s + of_nat n))"

lemma test_ok_trans:
  assumes "test_ok a b s bs s1 bs1" and "test_ok c d s1 bs1 s' bs'"
  shows "test_ok (a + c) (b + d) s bs s' bs'"
proof -
  have "\<exists>n. a + c \<le> n \<and> n \<le> b + d \<and> tests_passed s' = tests_passed s + of_nat n"
    if "a \<le> i" "i \<le> b" "tests_passed s1 = tests_passed s + of_nat i"
      "c \<le> j" "j \<le> d" "tests_passed s' = tests_passed s1 + of_nat j" for i j
    using that by (intro exI [of _ "i + j"]) simp
  then show ?thesis
    using assms keeps_shell_trans [of s s1 s'] unfolding test_ok_def healthy_def by metis
qed

lemma test_ok_then: "test_ok a b s bs s1 bs1 \<Longrightarrow> test_ok 0 0 s1 bs1 s' bs' \<Longrightarrow> test_ok a b s bs s' bs'"
  using test_ok_trans [of a b s bs s1 bs1 0 0] by simp

lemma then_test_ok: "test_ok 0 0 s bs s1 bs1 \<Longrightarrow> test_ok a b s1 bs1 s' bs' \<Longrightarrow> test_ok a b s bs s' bs'"
  using test_ok_trans [of 0 0 s bs s1 bs1 a b] by simp

lemma test_ok_weaken: "test_ok a b s bs s' bs' \<Longrightarrow> c \<le> a \<Longrightarrow> b \<le> d \<Longrightarrow> test_ok c d s bs s' bs'"
  unfolding test_ok_def by (meson order_trans)

text \<open>A step that neither the heap nor the frame allocator sees.\<close>

lemma test_ok_I:
  assumes "keeps_shell s s'" and "tidy s bs"
    and "heap_head s' = heap_head s" "heap_initialized s' = heap_initialized s" "ram s' = ram s"
    and "pmm_bitmap s' = pmm_bitmap s" "pmm_total_frames s' = pmm_total_frames s" "pmm_memory_base s' = pmm_memory_base s"
      "pmm_memory_size s' = pmm_memory_size s" "pmm_used_frames s' = pmm_used_frames s"
    and "tests_failed s' = tests_failed s" "tests_passed s' = tests_passed s + of_nat n"
  shows "test_ok n n s bs s' bs"
proof -
  have "used s' = used s" using assms(5-7) by (simp add: used_def pmm_test_frame_def bitmap_word_def)
  then show ?thesis
    using assms by (auto simp: test_ok_def tidy_def heap_inv_def healthy_def pmm_healthy_def pmm_ok_def free_run_def)
qed

lemma emit_fields [simp]:
  "heap_head (emit cs s) = heap_head s" "ram (emit cs s) = ram s" "tests_failed (emit cs t) = tests_failed t"
  "tests_passed (emit cs t) = tests_passed t" "pmm_bitmap (emit cs u) = pmm_bitmap u"
  "pmm_total_frames (emit cs u) = pmm_total_frames u" "pmm_memory_base (emit cs u) = pmm_memory_base u"
  "pmm_memory_size (emit cs u) = pmm_memory_size u" "pmm_used_frames (emit cs u) = pmm_used_frames u"
  by (simp_all add: emit_def)

lemma keeps_counters: "keeps_shell s (s\<lparr>tests_passed := x\<rparr>)" "keeps_shell s (s\<lparr>tests_failed := x\<rparr>)"
  by (simp_all add: keeps_shell_def shell_ready_def shell_ok_def history_ok_def history_lines_def bitmap_apart_def
      tidy_def heap_inv_def stream_def queue_def kb_valid_def)

lemma ok_emit: "tidy s bs \<Longrightarrow> test_ok 0 0 s bs (emit cs s) bs"
  by (rule test_ok_I) simp_all

lemma ok_pass: "tidy s bs \<Longrightarrow> test_ok 1 1 s bs (test_print_pass name s) bs"
  by (rule test_ok_I) (simp_all add: test_print_pass_def Let_def keeps_shell_trans [OF keeps_emit keeps_counters(1)])

lemma ok_ticks: "tidy s bs \<Longrightarrow> test_ok 0 0 s bs (s\<lparr>timer_ticks := t\<rparr>) bs"
  by (rule test_ok_I) (simp_all add: keeps_ticks)

lemma keeps_fail: "keeps_shell s (test_print_fail name s)" "tidy (test_print_fail name s) bs = tidy s bs"
  by (simp_all add: test_print_fail_def Let_def keeps_shell_trans [OF keeps_emit keeps_counters(2)] tidy_def heap_inv_def)

text \<open>A test that fails, or only warns, when the kernel is not healthy.\<close>

lemma ok_not_healthy: "keeps_shell s s' \<Longrightarrow> tidy s' bs' \<Longrightarrow> \<not> healthy s bs \<Longrightarrow> test_ok lo hi s bs s' bs'"
  by (simp add: test_ok_def)

section \<open>The tests of the heap\<close>

lemma heap_more_tests:
  assumes "heap.more s' = heap.more (s :: 'a tests_scheme)"
  shows "pmm_bitmap s' = pmm_bitmap s" "pmm_total_frames s' = pmm_total_frames s" "pmm_memory_base s' = pmm_memory_base s"
      "pmm_memory_size s' = pmm_memory_size s" "pmm_used_frames s' = pmm_used_frames s"
      "tests_failed s' = tests_failed s" "tests_passed s' = tests_passed s"
  using assms by (cases s; cases s'; simp)+

text \<open>The heap's bytes are not the bitmap's.\<close>

lemma heap_frame_used:
  assumes "heap_frame s s'" and "bitmap_apart (s :: 'a tests_scheme)"
  shows "used s' = used s"
proof -
  have r: "same_except (ram s) (ram s') {H0..<HE}" and m: "heap.more s' = heap.more s"
    using assms(1) by (simp_all add: heap_frame_def)
  note f = heap_more_tests [OF m]
  have w: "load32 (ram s') (bitmap_word (i div 32) s) = load32 (ram s) (bitmap_word (i div 32) s)"
    if "i < pmm_total_frames s" for i
  proof (rule cell32.get_cong)
    fix j :: nat assume j: "j < 4"
    let ?x = "bitmap_word (i div 32) s + of_nat j"
    have "\<not> 4 \<le> unat (?x - bitmap_word (i div 32) s)" using j by (simp add: unat_of_nat_u64)
    then have "\<not> 4 * ((unat (pmm_total_frames s) + 31) div 32) \<le> unat (?x - pmm_bitmap s)"
      using frame_word_inside [OF that] by blast
    then have "unat ?x \<notin> {H0..<HE}" using assms(2) by (auto simp: bitmap_apart_def)
    then show "ram s' ?x = ram s ?x" using r by (simp add: same_except_def)
  qed
  have "pmm_test_frame i s' = pmm_test_frame i s" for i
    using f w [of i] by (auto simp: pmm_test_frame_def bitmap_word_def not_le)
  then show ?thesis by (simp add: used_def f)
qed

lemma ok_heap:
  assumes "heap_frame s s'" and "tidy s' bs'" and "bitmap_apart s" and "healthy s bs \<Longrightarrow> bs' = bs"
  shows "test_ok 0 0 s bs s' bs'"
proof -
  have m: "heap.more s' = heap.more s" using assms(1) by (simp add: heap_frame_def)
  show ?thesis
    using heap_keeps [OF assms(1,2)] heap_frame_used [OF assms(1,3)] heap_more_tests [OF m] assms(2,4)
    by (auto simp: test_ok_def healthy_def pmm_healthy_def pmm_ok_def free_run_def)
qed

definition sound_test :: "nat \<Rightarrow> nat \<Rightarrow> ('a tests_scheme \<Rightarrow> 'a tests_scheme option) \<Rightarrow> bool" where
  "sound_test lo hi test \<longleftrightarrow> (\<forall>s bs. bitmap_apart s \<and> tidy s bs \<longrightarrow>
    (\<exists>s' bs'. test s = Some s' \<and> test_ok lo hi s bs s' bs'))"

lemma sound_testI:
  "(\<And>s bs. bitmap_apart s \<Longrightarrow> tidy s bs \<Longrightarrow> \<exists>s' bs'. test s = Some s' \<and> test_ok lo hi s bs s' bs') \<Longrightarrow> sound_test lo hi test"
  by (simp add: sound_test_def)

text \<open>The heap steps of a test lie between two reports.\<close>

lemma ok_pass_after:
  assumes "bitmap_apart s" and "tidy s bs" and "heap_frame (emit cs s) s'" and "tidy s' bs"
  shows "test_ok 1 1 s bs (test_print_pass name s') bs"
proof -
  have "test_ok 0 0 (emit cs s) bs s' bs" by (rule ok_heap) (use assms in simp_all)
  from then_test_ok [OF then_test_ok [OF ok_emit [OF assms(2)] this] ok_pass [OF assms(4)]] show ?thesis .
qed

lemma ok_fail_after:
  assumes "heap_frame (emit cs s) s'" and "tidy s' bs'" and "\<not> healthy s bs"
  shows "test_ok lo hi s bs (test_print_fail name s') bs'"
proof (rule ok_not_healthy)
  have "keeps_shell s s'" by (rule keeps_shell_trans [OF keeps_emit heap_keeps [OF assms(1,2)]])
  then show "keeps_shell s (test_print_fail name s')" by (rule keeps_shell_trans [OF _ keeps_fail(1)])
qed (use assms in \<open>simp_all add: keeps_fail\<close>)

lemma used_sizes_bound: "tidy s bs \<Longrightarrow> used_sizes bs < HE"
  using sizes_endof [of H0 bs] by (simp add: tidy_def heap_inv_def)

lemma basic_ok: "sound_test 1 1 test_kmalloc_alloc_free_basic"
proof (rule sound_testI)
  fix s :: "'a tests_scheme" and bs assume a: "bitmap_apart s" "tidy s bs"
  obtain cs where cs: "test_print_info (lit ''Test: kmalloc/kfree b'' @ a_acute @ lit ''sico...'') s = emit cs s"
    by (simp add: test_print_info_def)
  have t1: "tidy (emit cs s) bs" using a(2) by simp
  obtain st where st: "heap_get_stats blank_stats (emit cs s) = Some st" "stat_used_size st = of_nat (used_sizes bs)"
    using stats_tidy [OF t1] by blast
  have "valid_sizes (replicate 10 64)" by (simp add: valid_sizes_def list_all_iff)
  from alloc_each_tidy [OF t1 this] obtain r s2 bs2 where r: "alloc_each (replicate 10 64) (emit cs s) = Some (r, s2)"
    "tidy s2 bs2" "heap_frame (emit cs s) s2" "\<forall>ps. r = Some ps \<longrightarrow> extra ps bs bs2"
    "\<forall>K. fits K bs \<and> space (replicate 10 64) + 16 \<le> K \<longrightarrow> r \<noteq> None"
    by (elim exE conjE) (rule that)
  show "\<exists>s' bs'. test_kmalloc_alloc_free_basic s = Some s' \<and> test_ok 1 1 s bs s' bs'"
  proof (cases r)
    case None
    have "space (replicate 10 64) + 16 \<le> 1024" by (simp add: space_def rounded_def sum_list_replicate)
    then have "\<not> healthy s bs" using r(5) None unfolding healthy_def by blast
    from ok_fail_after [OF r(3,2) this] show ?thesis
      using r(1) st(1) None unfolding test_kmalloc_alloc_free_basic_def Let_def cs by simp blast
  next
    case (Some ps)
    then have ex: "extra ps bs bs2" using r(4) by blast
    obtain s3 bs3 where f: "free_all ps s2 = Some s3" "tidy s3 bs3" "heap_frame s2 s3"
      "block_map bs3 = block_map bs2 |` (- set ps)"
      using free_all_tidy [OF r(2) extra_releasable [OF ex]] by blast
    have same: "bs3 = bs" by (rule extra_restored [OF ex f(4) a(2) f(2)])
    obtain st' where st': "heap_get_stats blank_stats s3 = Some st'" "stat_used_size st' = of_nat (used_sizes bs)"
      using stats_tidy [OF f(2)] same by blast
    have "unat (of_nat (used_sizes bs) :: u64) = used_sizes bs"
      "unat (of_nat (used_sizes bs + 256) :: u64) = used_sizes bs + 256"
      using used_sizes_bound [OF a(2)] by (auto intro!: unat_of_nat_u64 simp del: of_nat_add)
    then have "(of_nat (used_sizes bs) :: u64) \<le> of_nat (used_sizes bs) + 256" by (simp add: word_le_nat_alt)
    then show ?thesis
      using r(1) st f(1) Some st' ok_pass_after [OF a heap_frame_trans [OF r(3) f(3)] f(2) [unfolded same]]
      unfolding test_kmalloc_alloc_free_basic_def Let_def cs by simp blast
  qed
qed

lemma ok_warn_after:
  assumes "bitmap_apart s" and "tidy s bs" and "heap_frame (emit cs s) s'" and "tidy s' bs"
  shows "test_ok 0 0 s bs (test_print_warn name s') bs"
proof -
  have "test_ok 0 0 (emit cs s) bs s' bs" by (rule ok_heap) (use assms in simp_all)
  from then_test_ok [OF ok_emit [OF assms(2)] test_ok_then [OF this ok_emit [OF assms(4)]]]
  show ?thesis by (simp add: test_print_warn_def)
qed

lemma emit_nothing: "emit [] s = s"
  by (simp add: emit_def)

lemma rounded_consts: "rounded 100 = 112" "rounded 10 = 16" "rounded 20 = 32" "rounded 200 = 208" "rounded 64 = 64"
  by (simp_all add: rounded_def)

lemma coalesce_ok: "sound_test 0 1 test_kmalloc_coalesce"
proof (rule sound_testI)
  fix s :: "'a tests_scheme" and bs assume a: "bitmap_apart s" "tidy s bs"
  obtain cs where cs: "test_print_info (lit ''Test: Coalescencia de bloques...'') s = emit cs s"
    by (simp add: test_print_info_def)
  have t0: "tidy (emit cs s) bs" using a(2) by simp
  have n: "0 < (100 :: u64)" "unat (100 :: u64) \<le> MAX_REQUEST" "unat (100 :: u64) = 100" by simp_all
  obtain p1 s1 bs1 where k1: "kmalloc 100 (emit cs s) = Some (p1, s1)" "tidy s1 bs1" "heap_frame (emit cs s) s1"
    "allotted 100 bs p1 (ram s1) bs1" by (rule kmalloc_tidy [OF t0 n(1,2), unfolded n(3)])
  obtain p2 s2 bs2 where k2: "kmalloc 100 s1 = Some (p2, s2)" "tidy s2 bs2" "heap_frame s1 s2"
    "allotted 100 bs1 p2 (ram s2) bs2" by (rule kmalloc_tidy [OF k1(2) n(1,2), unfolded n(3)])
  obtain p3 s3 bs3 where k3: "kmalloc 100 s2 = Some (p3, s3)" "tidy s3 bs3" "heap_frame s2 s3"
    "allotted 100 bs2 p3 (ram s3) bs3" by (rule kmalloc_tidy [OF k2(2) n(1,2), unfolded n(3)])
  note fr = heap_frame_trans [OF heap_frame_trans [OF k1(3) k2(3)] k3(3)]
  show "\<exists>s' bs'. test_kmalloc_coalesce s = Some s' \<and> test_ok 0 1 s bs s' bs'"
  proof (cases "p1 = NULL \<or> p2 = NULL \<or> p3 = NULL")
    case True
    have "p1 \<noteq> NULL \<and> p2 \<noteq> NULL \<and> p3 \<noteq> NULL" if "fits 1024 bs"
    proof -
      have p1: "p1 \<noteq> NULL" using allotted_fits [OF k1(4) that] by (simp add: rounded_consts)
      then have f1: "fits 883 bs1" using k1(4) that by (auto simp: allotted_def rounded_consts dest!: spec [of _ 1024])
      have p2: "p2 \<noteq> NULL" using allotted_fits [OF k2(4) f1] by (simp add: rounded_consts)
      then have f2: "fits 742 bs2" using k2(4) f1 by (auto simp: allotted_def rounded_consts dest!: spec [of _ 883])
      show ?thesis using p1 p2 allotted_fits [OF k3(4) f2] by (simp add: rounded_consts)
    qed
    then have "\<not> healthy s bs" using True by (auto simp: healthy_def)
    from ok_fail_after [OF fr k3(2) this] show ?thesis
      using k1(1) k2(1) k3(1) True unfolding test_kmalloc_coalesce_def Let_def cs by simp blast
  next
    case False
    have ex: "extra [p1, p2, p3] bs bs3"
      by (rule extra_Cons [OF k1(4) extra_Cons [OF k2(4) extra_Cons [OF k3(4) extra_Nil k2(2)] k1(2)] a(2)])
    obtain s4 bs4 where f: "free_all [p1, p2, p3] s3 = Some s4" "tidy s4 bs4" "heap_frame s3 s4"
      "block_map bs4 = block_map bs3 |` (- set [p1, p2, p3])"
      using free_all_tidy [OF k3(2) extra_releasable [OF ex]] by blast
    obtain t1 t2 where f1: "kfree p1 s3 = Some t1" "kfree p2 t1 = Some t2" "kfree p3 t2 = Some s4"
      using f(1) by (auto simp: Option.bind_eq_Some_conv)
    have same: "bs4 = bs" by (rule extra_restored [OF ex f(4) a(2) f(2)])
    note t4 = f(2) [unfolded same] and fr4 = heap_frame_trans [OF fr f(3)]
    obtain st st' where st: "heap_get_stats blank_stats s3 = Some st" "heap_get_stats blank_stats s4 = Some st'"
      using stats_tidy [OF k3(2)] stats_tidy [OF f(2)] by blast
    have pass: "test_ok 0 1 s bs (emit ds (test_print_pass name s4)) bs" for ds name
    proof -
      note p = ok_pass_after [OF a fr4 t4, of name]
      then have "tidy (test_print_pass name s4) bs" by (simp add: test_ok_def)
      from test_ok_then [OF p ok_emit [OF this]] show ?thesis by (rule test_ok_weaken) simp_all
    qed
    have warn: "test_ok 0 1 s bs (test_print_warn name s4) bs" for name
      by (rule test_ok_weaken [OF ok_warn_after [OF a fr4 t4]]) simp_all
    show ?thesis
      using k1(1) k2(1) k3(1) False st f1 pass warn unfolding test_kmalloc_coalesce_def Let_def cs
      by (cases "stat_free_block_count st' \<le> stat_free_block_count st") (simp; blast)+
  qed
qed

lemma letters_range: "i < (9::nat) \<longleftrightarrow> i \<in> {0, 1, 2, 3, 4, 5, 6, 7, 8}"
  by auto

lemma write_letters_unfold:
  "write_letters str m = m(str := 65, str + 1 := 66, str + 2 := 67, str + 3 := 68, str + 4 := 69, str + 5 := 70,
    str + 6 := 71, str + 7 := 72, str + 8 := 73, str + 9 := 0)"
  by (simp add: write_letters_def store8_def upt_conv_Cons numeral_eq_Suc)

lemma write_letters_at: "i < 9 \<Longrightarrow> write_letters str m (str + of_nat i) = 65 + of_nat i"
  unfolding letters_range write_letters_unfold by auto

lemma write_letters_outside: "(\<And>i. i < 10 \<Longrightarrow> x \<noteq> str + of_nat i) \<Longrightarrow> write_letters str m x = m x"
proof -
  assume a: "\<And>i. i < 10 \<Longrightarrow> x \<noteq> str + of_nat i"
  show ?thesis
    using a [of 0] a [of 1] a [of 2] a [of 3] a [of 4] a [of 5] a [of 6] a [of 7] a [of 8] a [of 9]
    unfolding write_letters_unfold by simp
qed

text \<open>A client's write to its block.\<close>

lemma tidy_write:
  assumes t: "tidy s bs" and p: "block_map bs p = Some k" and w: "\<And>x. (\<And>i. i < k \<Longrightarrow> x \<noteq> p + of_nat i) \<Longrightarrow> m x = ram s x"
  shows "tidy (s\<lparr>ram := m\<rparr>) bs" and "heap_frame s (s\<lparr>ram := m\<rparr>)"
proof -
  obtain b where b: "p = of_nat (b + HDR)" "live_map H0 bs b = Some k" by (rule block_map_Some [OF t p])
  note rg = tidy_range [OF t b(2)]
  have "m x = ram s x" if "unat x \<notin> {b + HDR..<b + HDR + k}" for x
  proof (rule w)
    fix i assume i: "i < k"
    have "unat (of_nat (b + HDR + i) :: u64) = b + HDR + i" using i rg(2) by (intro unat_of_nat_u64) simp
    then show "x \<noteq> p + of_nat i" using that i b(1) by auto
  qed
  then have se: "same_except (ram s) m {b + HDR..<b + HDR + k}" by (simp add: same_except_def)
  have "heap_inv s bs" using t by (simp add: tidy_def)
  from heap_inv_write [OF this se live_map_hdrs [OF b(2)]] show "tidy (s\<lparr>ram := m\<rparr>) bs"
    using t by (simp add: tidy_def)
  show "heap_frame s (s\<lparr>ram := m\<rparr>)"
    using rg(2,3) by (auto simp: heap_frame_def intro!: same_except_mono [OF se])
qed

lemma allotted_block:
  assumes "allotted n bs p m bs'" and "p \<noteq> NULL"
  obtains k where "block_map bs' p = Some k" "rounded n \<le> k"
  using assms by (auto simp: allotted_def)

lemma krealloc_ok: "sound_test 1 1 test_krealloc"
proof (rule sound_testI)
  fix s :: "'a tests_scheme" and bs assume a: "bitmap_apart s" "tidy s bs"
  obtain cs where cs: "test_print_info (lit ''Test: krealloc...'') s = emit cs s"
    by (simp add: test_print_info_def)
  have t0: "tidy (emit cs s) bs" using a(2) by simp
  have n: "0 < (10 :: u64)" "unat (10 :: u64) \<le> MAX_REQUEST" "unat (10 :: u64) = 10"
    "0 < (20 :: u64)" "unat (20 :: u64) \<le> MAX_REQUEST" "unat (20 :: u64) = 20" by simp_all
  obtain p s1 bs1 where k1: "kmalloc 10 (emit cs s) = Some (p, s1)" "tidy s1 bs1" "heap_frame (emit cs s) s1"
    "allotted 10 bs p (ram s1) bs1" by (rule kmalloc_tidy [OF t0 n(1,2), unfolded n(3)])
  show "\<exists>s' bs'. test_krealloc s = Some s' \<and> test_ok 1 1 s bs s' bs'"
  proof (cases "p = NULL")
    case True
    have "\<not> healthy s bs" using allotted_fits [OF k1(4), of 1024] True by (auto simp: healthy_def rounded_consts)
    from ok_fail_after [OF k1(3,2) this] show ?thesis
      using k1(1) True unfolding test_krealloc_def Let_def cs by simp blast
  next
    case False
    obtain k where k: "block_map bs1 p = Some k" "16 \<le> k"
      using allotted_block [OF k1(4) False] by (auto simp: rounded_consts)
    define s2 where "s2 = s1\<lparr>ram := write_letters p (ram s1)\<rparr>"
    have "write_letters p (ram s1) x = ram s1 x" if "\<And>i. i < k \<Longrightarrow> x \<noteq> p + of_nat i" for x
      using that k(2) by (intro write_letters_outside) simp
    from tidy_write [OF k1(2) k(1) this] have s2: "tidy s2 bs1" "heap_frame s1 s2" by (simp_all add: s2_def)
    obtain q s3 bs3 where r: "krealloc p 20 s2 = Some (q, s3)" "tidy s3 bs3" "heap_frame s2 s3"
      "if q = NULL then bs3 = bs1 \<and> \<not> fits (rounded 20) bs1
       else block_map bs3 q \<noteq> None \<and> block_map bs3 |` (- {q}) = block_map bs1 |` (- {p}) \<and> (q = p \<or> block_map bs1 q = None) \<and>
         (\<forall>i < min k 20. ram s3 (q + of_nat i) = ram s2 (p + of_nat i))"
      by (rule krealloc_tidy [OF s2(1) k(1) n(4,5), unfolded n(6)])
    note fr = heap_frame_trans [OF heap_frame_trans [OF k1(3) s2(2)] r(3)]
    show ?thesis
    proof (cases "q = NULL")
      case True
      have "\<not> fits 1024 bs"
      proof
        assume "fits 1024 bs"
        then have "fits 979 bs1" using k1(4) False by (auto simp: allotted_def rounded_consts dest!: spec [of _ 1024])
        then show False using r(4) True fits_less [of 979 bs1 32] by (simp add: rounded_consts)
      qed
      then have nh: "\<not> healthy s bs" by (simp add: healthy_def)
      define s4 where "s4 = test_print_fail (lit ''krealloc - redimensi'' @ o_acute @ lit ''n fall'' @ o_acute) s3"
      have "tidy s4 bs3" "keeps_shell s s4"
        using r(2) keeps_shell_trans [OF keeps_shell_trans [OF keeps_emit heap_keeps [OF fr r(2)]] keeps_fail(1)]
        by (simp_all add: s4_def keeps_fail(2))
      moreover have "releasable bs3 p" using r(4) True k(1) by (simp add: releasable_def)
      ultimately obtain s5 bs5 where f: "kfree p s4 = Some s5" "tidy s5 bs5" "heap_frame s4 s5"
        using kfree_tidy by metis
      have "keeps_shell s s5" by (rule keeps_shell_trans [OF \<open>keeps_shell s s4\<close> heap_keeps [OF f(3,2)]])
      from ok_not_healthy [OF this f(2) nh] have ok: "test_ok 1 1 s bs s5 bs5" .
      have "test_krealloc s = kfree p s4"
        using k1(1) False r(1) True unfolding test_krealloc_def Let_def cs s4_def by (simp add: s2_def [symmetric])
      then show ?thesis using f(1) ok by auto
    next
      case q: False
      then have q': "block_map bs3 q \<noteq> None" "block_map bs3 |` (- {q}) = block_map bs1 |` (- {p})"
        "\<forall>i < min k 20. ram s3 (q + of_nat i) = ram s2 (p + of_nat i)" using r(4) by simp_all
      have "load8 (ram s3) (q + of_nat i) = 65 + of_nat i" if "i < 9" for i
        using q'(3) that k(2) write_letters_at [OF that, of p "ram s1"] by (simp add: load8_def s2_def)
      then have kept: "letters_kept q (ram s3)" by (simp add: letters_kept_def list_all_iff)
      have rel: "releasable bs3 q" using q'(1) by (simp add: releasable_def)
      obtain s4 bs4 where f: "kfree q s3 = Some s4" "tidy s4 bs4" "heap_frame s3 s4"
        "block_map bs4 = (block_map bs3)(q := None)" by (rule kfree_tidy [OF r(2) rel])
      have "block_map bs4 = (block_map bs1)(p := None)"
        using f(4) q'(2) by (simp add: restrict_map_def fun_eq_iff Compl_eq) metis
      from allotted_restored [OF k1(4) this a(2) f(2)] have same: "bs4 = bs" .
      from ok_pass_after [OF a heap_frame_trans [OF fr f(3)] f(2) [unfolded same]] show ?thesis
        using k1(1) False r(1) q kept f(1) unfolding test_krealloc_def Let_def cs by (simp add: s2_def [symmetric]) blast
    qed
  qed
qed

lemma kcalloc_50_4: "kcalloc 50 4 s = kmalloc 200 s"
  by (simp add: kcalloc_def)

lemma load32_zero: "(\<And>i. i < 4 \<Longrightarrow> m (a + of_nat i) = 0) \<Longrightarrow> load32 m a = 0"
proof -
  assume z: "\<And>i. i < 4 \<Longrightarrow> m (a + of_nat i) = 0"
  have "ld_le n (\<lambda>_. 0) b = 0" for n b by (induction n arbitrary: b) simp_all
  then show ?thesis using ld_le_cong [of 4 m a "\<lambda>_. 0"] z by (simp add: load32_def)
qed

lemma kcalloc_ok: "sound_test 1 1 test_kcalloc"
proof (rule sound_testI)
  fix s :: "'a tests_scheme" and bs assume a: "bitmap_apart s" "tidy s bs"
  obtain cs where cs: "test_print_info (lit ''Test: kcalloc...'') s = emit cs s"
    by (simp add: test_print_info_def)
  have t0: "tidy (emit cs s) bs" using a(2) by simp
  have n: "0 < (200 :: u64)" "unat (200 :: u64) \<le> MAX_REQUEST" "unat (200 :: u64) = 200" by simp_all
  obtain p s1 bs1 where k1: "kmalloc 200 (emit cs s) = Some (p, s1)" "tidy s1 bs1" "heap_frame (emit cs s) s1"
    "allotted 200 bs p (ram s1) bs1" by (rule kmalloc_tidy [OF t0 n(1,2), unfolded n(3)])
  show "\<exists>s' bs'. test_kcalloc s = Some s' \<and> test_ok 1 1 s bs s' bs'"
  proof (cases "p = NULL")
    case True
    have "\<not> healthy s bs" using allotted_fits [OF k1(4), of 1024] True by (auto simp: healthy_def rounded_consts)
    from ok_fail_after [OF k1(3,2) this] show ?thesis
      using k1(1) True unfolding test_kcalloc_def Let_def cs kcalloc_50_4 by simp blast
  next
    case False
    have z: "\<forall>i < 208. ram s1 (p + of_nat i) = 0" using k1(4) False by (simp add: allotted_def rounded_consts)
    have "load32 (ram s1) (p + 4 * of_nat i) = 0" if "i < 50" for i
    proof (rule load32_zero)
      fix j :: nat assume "j < 4"
      then show "ram s1 (p + 4 * of_nat i + of_nat j) = 0"
        using spec [OF z, of "4 * i + j"] that by (simp add: add.assoc)
    qed
    then have zero: "list_all (\<lambda>i. load32 (ram s1) (p + 4 * of_nat i) = 0) [0..<50]" by (simp add: list_all_iff)
    obtain s2 bs2 where f: "kfree p s1 = Some s2" "tidy s2 bs2" "heap_frame s1 s2" "block_map bs2 = (block_map bs1)(p := None)"
      by (rule kfree_tidy [OF k1(2) allotted_releasable [OF k1(4)]])
    have same: "bs2 = bs" by (rule allotted_restored [OF k1(4) f(4) a(2) f(2)])
    from ok_pass_after [OF a heap_frame_trans [OF k1(3) f(3)] f(2) [unfolded same]] show ?thesis
      using k1(1) False zero f(1) unfolding test_kcalloc_def Let_def cs kcalloc_50_4 by simp blast
  qed
qed

text \<open>The second release of the same pointer only prints.\<close>

lemma double_free_ok: "sound_test 1 1 test_double_free"
proof (rule sound_testI)
  fix s :: "'a tests_scheme" and bs assume a: "bitmap_apart s" "tidy s bs"
  obtain cs where cs: "test_print_info (lit ''Test: Detecci'' @ o_acute @ lit ''n de doble liberaci'' @ o_acute @ lit ''n...'') s = emit cs s"
    by (simp add: test_print_info_def)
  have t0: "tidy (emit cs s) bs" using a(2) by simp
  have n: "0 < (100 :: u64)" "unat (100 :: u64) \<le> MAX_REQUEST" "unat (100 :: u64) = 100" by simp_all
  obtain p s1 bs1 where k1: "kmalloc 100 (emit cs s) = Some (p, s1)" "tidy s1 bs1" "heap_frame (emit cs s) s1"
    "allotted 100 bs p (ram s1) bs1" by (rule kmalloc_tidy [OF t0 n(1,2), unfolded n(3)])
  show "\<exists>s' bs'. test_double_free s = Some s' \<and> test_ok 1 1 s bs s' bs'"
  proof (cases "p = NULL")
    case True
    have "\<not> healthy s bs" using allotted_fits [OF k1(4), of 1024] True by (auto simp: healthy_def rounded_consts)
    from ok_fail_after [OF k1(3,2) this] show ?thesis
      using k1(1) True unfolding test_double_free_def Let_def cs by simp blast
  next
    case False
    obtain s2 bs2 where f: "kfree p s1 = Some s2" "tidy s2 bs2" "heap_frame s1 s2" "block_map bs2 = (block_map bs1)(p := None)"
      "p \<noteq> NULL \<longrightarrow> (\<exists>cs. \<forall>ds. kfree p (emit ds s2) = Some (emit cs (emit ds s2)))"
      by (rule kfree_tidy [OF k1(2) allotted_releasable [OF k1(4)]])
    have same: "bs2 = bs" by (rule allotted_restored [OF k1(4) f(4) a(2) f(2)])
    obtain ds where ds: "\<forall>es. kfree p (emit es s2) = Some (emit ds (emit es s2))" using f(5) False by blast
    have "test_ok 1 1 s bs (test_print_pass name (emit ds (emit es s2))) bs" for name es
      using f(2) same heap_frame_trans [OF k1(3) f(3)] by (intro ok_pass_after [OF a]) simp_all
    then show ?thesis
      using k1(1) False f(1) ds unfolding test_double_free_def Let_def cs by simp blast
  qed
qed

section \<open>Stress and fragmentation\<close>

lemma stress_indices: "(\<lambda>i. (i * 37 + 11) mod 100) ` {0..<100} = {0..<100::nat}"
proof -
  have "k \<in> (\<lambda>i. (i * 37 + 11) mod 100) ` {0..<100}" if "k < 100" for k :: nat
  proof
    have "(x mod 100 * 37 + 11) mod 100 = (x * 37 + 11) mod 100" for x :: nat
      by (metis mod_add_left_eq mod_mult_left_eq)
    then have "((k + 89) * 73 mod 100 * 37 + 11) mod 100 = ((k + 89) * 73 * 37 + 11) mod 100" .
    also have "(k + 89) * 73 * 37 + 11 = k + (27 * k + 2404) * 100" by simp
    finally show "k = ((k + 89) * 73 mod 100 * 37 + 11) mod 100" using that by (simp only: mod_mult_self1 mod_less)
  qed simp
  then show ?thesis by auto
qed

lemma stress_cycles_tidy:
  "tidy s bs \<Longrightarrow> \<exists>s'. stress_cycles n s = Some s' \<and> tidy s' bs \<and> heap_frame s s'"
proof (induction n arbitrary: s)
  case 0
  then show ?case by simp
next
  case (Suc n)
  let ?ns = "map (\<lambda>i. of_nat ((i * 17 + 13) mod 200 + 16)) [0..<STRESS_ITERATIONS] :: u64 list"
  let ?is = "map (\<lambda>i. (i * 37 + 11) mod STRESS_ITERATIONS) [0..<STRESS_ITERATIONS]"
  have "0 < (of_nat (m mod 200 + 16) :: u64) \<and> unat (of_nat (m mod 200 + 16) :: u64) \<le> MAX_REQUEST" for m
  proof -
    have "m mod 200 < 200" by simp
    then have "unat (of_nat (m mod 200 + 16) :: u64) = m mod 200 + 16" by (intro unat_of_nat_u64) linarith
    then show ?thesis using \<open>m mod 200 < 200\<close> by (simp add: word_less_nat_alt)
  qed
  then have "valid_sizes ?ns" by (simp add: valid_sizes_def list_all_iff)
  from alloc_all_tidy [OF Suc.prems this] obtain ps s1 bs1 where r: "alloc_all ?ns s = Some (ps, s1)" "tidy s1 bs1"
    "heap_frame s s1" "length ps = length ?ns" "extra ps bs bs1" by blast
  have len: "length ps = 100" using r(4) by (simp add: STRESS_ITERATIONS_def)
  note rel = extra_releasable [OF r(5), unfolded all_releasable_def]
  have "\<forall>i \<in> set ?is. i < length ps \<and> releasable bs1 (ps ! i)" using rel unfolding len by (simp add: STRESS_ITERATIONS_def len)
  from free_at_tidy [OF r(2) conjunct1 [OF rel] this] obtain ps' s2 bs2 where
    f: "free_at ?is ps s1 = Some (ps', s2)" "tidy s2 bs2" "heap_frame s1 s2" "block_map bs2 = block_map bs1 |` (- (!) ps ` set ?is)"
    by blast
  have "set ?is = {0..<length ps}" using stress_indices by (simp add: STRESS_ITERATIONS_def len)
  then have "(!) ps ` set ?is = set ps" by (simp add: set_conv_nth) auto
  then have same: "bs2 = bs" using extra_restored [OF r(5) _ Suc.prems f(2)] f(4) by simp
  obtain s' where s': "stress_cycles n s2 = Some s'" "tidy s' bs" "heap_frame s2 s'"
    using Suc.IH f(2) same by blast
  then show ?case
    using r(1) f(1) heap_frame_trans [OF heap_frame_trans [OF r(3) f(3)] s'(3)] by simp
qed

lemma stress_ok: "sound_test 1 1 test_kmalloc_stress"
proof (rule sound_testI)
  fix s :: "'a tests_scheme" and bs assume a: "bitmap_apart s" "tidy s bs"
  obtain cs where cs: "test_print_info (lit ''Test: Stress test kmalloc/kfree...'') s = emit cs s"
    by (simp add: test_print_info_def)
  have t0: "tidy (emit cs s) bs" using a(2) by simp
  obtain s1 where s1: "stress_cycles 5 (emit cs s) = Some s1" "tidy s1 bs" "heap_frame (emit cs s) s1"
    using stress_cycles_tidy [OF t0] by blast
  obtain st st' where st: "heap_get_stats blank_stats (emit cs s) = Some st" "heap_get_stats blank_stats s1 = Some st'"
    using stats_tidy [OF t0] stats_tidy [OF s1(2)] by blast
  have v: "heap_validate (emit ds s1) = (True, emit ds s1)" for ds
    using s1(2) by (intro validate_tidy) simp
  have "test_ok 1 1 s bs (test_print_pass name (emit ds s1)) bs" for name ds
    using s1 by (intro ok_pass_after [OF a]) simp_all
  then show "\<exists>s' bs'. test_kmalloc_stress s = Some s' \<and> test_ok 1 1 s bs s' bs'"
    using s1(1) st v unfolding test_kmalloc_stress_def Let_def cs by simp blast
qed

lemma fragmentation_ok: "sound_test 1 1 test_heap_fragmentation"
proof (rule sound_testI)
  fix s :: "'a tests_scheme" and bs assume a: "bitmap_apart s" "tidy s bs"
  obtain cs where cs: "test_print_info (lit ''Test: Medici'' @ o_acute @ lit ''n de fragmentaci'' @ o_acute @ lit ''n del heap...'') s = emit cs s"
    by (simp add: test_print_info_def)
  have t0: "tidy (emit cs s) bs" using a(2) by simp
  let ?ns = "map (\<lambda>i. of_nat ((i + 1) * 50)) [0..<FRAG_TEST_BLOCKS] :: u64 list"
  let ?even = "map (\<lambda>k. 2 * k) [0..<FRAG_TEST_BLOCKS div 2]" and ?odd = "map (\<lambda>k. 2 * k + 1) [0..<FRAG_TEST_BLOCKS div 2]"
  have "0 < (of_nat ((i + 1) * 50) :: u64) \<and> unat (of_nat ((i + 1) * 50) :: u64) \<le> MAX_REQUEST" if "i < 20" for i
  proof -
    have "unat (of_nat ((i + 1) * 50) :: u64) = (i + 1) * 50" using that by (intro unat_of_nat_u64) simp
    then show ?thesis using that by (simp add: word_less_nat_alt del: of_nat_mult of_nat_add)
  qed
  then have "valid_sizes ?ns" unfolding valid_sizes_def list_all_iff FRAG_TEST_BLOCKS_def by (simp del: of_nat_mult of_nat_add)
  from alloc_all_tidy [OF t0 this] obtain ps s1 bs1 where r: "alloc_all ?ns (emit cs s) = Some (ps, s1)" "tidy s1 bs1"
    "heap_frame (emit cs s) s1" "length ps = length ?ns" "extra ps bs bs1" by blast
  have len: "length ps = 20" using r(4) by (simp add: FRAG_TEST_BLOCKS_def)
  note rel = extra_releasable [OF r(5), unfolded all_releasable_def]
  have dist: "distinct (filter (\<lambda>p. p \<noteq> NULL) (map ((!) ps) ?even))"
    using rel len by (intro distinct_filter_map_nth) (auto simp: FRAG_TEST_BLOCKS_def distinct_map inj_on_def)
  then have "all_releasable bs1 (map ((!) ps) ?even)"
    using rel len by (auto simp: all_releasable_def FRAG_TEST_BLOCKS_def)
  from free_all_tidy [OF r(2) this] obtain s2 bs2 where f: "free_all (map ((!) ps) ?even) s1 = Some s2" "tidy s2 bs2"
    "heap_frame s1 s2" "block_map bs2 = block_map bs1 |` (- set (map ((!) ps) ?even))" by blast
  have "releasable bs2 (ps ! i)" if "i \<in> set ?odd" for i
  proof (cases "ps ! i = NULL")
    case False
    have i: "i < length ps" "odd i" using that len by (auto simp: FRAG_TEST_BLOCKS_def)
    have "ps ! i \<noteq> ps ! j" if "j \<in> set ?even" for j
      using distinct_filter_nth [OF conjunct1 [OF rel], of i j] i that len False by (auto simp: FRAG_TEST_BLOCKS_def)
    then have "ps ! i \<notin> set (map ((!) ps) ?even)" by auto
    then show ?thesis using rel i(1) f(4) by (auto simp: releasable_def restrict_map_def)
  qed (simp add: releasable_def)
  then have "\<forall>i \<in> set ?odd. i < length ps \<and> releasable bs2 (ps ! i)" using len by (auto simp: FRAG_TEST_BLOCKS_def)
  note odd = this
  obtain st where st: "heap_get_stats blank_stats s2 = Some st" using stats_tidy [OF f(2)] by blast
  define ds where "ds = [Text ''  Bloques libres: '', Dec (ucast (stat_free_block_count st)), Text '', memoria libre: '',
    Dec (stat_free_size st), Line '' bytes'']"
  have t2: "tidy (emit ds s2) bs2" using f(2) by simp
  from free_at_tidy [OF t2 conjunct1 [OF rel] odd] obtain ps' s3 bs3 where
    g: "free_at ?odd ps (emit ds s2) = Some (ps', s3)" "tidy s3 bs3" "heap_frame (emit ds s2) s3"
      "block_map bs3 = block_map bs2 |` (- (!) ps ` set ?odd)" by blast
  have "ps ! i \<in> set (map ((!) ps) ?even) \<union> (!) ps ` set ?odd" if "i < length ps" for i
  proof (cases "even i")
    case True
    then have "i \<in> set ?even" using that len by (auto simp: FRAG_TEST_BLOCKS_def elim!: evenE)
    then show ?thesis by (simp only: set_map) blast
  next
    case False
    then have "i \<in> set ?odd" using that len by (auto simp: FRAG_TEST_BLOCKS_def elim!: oddE)
    then show ?thesis by blast
  qed
  then have "set ps \<subseteq> set (map ((!) ps) ?even) \<union> (!) ps ` set ?odd" by (auto simp: set_conv_nth)
  moreover have "set (map ((!) ps) ?even) \<union> (!) ps ` set ?odd \<subseteq> set ps" using len by (auto simp: FRAG_TEST_BLOCKS_def)
  ultimately have all: "set (map ((!) ps) ?even) \<union> (!) ps ` set ?odd = set ps" by blast
  have "block_map bs3 = block_map bs1 |` (- set ps)" unfolding all [symmetric] using f(4) g(4) by (simp add: Compl_Un)
  then have same: "bs3 = bs" by (rule extra_restored [OF r(5) _ a(2) g(2)])
  have "heap_frame s2 s3" using g(3) by simp
  note fr = heap_frame_trans [OF heap_frame_trans [OF r(3) f(3)] this]
  have f1: "free_all (map (\<lambda>k. ps ! (2 * k)) [0..<FRAG_TEST_BLOCKS div 2]) s1 = Some s2"
    using f(1) by (simp add: comp_def)
  have "test_heap_fragmentation s = Some (test_print_pass (lit ''Medici'' @ o_acute @ lit ''n de fragmentaci'' @ o_acute @ lit ''n'') s3)"
    using r(1) f1 st g(1) unfolding test_heap_fragmentation_def Let_def cs ds_def by simp
  then show "\<exists>s' bs'. test_heap_fragmentation s = Some s' \<and> test_ok 1 1 s bs s' bs'"
    using ok_pass_after [OF a fr g(2) [unfolded same]] by blast
qed

section \<open>The tests of the frame allocator\<close>

text \<open>What the operations of the frame allocator leave alone in the running kernel.\<close>

definition pmm_step :: "'a memory_scheme \<Rightarrow> 'a memory_scheme \<Rightarrow> bool" where
  "pmm_step s s' \<longleftrightarrow> pmm_frame s s' \<and> memory.more s' = memory.more s \<and> heap_head s' = heap_head s \<and>
    heap_initialized s' = heap_initialized s"

lemma pmm_step_refl [simp]: "pmm_step s s"
  by (simp add: pmm_step_def)

lemma pmm_step_trans: "pmm_step s s' \<Longrightarrow> pmm_step s' s'' \<Longrightarrow> pmm_step s s''"
  by (auto simp: pmm_step_def intro: pmm_frame_trans)

lemma pmm_step_ops [simp]:
  "pmm_step s (pmm_set_frame i s)" "pmm_step s (pmm_clear_frame i s)" "pmm_step s (s\<lparr>pmm_used_frames := x\<rparr>)"
  by (simp_all add: pmm_step_def) (simp_all add: pmm_set_frame_def pmm_clear_frame_def Let_def)

lemma pmm_step_release [simp]: "pmm_step s (release_frame i s)"
  by (simp add: release_frame_def uncount_used_def pmm_step_trans [OF pmm_step_ops(2) pmm_step_ops(3)])

lemma pmm_step_loop: "(\<And>k s. pmm_step s (body k s)) \<Longrightarrow> pmm_step s (for_u64 lo hi body s)"
  by (rule for_u64_preserves) (auto intro: pmm_step_trans)

lemma pmm_step_alloc: "pmm_step s (snd (pmm_alloc_frames count s))"
  by (simp add: pmm_alloc_frames_def Let_def pmm_step_trans [OF pmm_step_loop pmm_step_ops(3)])

lemma pmm_step_free: "pmm_step s (pmm_free_frames addr count s)"
  by (simp add: pmm_free_frames_def Let_def pmm_step_loop)

lemma memory_more_tests:
  assumes "memory.more s' = memory.more (s :: 'a tests_scheme)"
  shows "shell_ok s' = shell_ok s" "timer_frequency s' = timer_frequency s" "history_lines s' = history_lines s"
    "stream p s' = stream p s" "tests_failed s' = tests_failed s" "tests_passed s' = tests_passed s"
proof -
  have "timer_frequency s' = timer_frequency s" "timer.more s' = timer.more s"
    using assms by (cases s; cases s'; simp)+
  moreover from this(2) have "shift_pressed s' = shift_pressed s" "caps_lock s' = caps_lock s"
    "keyboard_buffer s' = keyboard_buffer s" "buffer_read_pos s' = buffer_read_pos s"
    "buffer_write_pos s' = buffer_write_pos s" "kernel.more s' = kernel.more s"
    by (cases s; cases s'; simp)+
  moreover from this(6) have "shell_buffer s' = shell_buffer s" "shell_buffer_pos s' = shell_buffer_pos s"
    "parse_buffer s' = parse_buffer s" "shell_history s' = shell_history s" "history_count s' = history_count s"
    "history_current s' = history_current s" "tests_failed s' = tests_failed s" "tests_passed s' = tests_passed s"
    by (cases s; cases s'; simp)+
  ultimately show "shell_ok s' = shell_ok s" "timer_frequency s' = timer_frequency s" "history_lines s' = history_lines s"
    "stream p s' = stream p s" "tests_failed s' = tests_failed s" "tests_passed s' = tests_passed s"
    by (simp_all add: shell_ok_def history_ok_def history_lines_def stream_def queue_def kb_valid_def)
qed

text \<open>A bitmap apart from the heap: the layout survives.\<close>

lemma pmm_step_tidy:
  assumes "pmm_step s s'" and "bitmap_apart s" and t: "tidy s bs"
  shows "tidy s' bs"
proof -
  have fr: "pmm_frame s s'" and h: "heap_head s' = heap_head s" "heap_initialized s' = heap_initialized s"
    using assms(1) by (simp_all add: pmm_step_def)
  have e: "endof H0 bs = HE" and c: "chain (ram s) 0 H0 bs" using t by (simp_all add: tidy_def heap_inv_def)
  have "ram s' x = ram s x" if "unat x \<in> hdrs H0 bs" for x
  proof -
    have "unat x \<in> {H0..<HE}" using hdrs_bounds [OF that] e by simp
    from mp [OF spec [OF assms(2) [unfolded bitmap_apart_def]] this]
    have "4 * ((unat (pmm_total_frames s) + 31) div 32) \<le> unat (x - pmm_bitmap s)" .
    then show ?thesis using fr by (simp add: pmm_frame_def)
  qed
  then have "chain (ram s') 0 H0 bs" using e by (intro chain_frame [OF c]) simp_all
  then show ?thesis using t h by (simp add: tidy_def heap_inv_def)
qed

lemma pmm_step_keeps:
  fixes s :: "'a tests_scheme"
  assumes "pmm_step s s'" and "bitmap_apart s" and "tidy s bs"
  shows "keeps_shell s s'"
proof -
  have fr: "pmm_frame s s'" and m: "memory.more s' = memory.more s" using assms(1) by (simp_all add: pmm_step_def)
  have "bitmap_apart s' = bitmap_apart s" using pmm_frame_fields [OF fr] by (simp add: bitmap_apart_def)
  then show ?thesis
    using pmm_step_tidy [OF assms] unfolding keeps_shell_def shell_ready_def memory_more_tests(1-4) [OF m] by blast
qed

lemma ok_pmm:
  assumes "pmm_step s s'" and "bitmap_apart s" and t: "tidy s bs"
    and "healthy s bs \<Longrightarrow> pmm_ok s' \<and> used s' = used s"
  shows "test_ok 0 0 s bs s' bs"
proof -
  have fr: "pmm_frame s s'" and m: "memory.more s' = memory.more s" using assms(1) by (simp_all add: pmm_step_def)
  have "pmm_healthy s'" if "healthy s bs"
    using that assms(4) [OF that] pmm_frame_fields(1,3) [OF fr] unfolding healthy_def pmm_healthy_def free_run_def by simp
  then show ?thesis
    using pmm_step_tidy [OF assms(1-3)] pmm_step_keeps [OF assms(1-3)] assms(4)
    unfolding test_ok_def memory_more_tests(5,6) [OF m]
    by (intro conjI impI exI [of _ 0]) simp_all
qed

lemma free_run_less: "free_run s a n \<Longrightarrow> k \<le> n \<Longrightarrow> free_run s a k"
  by (auto simp: free_run_def disjoint_iff)

text \<open>An allocation of up to 100 frames in a healthy kernel, and its release.\<close>

lemma pmm_round_trip:
  assumes h: "pmm_healthy s" and c: "count \<noteq> 0" "unat count \<le> 100"
  obtains addr s1 where "pmm_alloc_frames count s = (addr, s1)" "addr \<noteq> 0" "pmm_ok s1"
    "pmm_used_frames s1 = pmm_used_frames s + count"
    "pmm_ok (pmm_free_frames addr count s1)" "used (pmm_free_frames addr count s1) = used s"
    "pmm_used_frames (pmm_free_frames addr count s1) = pmm_used_frames s"
proof -
  have ok: "pmm_ok s" and base: "pmm_memory_base s \<noteq> 0" using h by (simp_all add: pmm_healthy_def)
  show ?thesis
    using ok c(1)
  proof (cases rule: alloc_frames_cases)
    case full
    obtain a where "free_run s a 100" using h by (auto simp: pmm_healthy_def)
    from free_run_less [OF this c(2)] show ?thesis using full(2) by blast
  next
    case (frames a s1)
    have c0: "0 < unat count" using c(1) by (simp add: unat_gt_0)
    then have a: "a + unat count \<le> unat (pmm_total_frames s)" "a < unat (pmm_total_frames s)"
      using frames(2) by (simp_all add: free_run_def)
    have "4096 * a < unat (pmm_memory_size s)"
      using total_frames_bound [OF ok] a(2) by linarith
    then have sm: "unat (pmm_memory_base s) + 4096 * a < 18446744073709551616" using ok by (simp add: pmm_ok_def)
    let ?addr = "pmm_memory_base s + of_nat (4096 * a)"
    have "unat (of_nat (4096 * a) :: u64) = 4096 * a" using sm by (intro unat_of_nat_u64) simp
    then have ua: "unat ?addr = unat (pmm_memory_base s) + 4096 * a" using sm by (subst unat_add_u64) simp_all
    have "?addr \<noteq> 0"
    proof
      assume "?addr = 0"
      then have "unat (pmm_memory_base s) = 0" using ua by (simp only: unat_0)
      then show False using base by (simp add: unat_eq_zero)
    qed
    note f = pmm_frame_fields [OF frames(6)]
    have m: "managed s1 ?addr" "frame_of s1 ?addr = a"
      using ua \<open>4096 * a < _\<close> by (simp_all add: managed_def frame_of_def f)
    have "frame_of s1 ?addr + unat count \<le> 18446744073709551616"
      unfolding m(2) using a(1) unat_lt_u64 [of "pmm_total_frames s"] by linarith
    note fs = free_frames_spec [OF frames(5) this]
    have u: "used (pmm_free_frames ?addr count s1) = used s"
      using fs m frames(2,4) by (auto simp: free_run_def)
    have "used s \<inter> {a..<a + unat count} = {}" using frames(2) by (auto simp: free_run_def)
    then have "card (used s1) = card (used s) + unat count"
      unfolding frames(4) by (subst card_Un_disjoint) simp_all
    then have "pmm_used_frames s1 = pmm_used_frames s + count"
      using ok frames(5) by (simp add: pmm_ok_def)
    then show ?thesis
      by (rule that [OF frames(1) \<open>?addr \<noteq> 0\<close> frames(5) _ conjunct1 [OF fs] u])
        (use u fs ok in \<open>simp add: pmm_ok_def\<close>)
  qed
qed

lemma ok_warn: "tidy s bs \<Longrightarrow> test_ok 0 0 s bs (test_print_warn name s) bs"
  by (simp add: test_print_warn_def ok_emit)

lemma ok_fail: "tidy s bs \<Longrightarrow> \<not> healthy s bs \<Longrightarrow> test_ok lo hi s bs (test_print_fail name s) bs"
  by (intro ok_not_healthy) (simp_all add: keeps_fail)

lemma healthy_emit [simp]: "healthy (emit cs s) bs = healthy s bs"
  by (simp add: healthy_def pmm_healthy_def pmm_ok_def free_run_def used_def pmm_test_frame_def bitmap_word_def)

text \<open>A test of the frame allocator that is not healthy may print anything.\<close>

lemma reports_keep:
  assumes "tidy s bs"
  shows "keeps_shell s (test_print_pass name s)" "keeps_shell s (test_print_warn name s)" "keeps_shell s (test_print_fail name s)"
    "tidy (test_print_pass name s) bs" "tidy (test_print_warn name s) bs" "tidy (test_print_fail name s) bs"
  using ok_pass [OF assms, of name] ok_warn [OF assms, of name] keeps_fail [where s = s and name = name] assms by (auto simp: test_ok_def)

lemma pmm_alloc_multiple_ok: "sound_test 1 1 (\<lambda>s. Some (test_pmm_alloc_multiple s))"
proof (rule sound_testI)
  fix s :: "'a tests_scheme" and bs assume a: "bitmap_apart s" "tidy s bs"
  obtain cs where cs: "test_print_info (lit ''Test: PMM allocar m'' @ u_acute @ lit ''ltiples frames...'') s = emit cs s"
    by (simp add: test_print_info_def)
  let ?s = "emit cs s"
  have a1: "bitmap_apart ?s" "tidy ?s bs" using a by simp_all
  obtain addr s1 where al: "pmm_alloc_frames 10 ?s = (addr, s1)" by fastforce
  define s2 where "s2 = pmm_free_frames addr 10 s1"
  have st: "pmm_step ?s s1" "pmm_step s1 s2" using pmm_step_alloc [of ?s 10] pmm_step_free by (simp_all add: al s2_def)
  have b1: "bitmap_apart s1" using pmm_step_keeps [OF st(1) a1] a1(1) by (simp add: keeps_shell_def)
  have t1: "tidy s1 bs" by (rule pmm_step_tidy [OF st(1) a1])
  have t2: "tidy s2 bs" by (rule pmm_step_tidy [OF st(2) b1 t1])
  show "\<exists>s' bs'. Some (test_pmm_alloc_multiple s) = Some s' \<and> test_ok 1 1 s bs s' bs'"
  proof (cases "healthy s bs")
    case True
    then have h: "pmm_healthy ?s" using healthy_emit [of cs s bs] by (simp add: healthy_def)
    have ten: "(10 :: u64) \<noteq> 0" "unat (10 :: u64) \<le> 100" by simp_all
    have r: "addr \<noteq> 0" "pmm_used_frames s1 = pmm_used_frames ?s + 10" "pmm_ok s2" "used s2 = used ?s"
      "pmm_used_frames s2 = pmm_used_frames ?s"
      using pmm_round_trip [OF h ten] al by (auto simp: s2_def)
    have "test_ok 0 0 ?s bs s2 bs"
      by (rule ok_pmm [OF pmm_step_trans [OF st] a1]) (use r in simp)
    from then_test_ok [OF then_test_ok [OF ok_emit [OF a(2)] this] ok_pass [OF t2]]
    have "test_ok 1 1 s bs (test_print_pass name s2) bs" for name .
    moreover have "test_pmm_alloc_multiple s = test_print_pass (lit ''PMM alloc/free m'' @ u_acute @ lit ''ltiple'') s2"
      using r unfolding test_pmm_alloc_multiple_def Let_def cs al prod.case by (simp add: pmm_get_stats_def s2_def Let_def)
    ultimately show ?thesis by auto
  next
    case False
    have k: "keeps_shell s s1" "keeps_shell s1 s2"
      using keeps_shell_trans [OF keeps_emit pmm_step_keeps [OF st(1) a1]] pmm_step_keeps [OF st(2) b1 t1] by simp_all
    have f: "keeps_shell s1 (pmm_free_frames addr 10 (test_print_fail name s1)) \<and> tidy (pmm_free_frames addr 10 (test_print_fail name s1)) bs" for name
    proof -
      have "bitmap_apart (test_print_fail name s1)"
        using reports_keep(3) [OF t1, of name] b1 by (simp add: keeps_shell_def)
      from pmm_step_keeps [OF pmm_step_free this reports_keep(6) [OF t1]] pmm_step_tidy [OF pmm_step_free this reports_keep(6) [OF t1]]
      show ?thesis using keeps_shell_trans [OF reports_keep(3) [OF t1, of name]] by blast
    qed
    have "test_pmm_alloc_multiple s \<in> {test_print_fail (lit ''PMM alloc m'' @ u_acute @ lit ''ltiple - allocaci'' @ o_acute @ lit ''n fall'' @ o_acute) s1,
        test_print_pass (lit ''PMM alloc/free m'' @ u_acute @ lit ''ltiple'') s2,
        test_print_warn (lit ''PMM alloc/free m'' @ u_acute @ lit ''ltiple - liberaci'' @ o_acute @ lit ''n parcial'') s2,
        pmm_free_frames addr 10 (test_print_fail (lit ''PMM alloc m'' @ u_acute @ lit ''ltiple - frames incorrectos'') s1)}"
      unfolding test_pmm_alloc_multiple_def Let_def cs al prod.case s2_def [symmetric] by simp
    then have "keeps_shell s (test_pmm_alloc_multiple s) \<and> tidy (test_pmm_alloc_multiple s) bs"
      using reports_keep [OF t1] reports_keep [OF t2] f keeps_shell_trans [OF k(1)] keeps_shell_trans [OF keeps_shell_trans [OF k]]
      by auto
    then show ?thesis using ok_not_healthy [OF _ _ False] by blast
  qed
qed

lemma pmm_contiguous_ok: "sound_test 1 1 (\<lambda>s. Some (test_pmm_contiguous_large s))"
proof (rule sound_testI)
  fix s :: "'a tests_scheme" and bs assume a: "bitmap_apart s" "tidy s bs"
  obtain cs where cs: "test_print_info (lit ''Test: PMM bloques contiguos grandes...'') s = emit cs s"
    by (simp add: test_print_info_def)
  let ?s = "emit cs s"
  have a1: "bitmap_apart ?s" "tidy ?s bs" using a by simp_all
  obtain addr s1 where al: "pmm_alloc_frames 100 ?s = (addr, s1)" by fastforce
  define s2 where "s2 = pmm_free_frames addr 100 s1"
  have st: "pmm_step ?s s1" "pmm_step s1 s2" using pmm_step_alloc [of ?s 100] pmm_step_free by (simp_all add: al s2_def)
  have b1: "bitmap_apart s1" using pmm_step_keeps [OF st(1) a1] a1(1) by (simp add: keeps_shell_def)
  have t1: "tidy s1 bs" by (rule pmm_step_tidy [OF st(1) a1])
  have t2: "tidy s2 bs" by (rule pmm_step_tidy [OF st(2) b1 t1])
  have contiguous: "list_all (\<lambda>i. addr + (of_nat i + 1) * PAGE_SIZE = addr + of_nat i * PAGE_SIZE + PAGE_SIZE) [0..<99]"
    by (simp add: list_all_iff algebra_simps)
  have run: "test_pmm_contiguous_large s = (if addr = 0
      then emit [Write (lit ''  (Esto es normal si hay fragmentaci'' @ o_acute @ lit ''n)'' @ [newline])]
             (test_print_warn (lit ''PMM bloques grandes - no hay 100 frames contiguos'') s1)
      else test_print_pass (lit ''PMM bloques contiguos grandes'') s2)"
    unfolding test_pmm_contiguous_large_def Let_def cs al prod.case s2_def [symmetric] using contiguous by simp
  show "\<exists>s' bs'. Some (test_pmm_contiguous_large s) = Some s' \<and> test_ok 1 1 s bs s' bs'"
  proof (cases "healthy s bs")
    case True
    then have h: "pmm_healthy ?s" using healthy_emit [of cs s bs] by (simp add: healthy_def)
    have hundred: "(100 :: u64) \<noteq> 0" "unat (100 :: u64) \<le> 100" by simp_all
    have r: "addr \<noteq> 0" "pmm_ok s2" "used s2 = used ?s"
      using pmm_round_trip [OF h hundred] al by (auto simp: s2_def)
    have "test_ok 0 0 ?s bs s2 bs"
      by (rule ok_pmm [OF pmm_step_trans [OF st] a1]) (use r in simp)
    from then_test_ok [OF then_test_ok [OF ok_emit [OF a(2)] this] ok_pass [OF t2]]
    show ?thesis using run r(1) by auto
  next
    case False
    have k: "keeps_shell s s1" "keeps_shell s1 s2"
      using keeps_shell_trans [OF keeps_emit pmm_step_keeps [OF st(1) a1]] pmm_step_keeps [OF st(2) b1 t1] by simp_all
    have "keeps_shell s (test_pmm_contiguous_large s) \<and> tidy (test_pmm_contiguous_large s) bs"
      using reports_keep [OF t1] reports_keep [OF t2] keeps_shell_trans [OF k(1)] keeps_shell_trans [OF keeps_shell_trans [OF k]]
      unfolding run by (auto intro: keeps_emit_after)
    then show ?thesis using ok_not_healthy [OF _ _ False] by blast
  qed
qed

text \<open>The percentage of used frames.\<close>

lemma usage_at_most_100:
  assumes "pmm_ok s"
  shows "\<not> 100 < st_usage_percent (pmm_get_stats s)"
proof (cases "0 < pmm_total_frames s")
  case True
  let ?T = "unat (pmm_total_frames s)"
  have u: "unat (pmm_used_frames s) \<le> ?T"
    using assms card_used_le [of s] unat_card_used [of s] by (simp add: pmm_ok_def)
  have T: "0 < ?T" "?T < 4503599627370496" using True total_frames_small [OF assms] by (simp_all add: word_less_nat_alt)
  have "unat (pmm_used_frames s * 100) = unat (pmm_used_frames s) * 100"
    using u T by (subst unat_mult_u64) simp_all
  then have "unat (pmm_used_frames s * 100 div pmm_total_frames s) = unat (pmm_used_frames s) * 100 div ?T"
    by (simp add: unat_div)
  also have "\<dots> \<le> ?T * 100 div ?T" using u by (intro div_le_mono) simp
  also have "\<dots> = 100" using T by simp
  finally have q: "unat (pmm_used_frames s * 100 div pmm_total_frames s) \<le> 100" .
  then have "unat (ucast (pmm_used_frames s * 100 div pmm_total_frames s) :: u32) \<le> 100"
    by (simp add: unsigned_ucast_eq take_bit_nat_eq_self)
  then show ?thesis using True by (simp add: pmm_get_stats_def Let_def word_less_nat_alt)
next
  case False
  then show ?thesis by (simp add: pmm_get_stats_def Let_def)
qed

lemma pmm_stats_ok: "sound_test 1 1 (\<lambda>s. Some (test_pmm_stats s))"
proof (rule sound_testI)
  fix s :: "'a tests_scheme" and bs assume a: "bitmap_apart s" "tidy s bs"
  obtain cs where cs: "test_print_info (lit ''Test: Estad'' @ i_acute @ lit ''sticas del PMM...'') s = emit cs s"
    by (simp add: test_print_info_def)
  have t: "tidy (emit ds s) bs" for ds using a(2) by simp
  define pct where "pct = st_usage_percent (pmm_get_stats (emit cs s))"
  have "test_pmm_stats s \<in> (if 100 < pct
      then range (\<lambda>(name, ds). test_print_fail name (emit ds s)) else range (\<lambda>(ds, name, es). emit ds (test_print_pass name (emit es s))))"
    unfolding test_pmm_stats_def Let_def cs pct_def [symmetric]
    by (auto simp: pmm_get_stats_def Let_def image_iff emit_def prod_eq_iff)
  note shape = this
  show "\<exists>s' bs'. Some (test_pmm_stats s) = Some s' \<and> test_ok 1 1 s bs s' bs'"
  proof (cases "100 < pct")
    case True
    then obtain name ds where r: "test_pmm_stats s = test_print_fail name (emit ds s)" using shape by auto
    have "\<not> pmm_ok (emit cs s)" using usage_at_most_100 True unfolding pct_def by blast
    then have "\<not> healthy s bs" using healthy_emit [of cs s bs] by (auto simp: healthy_def pmm_healthy_def)
    then have "test_ok 1 1 s bs (test_print_fail name (emit ds s)) bs"
      using t [of ds] keeps_shell_trans [OF keeps_emit keeps_fail(1)] by (intro ok_not_healthy) (simp_all add: keeps_fail(2))
    then show ?thesis unfolding r by blast
  next
    case False
    then obtain ds name es where r: "test_pmm_stats s = emit ds (test_print_pass name (emit es s))" using shape by auto
    note p = then_test_ok [OF ok_emit [OF a(2)] ok_pass [OF t]]
    from test_ok_then [OF p ok_emit [OF reports_keep(4) [OF t]]] show ?thesis unfolding r by blast
  qed
qed

section \<open>The sequence of the tests\<close>

definition sound_step :: "nat \<Rightarrow> nat \<Rightarrow> ('a tests_scheme \<Rightarrow> (cpu_exception + 'a tests_scheme) option) \<Rightarrow> bool" where
  "sound_step lo hi f \<longleftrightarrow> (\<forall>s bs. shell_ready s \<and> bitmap_apart s \<and> tidy s bs \<longrightarrow>
    (\<exists>s' bs'. f s = Some (Inr s') \<and> test_ok lo hi s bs s' bs'))"

lemma sound_stepD:
  assumes "sound_step lo hi f" and "shell_ready s" and "bitmap_apart s" and "tidy s bs"
  obtains s' bs' where "f s = Some (Inr s')" "test_ok lo hi s bs s' bs'" "shell_ready s'" "bitmap_apart s'" "tidy s' bs'"
proof -
  obtain s' bs' where r: "f s = Some (Inr s')" "test_ok lo hi s bs s' bs'"
    using assms unfolding sound_step_def by blast
  then show ?thesis using that assms(2,3) by (auto simp: test_ok_def keeps_shell_def)
qed

lemma printing_step: "sound_step 0 0 (printing cs)"
  by (auto simp: sound_step_def printing_def intro: ok_emit)

lemma then_wait_step:
  assumes "sound_test lo hi test"
  shows "sound_step lo hi (then_wait test)"
  unfolding sound_step_def
proof (intro allI impI, elim conjE)
  fix s :: "'a tests_scheme" and bs assume a: "shell_ready s" "bitmap_apart s" "tidy s bs"
  obtain s1 bs1 where t: "test s = Some s1" "test_ok lo hi s bs s1 bs1"
    using assms a unfolding sound_test_def by blast
  have "shell_ready s1" "tidy s1 bs1" using t(2) a(1) by (auto simp: test_ok_def keeps_shell_def)
  then obtain x where "timer_wait 100 s1 = Inr (s1\<lparr>timer_ticks := x\<rparr>)"
    using timer_wait_keeps [of s1 100] by (auto simp: shell_ready_def)
  then show "\<exists>s' bs'. then_wait test s = Some (Inr s') \<and> test_ok lo hi s bs s' bs'"
    using t test_ok_then [OF t(2) ok_ticks [OF \<open>tidy s1 bs1\<close>, of x]] by (auto simp: then_wait_def)
qed

lemma in_order_Nil: "sound_step 0 0 (in_order [])"
  by (auto simp: sound_step_def intro!: exI test_ok_I)

lemma in_order_Cons:
  assumes "sound_step a b f" and "sound_step c d (in_order fs)"
  shows "sound_step (a + c) (b + d) (in_order (f # fs))"
  unfolding sound_step_def
proof (intro allI impI, elim conjE)
  fix s :: "'a tests_scheme" and bs assume s: "shell_ready s" "bitmap_apart s" "tidy s bs"
  obtain s1 bs1 where f: "f s = Some (Inr s1)" "test_ok a b s bs s1 bs1" "shell_ready s1" "bitmap_apart s1" "tidy s1 bs1"
    by (rule sound_stepD [OF assms(1) s])
  obtain s' bs' where r: "in_order fs s1 = Some (Inr s')" "test_ok c d s1 bs1 s' bs'"
    by (rule sound_stepD [OF assms(2) f(3-5)])
  show "\<exists>s' bs'. in_order (f # fs) s = Some (Inr s') \<and> test_ok (a + c) (b + d) s bs s' bs'"
    using f(1) r(1) test_ok_trans [OF f(2) r(2)] by auto
qed

lemma run_memory_tests_step: "sound_step 9 10 run_memory_tests"
proof -
  note steps = printing_step then_wait_step [OF basic_ok] then_wait_step [OF coalesce_ok] then_wait_step [OF krealloc_ok]
    then_wait_step [OF kcalloc_ok] then_wait_step [OF double_free_ok] then_wait_step [OF stress_ok]
    then_wait_step [OF pmm_alloc_multiple_ok] then_wait_step [OF pmm_stats_ok] then_wait_step [OF pmm_contiguous_ok]
    then_wait_step [OF fragmentation_ok] in_order_Nil
  have "sound_step (0 + (1 + (0 + (1 + (1 + (1 + (1 + (0 + (1 + (1 + (1 + (0 + (1 + (0 + 0))))))))))))))
     (0 + (1 + (1 + (1 + (1 + (1 + (1 + (0 + (1 + (1 + (1 + (0 + (1 + (0 + 0)))))))))))))) run_memory_tests"
    unfolding run_memory_tests_def by (intro in_order_Cons steps)
  then show ?thesis by (simp add: eval_nat_numeral)
qed

section \<open>The command\<close>

lemma report_state_spec:
  assumes "tidy s bs"
  obtains h cs where "report_state s = Some (pmm_get_stats s, h, emit cs s)" "stat_used_size h = of_nat (used_sizes bs)"
proof -
  obtain h where h: "heap_get_stats blank_stats s = Some h" "stat_used_size h = of_nat (used_sizes bs)"
    using stats_tidy [OF assms] by blast
  show ?thesis by (rule that [OF _ h(2)]) (simp only: report_state_def Let_def h(1) Option.bind.simps)
qed

lemma memtest_spec:
  assumes a: "shell_ready s" "bitmap_apart s" "tidy s bs"
  shows "\<exists>s0 bs' pmm_diff heap_diff.
    shell_cmd_memtest s = Some (Inr (emit (leak_analysis pmm_diff heap_diff @ [Line '''']) s0)) \<and>
    test_ok 9 10 s bs s0 bs' \<and> (healthy s bs \<longrightarrow> pmm_diff = 0 \<and> heap_diff = 0)"
proof -
  define ds where "ds = [Color VGA_COLOR_LIGHT_CYAN, Line '''',
                   Line ''|========================================|'',
                   Line ''|     SUITE DE TESTS DE MEMORIA          |'',
                   Line ''|========================================|'', Line '''',
                   Color VGA_COLOR_LIGHT_BROWN, Write (lit ''--- Estado inicial ---'' @ [newline, newline])]"
  define es where "es = [Write (lit '' bloques'' @ [newline, newline])]"
  define fs where "fs = [Line '''', Color VGA_COLOR_LIGHT_BROWN, Write (lit ''--- Estado final ---'' @ [newline, newline])]"
  define gs where "gs = [Line '' bloques'', Line '''', Color VGA_COLOR_LIGHT_BROWN,
                       Write (lit ''--- An'' @ a_acute @ lit ''lisis de memory leaks ---'' @ [newline, newline])]"
  let ?s1 = "emit ds s"
  have t1: "tidy ?s1 bs" using a(3) by simp
  obtain h cs where h: "report_state ?s1 = Some (pmm_get_stats ?s1, h, emit cs ?s1)" "stat_used_size h = of_nat (used_sizes bs)"
    by (rule report_state_spec [OF t1])
  let ?s2 = "emit es (emit cs ?s1)"
  have s2: "shell_ready ?s2" "bitmap_apart ?s2" "tidy ?s2 bs"
    using a keeps_ready [OF keeps_emit_after [OF keeps_emit_after [OF keeps_emit]] a(1)] by simp_all
  obtain s3 bs3 where r: "run_memory_tests ?s2 = Some (Inr s3)" "test_ok 9 10 ?s2 bs s3 bs3" "tidy s3 bs3"
    by (rule sound_stepD [OF run_memory_tests_step s2]) blast
  have t4: "tidy (emit fs s3) bs3" using r(3) by simp
  obtain h' cs' where h': "report_state (emit fs s3) = Some (pmm_get_stats (emit fs s3), h', emit cs' (emit fs s3))"
    "stat_used_size h' = of_nat (used_sizes bs3)"
    by (rule report_state_spec [OF t4])
  let ?s0 = "emit gs (emit cs' (emit fs s3))"
  let ?pd = "st_used_frames (pmm_get_stats (emit fs s3)) - st_used_frames (pmm_get_stats ?s1)"
  let ?hd = "stat_used_size h' - stat_used_size h"
  have run: "shell_cmd_memtest s = Some (Inr (emit (leak_analysis ?pd ?hd @ [Line '''']) ?s0))"
    unfolding shell_cmd_memtest_def Let_def ds_def [symmetric] es_def [symmetric] fs_def [symmetric] gs_def [symmetric]
      h(1) h'(1) r(1) Option.bind.simps prod.case sum.case ..
  have e: "?s2 = emit (ds @ cs @ es) s" "?s0 = emit (fs @ cs' @ gs) s3" by (simp_all add: emit_def)
  have ok: "test_ok 9 10 s bs ?s0 bs3"
    unfolding e(2) by (rule test_ok_then [OF then_test_ok [OF ok_emit [OF a(3)] r(2) [unfolded e(1)]] ok_emit [OF r(3)]])
  have "?pd = 0 \<and> ?hd = 0" if "healthy s bs"
  proof -
    have "used ?s0 = used s" "bs3 = bs" "pmm_ok ?s0" "pmm_ok s"
      using ok that by (simp_all add: test_ok_def healthy_def pmm_healthy_def)
    then show ?thesis using h(2) h'(2) by (simp add: pmm_get_stats_def pmm_ok_def Let_def)
  qed
  then show ?thesis using run ok by blast
qed

lemma memtest_keeps_shell:
  assumes "shell_ready s" and "bitmap_apart s"
  shows "\<exists>s'. shell_cmd_memtest s = Some (Inr s') \<and> keeps_shell s s'"
proof -
  obtain bs where bs: "tidy s bs" using assms(1) by (auto simp: shell_ready_def)
  from memtest_spec [OF assms bs] obtain s0 pd hd
    where "shell_cmd_memtest s = Some (Inr (emit (leak_analysis pd hd @ [Line '''']) s0))" "keeps_shell s s0"
    by (auto simp: test_ok_def)
  then show ?thesis using keeps_emit_after by blast
qed

text \<open>The command keeps what the shell needs: the contract of the main loop holds with the tests.\<close>

interpretation tested: memtest_command shell_cmd_memtest True
  by unfold_locales (rule memtest_keeps_shell)

end
