(* ===== verification/Memory_Tests_Claims.thy ===== *)
theory Memory_Tests_Claims
  imports Memory_Tests_Props Pmm_Claims "HOL-Library.Multiset"
begin

text \<open>
  What the memory tests guarantee of the kernel they run in, what they show of the two
  allocators, and the shell as a whole with the tests among its commands.
\<close>

section \<open>A kernel to instantiate the properties on\<close>

text \<open>A machine with 128 MiB: the frame allocator and the heap as the kernel sets them up.\<close>

definition boot_tests :: tests where
  "boot_tests = (shell.extend boot_shell \<lparr>tests_passed = 0, tests_failed = 0\<rparr>)
    \<lparr>mem_info := \<lparr>entries = map_128M, total_memory = 0, available_memory = 0\<rparr>\<rparr>"

definition ready_tests :: tests where
  "ready_tests = heap_init (pmm_init 0x100000 0x7EE0000 boot_tests)"

lemma extend_shell:
  "shell_ok (shell.extend s x) = shell_ok s" "timer_frequency (shell.extend s x) = timer_frequency s"
  "history_lines (shell.extend s x) = history_lines s" "stream p (shell.extend s x) = stream p s"
  by (cases s; simp add: shell.defs shell_ok_def history_ok_def history_lines_def stream_def queue_def kb_valid_def)+

lemma heap_init_frame: "heap_frame s (heap_init s)"
proof -
  have "ram (heap_init s) x = ram s x" if "unat x \<notin> {H0..<HE}" for x
  proof -
    have "unat x \<notin> {H0..<H0 + HDR}" using that by auto
    then have "29 \<le> unat (x - of_nat H0)" by (rule outside_block) simp
    then show ?thesis by (simp add: heap_init_def Let_def emit_def set_outside)
  qed
  then show ?thesis by (simp add: heap_frame_def same_except_def heap_init_keeps)
qed

lemma ready_tests:
  "shell_ready ready_tests" "bitmap_apart ready_tests" "tidy ready_tests [(2097123, True)]"
  "healthy ready_tests [(2097123, True)]" "history_lines ready_tests = []"
  "stream pending ready_tests = typed False False pending"
proof -
  let ?p = "pmm_init 0x100000 0x7EE0000 boot_tests"
  have e: "entries (mem_info boot_tests) = map_128M" by (simp add: boot_tests_def)
  note p = init_128M [OF e] and b = init_128M_bitmap [OF e]
  have T: "pmm_total_frames ready_tests = 0x7EE0" "pmm_bitmap ready_tests = 0x201000" "pmm_memory_base ready_tests = 0x100000"
    using heap_more_tests [OF heap_init_keeps(1) [of ?p]] p(2,3) b by (simp_all add: ready_tests_def)
  have "4 * ((unat (0x7EE0 :: u64) + 31) div 32) \<le> unat (x - 0x201000)" if "unat x \<in> {H0..<HE}" for x :: u64
    using that by (subst unat_diff_u64) auto
  then show apart: "bitmap_apart ready_tests" unfolding bitmap_apart_def T by blast
  then have apart_p: "bitmap_apart ?p" using heap_more_fields(5) [OF heap_init_keeps(1) [of ?p]] by (simp add: ready_tests_def)
  have used: "used ready_tests = used ?p"
    unfolding ready_tests_def by (rule heap_frame_used [OF heap_init_frame apart_p])
  show t: "tidy ready_tests [(2097123, True)]"
    using heap_init_inv [of ?p] by (simp add: tidy_def ready_tests_def no_adjacent_free_def)
  have "pmm_ok ready_tests"
    using p(1) heap_more_tests [OF heap_init_keeps(1) [of ?p]] used by (simp add: pmm_ok_def ready_tests_def)
  moreover have "free_run ready_tests 512 100" using p(4) T(1) used by (auto simp: free_run_def)
  ultimately show "healthy ready_tests [(2097123, True)]"
    using T(3) by (auto simp: healthy_def pmm_healthy_def fits_def)
  have "memory.more ready_tests = memory.more boot_tests" by (simp add: ready_tests_def)
  also have "\<dots> = memory.more (shell.extend boot_shell \<lparr>tests_passed = 0, tests_failed = 0\<rparr>)" by (simp add: boot_tests_def)
  finally have "memory.more ready_tests = memory.more (shell.extend boot_shell \<lparr>tests_passed = 0, tests_failed = 0\<rparr>)" .
  note m = memory_more_tests [OF this]
  have "timer_frequency boot_shell = 100" by (simp add: boot_shell_def kernel.defs boot_kernel_simps)
  then show "shell_ready ready_tests" using m(1,2) t boot_shell_ok by (auto simp: shell_ready_def extend_shell)
  show "history_lines ready_tests = []" "stream pending ready_tests = typed False False pending"
    using m(3) m(4) boot_shell_ok(2) boot_stream by (simp_all add: extend_shell)
qed

section \<open>The heap under its tests\<close>

text \<open>
  C7: The heap forgets an allocation history completely: when blocks are allocated one after the other, as
  far as there is room, and the pointers are released in any order, the block list afterwards is the
  very same as before.
\<close>

theorem release_order_irrelevant:
  assumes "tidy s bs" and "valid_sizes ns" and "alloc_all ns s = Some (ps, s1)" and "mset qs = mset ps"
  shows "\<exists>s2. free_all qs s1 = Some s2 \<and> tidy s2 bs"
proof -
  obtain bs1 where r: "tidy s1 bs1" "extra ps bs bs1" using alloc_all_tidy [OF assms(1,2)] assms(3) by auto
  have "mset (filter (\<lambda>p. p \<noteq> NULL) qs) = mset (filter (\<lambda>p. p \<noteq> NULL) ps)" using assms(4) by simp
  then have "distinct (filter (\<lambda>p. p \<noteq> NULL) qs) = distinct (filter (\<lambda>p. p \<noteq> NULL) ps)" by (rule mset_eq_imp_distinct_iff)
  moreover have set: "set qs = set ps" using assms(4) by (rule mset_eq_setD)
  ultimately have "all_releasable bs1 qs" using extra_releasable [OF r(2)] by (simp add: all_releasable_def)
  from free_all_tidy [OF r(1) this] obtain s2 bs2 where f: "free_all qs s1 = Some s2" "tidy s2 bs2"
    "block_map bs2 = block_map bs1 |` (- set qs)" by blast
  have "bs2 = bs" by (rule extra_restored [OF r(2) f(3) [unfolded set] assms(1) f(2)])
  then show ?thesis using f by blast
qed

theorem release_order_irrelevant_witness:
  "\<exists>p q s1 s2. alloc_all [100, 50] (heap_init boot_heap) = Some ([p, q], s1) \<and> free_all [q, p] s1 = Some s2 \<and>
    tidy s2 [(2097123, True)]"
proof -
  have t: "tidy (heap_init boot_heap) [(2097123, True)]"
    using heap_init_inv [of boot_heap] by (simp add: tidy_def no_adjacent_free_def)
  have v: "valid_sizes [100, 50]" by (simp add: valid_sizes_def)
  obtain ps s1 where r: "alloc_all [100, 50] (heap_init boot_heap) = Some (ps, s1)" "length ps = 2"
    using alloc_all_tidy [OF t v] by auto
  obtain p q where ps: "ps = [p, q]" using r(2) by (auto simp: length_Suc_conv numeral_2_eq_2)
  show ?thesis using release_order_irrelevant [OF t v r(1), of "[q, p]"] r(1) by (auto simp: ps)
qed

text \<open>
  C25: A second release of the same pointer does no harm right after the first: \<open>kfree\<close> finds the
  header free, or cleared by the merge with the block before it, and prints.
\<close>

theorem kfree_twice_prints:
  assumes "tidy s bs" and "block_map bs p = Some k"
  shows "\<exists>s1 cs. kfree p s = Some s1 \<and> kfree p s1 = Some (emit cs s1)"
proof -
  have p: "p \<noteq> NULL" "releasable bs p" using assms block_map_NULL [OF assms(1)] by (auto simp: releasable_def)
  obtain s1 bs1 where f: "kfree p s = Some s1" "p \<noteq> NULL \<longrightarrow> (\<exists>cs. \<forall>ds. kfree p (emit ds s1) = Some (emit cs (emit ds s1)))"
    by (rule kfree_tidy [OF assms(1) p(2)]) blast
  then obtain cs where "kfree p (emit [] s1) = Some (emit cs (emit [] s1))" using p(1) by blast
  then show ?thesis using f(1) by (auto simp: emit_nothing)
qed

theorem kfree_twice_prints_witness:
  "\<exists>(s :: heap) s1 cs. tidy s [(112, False), (2096982, True)] \<and> kfree 0x30001D s = Some s1 \<and> kfree 0x30001D s1 = Some (emit cs s1)"
proof -
  obtain s :: heap where "heap_inv s [(112, False), (2096982, True)]" using two_clients by blast
  then have t: "tidy s [(112, False), (2096982, True)]" by (simp add: tidy_def no_adjacent_free_def)
  have "block_map [(112, False), (2096982, True)] 0x30001D = Some 112" by (simp add: block_map_def)
  from kfree_twice_prints [OF t this] t show ?thesis by blast
qed

section \<open>The command \<open>memtest\<close>\<close>

text \<open>
  C6: \<open>memtest\<close> in a healthy kernel, with a free block of a kilobyte in the heap and a run of 100
  free frames: it returns, no test fails, and all ten pass but for the test of coalescing, which may
  only warn. The block list of the heap and the set of used frames are exactly as before, and the
  command says so: it reports that there are no leaks.
\<close>

theorem memtest_finds_no_leak:
  assumes "shell_ready s" and "bitmap_apart s" and "tidy s bs" and "fits 1024 bs"
    and "pmm_ok s" and "pmm_memory_base s \<noteq> 0" and "free_run s a 100"
  shows "\<exists>s'. shell_cmd_memtest s = Some (Inr (emit (leak_analysis 0 0 @ [Line '''']) s')) \<and>
    tidy s' bs \<and> used s' = used s \<and> tests_failed s' = tests_failed s \<and>
    (tests_passed s' = tests_passed s + 9 \<or> tests_passed s' = tests_passed s + 10)"
proof -
  have h: "healthy s bs" using assms(4-7) by (auto simp: healthy_def pmm_healthy_def)
  from memtest_spec [OF assms(1-3)] obtain s' bs' pd hd where
    m: "shell_cmd_memtest s = Some (Inr (emit (leak_analysis pd hd @ [Line '''']) s'))" "test_ok 9 10 s bs s' bs'"
      "pd = 0 \<and> hd = 0" using h by blast
  obtain n where n: "9 \<le> n" "n \<le> 10" "tests_passed s' = tests_passed s + of_nat n" and
    r: "tidy s' bs" "used s' = used s" "tests_failed s' = tests_failed s" using m(2) h by (auto simp: test_ok_def)
  have "n = 9 \<or> n = 10" using n(1,2) by auto
  then have "tests_passed s' = tests_passed s + 9 \<or> tests_passed s' = tests_passed s + 10" using n(3) by auto
  then show ?thesis using m(1,3) r by auto
qed

theorem memtest_finds_no_leak_witness:
  "\<exists>s'. shell_cmd_memtest ready_tests = Some (Inr (emit (leak_analysis 0 0 @ [Line '''']) s')) \<and> tidy s' [(2097123, True)]"
proof -
  obtain a where h: "fits 1024 [(2097123, True)]" "pmm_ok ready_tests" "pmm_memory_base ready_tests \<noteq> 0" "free_run ready_tests a 100"
    using ready_tests(4) by (auto simp: healthy_def pmm_healthy_def)
  show ?thesis using memtest_finds_no_leak [OF ready_tests(1-3) h] by blast
qed

section \<open>The shell with its tests\<close>

lemma memtest_session:
  assumes "shell_ready s"
    and "bitmap_apart s \<or> (\<forall>l \<in> set (typed_lines (stream pending s)). take 1 (tokens l) \<noteq> [lit ''memtest''])"
  shows "case shell_session (typed_lines (stream pending s)) (history_lines s) of
      None \<Rightarrow> shell_loop shell_cmd_memtest pending s = None
    | Some ls \<Rightarrow> \<exists>s'. shell_loop shell_cmd_memtest pending s = Some (Inr s') \<and> \<not> interrupts_on s' \<and> history_lines s' = ls"
proof (cases "bitmap_apart s")
  case True
  then have "ready_for True s" using assms(1) by (simp add: ready_for_def)
  from tested.session_spec [OF this] show ?thesis by simp
next
  case False
  have "ready_for False s" using assms(1) by (simp add: ready_for_def)
  from untested.session_spec [OF this] False assms(2) show ?thesis by blast
qed

text \<open>
  C8: The shell as a whole, over the characters typed: it reads line by line, enters every line
  into the history and runs it. It stops exactly when a line's first word is \<open>halt\<close>, with
  interrupts off and the history up to there; \<open>reboot\<close> starts a new history; as long as no
  \<open>halt\<close> comes it waits for input for ever. No command ends it otherwise or corrupts what it needs
  to go on, the memory tests included, whatever the state of the two allocators, as long as the
  bitmap of the frame allocator does not overlap the heap.
\<close>

theorem shell_runs_session:
  assumes "shell_ready s"
    and "bitmap_apart s \<or> (\<forall>l \<in> set (typed_lines (stream pending s)). take 1 (tokens l) \<noteq> [lit ''memtest''])"
  shows "case shell_session (typed_lines (stream pending s)) (history_lines s) of
      None \<Rightarrow> shell_loop shell_cmd_memtest pending s = None
    | Some ls \<Rightarrow> \<exists>s'. shell_loop shell_cmd_memtest pending s = Some (Inr s') \<and> \<not> interrupts_on s' \<and> history_lines s' = ls"
  by (rule memtest_session [OF assms])

text \<open>The keys of \<open>memtest\<close>, Enter, \<open>halt\<close>, Enter.\<close>

abbreviation memtest_keys :: "u8 list" where
  "memtest_keys \<equiv> [0x32, 0x12, 0x32, 0x14, 0x12, 0x1F, 0x14, 0x1C, 0x23, 0x1E, 0x26, 0x14, 0x1C]"

lemma memtest_halt:
  "typed False False memtest_keys = lit ''memtest'' @ newline # lit ''halt'' @ [newline]"
  "typed_lines (lit ''memtest'' @ newline # lit ''halt'' @ [newline]) = [lit ''memtest'', lit ''halt'']"
proof -
  show "typed False False memtest_keys = lit ''memtest'' @ newline # lit ''halt'' @ [newline]"
    by (simp add: key_char_def scancode_to_ascii_def lit_def)
  show "typed_lines (lit ''memtest'' @ newline # lit ''halt'' @ [newline]) = [lit ''memtest'', lit ''halt'']"
    using typed_lines_append [of "lit ''memtest''" "lit ''halt'' @ [newline]"]
      typed_lines_append [of "lit ''halt''" "[]"] typed_lines_Nil [of "[]"]
    by (simp add: edit_line_def edit_char_def lit_def)
qed

lemma memtest_halt_session: "shell_session [lit ''memtest'', lit ''halt''] [] = Some [lit ''memtest'', lit ''halt'']"
proof -
  have "tokens (lit ''memtest'') = [lit ''memtest'']" by (rule one_word) (simp_all add: lit_def)
  moreover have "lit ''memtest'' \<noteq> lit ''halt''" "lit ''memtest'' \<noteq> lit ''reboot''" "lit ''memtest'' \<noteq> []" "lit ''halt'' \<noteq> []"
    by (simp_all add: lit_def)
  ultimately show ?thesis by (simp add: shell_session_def act_on_def hi_halt_words remember_def)
qed

theorem shell_runs_session_witness:
  "\<exists>s'. shell_loop shell_cmd_memtest memtest_keys ready_tests = Some (Inr s') \<and>
    \<not> interrupts_on s' \<and> history_lines s' = [lit ''memtest'', lit ''halt'']"
  using shell_runs_session [OF ready_tests(1), of memtest_keys] ready_tests(2)
  unfolding ready_tests(5,6) memtest_halt by (simp add: memtest_halt_session)

section \<open>The bitmap and the heap\<close>

text \<open>Where \<open>pmm_init\<close> puts the bitmap, for any memory map.\<close>

definition bitmap_place :: "'a memory_scheme \<Rightarrow> u64 \<times> u64" where
  "bitmap_place s = (pmm_bitmap s, pmm_total_frames s)"

lemma bitmap_place_ops [simp]:
  "bitmap_place (pmm_set_frame i s) = bitmap_place s" "bitmap_place (count_used s) = bitmap_place s"
  "bitmap_place (claim_frame i s) = bitmap_place s" "bitmap_place (emit cs s) = bitmap_place s"
  "bitmap_place (s\<lparr>ram := m\<rparr>) = bitmap_place s" "bitmap_place (s\<lparr>pmm_reserved_frames := n\<rparr>) = bitmap_place s"
  by (simp_all add: bitmap_place_def pmm_set_frame_def count_used_def claim_frame_def Let_def emit_def)

lemma loop_place: "(\<And>k s. bitmap_place (body k s) = bitmap_place s) \<Longrightarrow> bitmap_place (for_u64 lo hi body s) = bitmap_place s"
  by (rule for_u64_preserves [where P = "\<lambda>s'. bitmap_place s' = bitmap_place s"]) simp_all

lemma pmm_init_place:
  "bitmap_place (pmm_init mb ms s) = (find_location ((ms div PAGE_SIZE + 31) div 32 * 4) (entries (mem_info s)), ms div PAGE_SIZE)"
proof -
  have entries: "bitmap_place (fold reserve_entry es s) = bitmap_place s" for es and s :: "'a memory_scheme"
    by (induction es arbitrary: s) (simp_all add: reserve_entry_def Let_def loop_place)
  have "bitmap_place (init_start mb ms s) = (find_location ((ms div PAGE_SIZE + 31) div 32 * 4) (entries (mem_info s)), ms div PAGE_SIZE)"
    by (simp add: init_start_def bitmap_place_def find_bitmap_location_def memory_get_info_def Let_def)
  then show ?thesis
    by (simp add: pmm_init_stages Let_def entries loop_place clear_bitmap_def reserve_bitmap_def reserve_kernel_def)
qed

lemma bitmap_apart_place: "bitmap_place s' = bitmap_place s \<Longrightarrow> bitmap_apart s' = bitmap_apart s"
  by (simp add: bitmap_place_def bitmap_apart_def)

lemma bitmap_bytes: "4 * ((unat (ms div PAGE_SIZE) + 31) div 32) = unat ((ms div PAGE_SIZE + 31) div 32 * 4)"
proof -
  have T: "unat (ms div PAGE_SIZE) = unat ms div 4096" by (simp add: PAGE_SIZE_def unat_div)
  have le: "unat ms div 4096 < 4503599627370496"
    using unat_lt_u64 [of ms] by (intro less_mult_imp_div_less) linarith
  then have "unat (ms div PAGE_SIZE + 31) = unat ms div 4096 + 31" using T by (subst unat_add_u64) simp_all
  then have "unat ((ms div PAGE_SIZE + 31) div 32) = (unat ms div 4096 + 31) div 32" by (simp add: unat_div)
  moreover have "(unat ms div 4096 + 31) div 32 < 140737488355360" using le by linarith
  ultimately have "unat ((ms div PAGE_SIZE + 31) div 32 * 4) = (unat ms div 4096 + 31) div 32 * 4"
    by (subst unat_mult_u64) simp_all
  then show ?thesis by (simp add: T)
qed

text \<open>The bitmap for a region of \<open>ms\<close> bytes, placed in the regions \<open>es\<close>, ends before the heap or starts after it.\<close>

definition bitmap_clear :: "u64 \<Rightarrow> memory_map_entry list \<Rightarrow> bool" where
  "bitmap_clear ms es \<longleftrightarrow>
    (let sz = (ms div PAGE_SIZE + 31) div 32 * 4; start = find_location sz es
     in unat start + unat sz \<le> H0 \<or> HE \<le> unat start \<and> unat start + unat sz \<le> 2 ^ 64)"

lemma bitmap_clear_apart:
  assumes "bitmap_clear ms es" and "bitmap_place s = (find_location ((ms div PAGE_SIZE + 31) div 32 * 4) es, ms div PAGE_SIZE)"
  shows "bitmap_apart s"
  unfolding bitmap_apart_def
proof (intro allI impI)
  fix x :: u64 assume x: "unat x \<in> {H0..<HE}"
  let ?sz = "(ms div PAGE_SIZE + 31) div 32 * 4 :: u64" let ?a = "find_location ?sz es"
  have f: "pmm_bitmap s = ?a" "pmm_total_frames s = ms div PAGE_SIZE" using assms(2) by (simp_all add: bitmap_place_def)
  from assms(1) consider "unat ?a + unat ?sz \<le> H0" | "HE \<le> unat ?a" "unat ?a + unat ?sz \<le> 18446744073709551616"
    by (auto simp: bitmap_clear_def Let_def)
  then have "unat ?sz \<le> unat (x - ?a)"
  proof cases
    case 1
    then show ?thesis using x by (simp add: unat_diff_u64) arith
  next
    case 2
    then show ?thesis using x by (simp add: unat_diff_u64)
  qed
  then show "4 * ((unat (pmm_total_frames s) + 31) div 32) \<le> unat (x - pmm_bitmap s)"
    by (simp only: f bitmap_bytes)
qed

text \<open>
  C26: When the first region with room for the bitmap starts below 2 MiB, as on a PC, the bitmap is at
  \<open>0x201000\<close>, one page above the kernel. It ends before the heap exactly when the region given to the
  frame allocator has at most 8355840 frames (32 GiB less 128 MiB); with more memory the two overlap.
\<close>

theorem bitmap_clear_of_heap:
  assumes "entries (mem_info s) = ds @ e # fs" and "sz = (ms div PAGE_SIZE + 31) div 32 * 4"
    and "list_all (\<lambda>d. \<not> has_room sz d) ds" and "has_room sz e" and "base_addr e < 0x200000"
  shows "pmm_bitmap (pmm_init mb ms s) = 0x201000 \<and>
    (bitmap_apart (pmm_init mb ms s) \<longleftrightarrow> unat ms div 4096 \<le> 8355840)"
proof -
  let ?s = "pmm_init mb ms s"
  have T: "unat (ms div PAGE_SIZE) = unat ms div 4096" by (simp add: PAGE_SIZE_def unat_div)
  have le: "unat ms div 4096 < 4503599627370496"
    using unat_lt_u64 [of ms] by (intro less_mult_imp_div_less) linarith
  have sz: "unat sz = 4 * ((unat ms div 4096 + 31) div 32)" using bitmap_bytes [of ms] by (simp add: assms(2) T)
  moreover have "(unat ms div 4096 + 31) div 32 < 140737488355360" using le by linarith
  ultimately have small: "unat sz + 8192 < 18446744073709551616" by simp
  have skip: "find_location sz (ds @ e # fs) = find_location sz (e # fs)"
    using assms(3) by (induction ds) (simp_all add: find_location_step [OF small] del: find_location.simps)
  have "max 0x200000 (unat (base_addr e)) = 0x200000" using assms(5) by (simp add: word_less_nat_alt)
  then have at: "find_location sz (e # fs) = 0x201000"
    using assms(4) by (simp add: find_location_step [OF small] del: find_location.simps)
  have place: "bitmap_place ?s = (0x201000, ms div PAGE_SIZE)"
    unfolding pmm_init_place assms(2) [symmetric] assms(1) skip at ..
  then have b: "pmm_bitmap ?s = 0x201000" "pmm_total_frames ?s = ms div PAGE_SIZE" by (simp_all add: bitmap_place_def)
  have "bitmap_apart ?s \<longleftrightarrow> unat sz \<le> 0xFF000"
  proof
    assume "bitmap_apart ?s"
    moreover have "unat (0x300000 :: u64) \<in> {H0..<HE}" by simp
    ultimately have "4 * ((unat (pmm_total_frames ?s) + 31) div 32) \<le> unat (0x300000 - pmm_bitmap ?s)"
      unfolding bitmap_apart_def by blast
    then show "unat sz \<le> 0xFF000" by (simp add: b T sz)
  next
    assume l: "unat sz \<le> 0xFF000"
    have "bitmap_clear ms (ds @ e # fs)"
      unfolding bitmap_clear_def Let_def assms(2) [symmetric] skip at using l by simp
    then show "bitmap_apart ?s"
      by (rule bitmap_clear_apart) (simp add: pmm_init_place assms(1))
  qed
  moreover have "unat sz \<le> 0xFF000 \<longleftrightarrow> (unat ms div 4096 + 31) div 32 < 261121" unfolding sz by auto
  moreover have "\<dots> \<longleftrightarrow> unat ms div 4096 + 31 < 261121 * 32" by (rule div_less_iff_less_mult) simp
  ultimately show ?thesis using b by auto
qed

text \<open>A machine with 64 GiB: the bitmap of 2 MiB covers the first megabyte of the heap.\<close>

definition map_64G :: memory_info where
  "map_64G = \<lparr>entries = [\<lparr>base_addr = 0x100000, entry_length = 0x1000000000, entry_type = 1\<rparr>],
    total_memory = 0, available_memory = 0\<rparr>"

theorem bitmap_clear_of_heap_witness:
  "\<not> bitmap_apart (pmm_init 0x100000 0x1000000000 (boot_memory\<lparr>mem_info := map_64G\<rparr>))"
  using bitmap_clear_of_heap [of "boot_memory\<lparr>mem_info := map_64G\<rparr>" "[]"
      "\<lparr>base_addr = 0x100000, entry_length = 0x1000000000, entry_type = 1\<rparr>" "[]" _ "0x1000000000" "0x100000"]
  by (simp add: map_64G_def PAGE_SIZE_def has_room_def usable_def MULTIBOOT_MEMORY_AVAILABLE_def)

end
