(* ===== verification/Test_Suite.thy ===== *)
theory Test_Suite
  imports Memory_Tests
begin

text \<open>
  The test suite that the kernel offers at boot (\<open>test_suite.c\<close>): the tests of the timer, of the
  keyboard and of the terminal, the summary, and their sequence, which ends with the memory
  tests. A test takes the scancodes of the keyboard interrupts to come and returns those that are
  left, like \<open>keyboard_getchar\<close>; \<open>None\<close> says that it waits for a key for ever. The tests of
  \<open>exception_test.c\<close>, which the suite runs on request, are the parameter \<open>run_exception_tests\<close>.
\<close>

type_synonym 'a suite_test =
  "u8 list \<times> 'a tests_scheme \<Rightarrow> (cpu_exception + u8 list \<times> 'a tests_scheme) option"

text \<open>A heading, which the code prints with one call.\<close>

abbreviation Heading :: "string \<Rightarrow> tcall" where
  "Heading title \<equiv> Write (newline # lit title @ [newline])"

section \<open>The timer\<close>

definition test_timer_basic :: "'a tests_scheme \<Rightarrow> cpu_exception + 'a tests_scheme" where
  "test_timer_basic s =
    (let s = emit [Heading ''=== TEST: Timer Basico ===''] s;
         start_ticks = timer_get_ticks s;
         s = test_print_info (lit ''Esperando 3 segundos...'') s
     in case timer_wait 3000 s of
          Inl e \<Rightarrow> Inl e
        | Inr s \<Rightarrow>
            let end_ticks = timer_get_ticks s; elapsed = end_ticks - start_ticks
            in if 290 \<le> elapsed \<and> elapsed \<le> 310
               then Inr (test_print_pass (lit ''Timer cuenta correctamente (3 segundos)'') s)
               else Inr (emit [Text ''  Esperado: ~300 ticks, Obtenido: '', Dec elapsed, Line '' ticks'']
                           (test_print_fail (lit ''Timer no cuenta correctamente'') s)))"

definition test_timer_overflow :: "'a tests_scheme \<Rightarrow> 'a tests_scheme" where
  "test_timer_overflow s =
    (let s = emit [Heading ''=== TEST: Timer Overflow Check ===''] s;
         ticks = timer_get_ticks s;
         s = test_print_info (lit ''Ticks actuales: '') s;
         s = emit [Dec ticks, Line ''''] s
     in if ticks < 0xFFFFFFFFFFFFFFFF then test_print_pass (lit ''Timer no ha hecho overflow'') s
        else test_print_warn (lit ''Timer cerca del overflow'') s)"

section \<open>The keyboard\<close>

text \<open>\<open>while (i < n) { c = keyboard_getchar(); if (c == '\n') break; buffer[i++] = c; }\<close>\<close>

fun read_keys :: "nat \<Rightarrow> u8 list \<Rightarrow> 'a keyboard_scheme \<Rightarrow> (u8 list \<times> u8 list \<times> 'a keyboard_scheme) option" where
  "read_keys 0 pending s = Some ([], pending, s)"
| "read_keys (Suc n) pending s = do {
     (c, pending, s) \<leftarrow> keyboard_getchar pending s;
     if c = newline then Some ([], pending, s)
     else do {
       (cs, pending, s) \<leftarrow> read_keys n pending s;
       Some (c # cs, pending, s)
     }
   }"

text \<open>
  The tests of three groups of keys differ in their texts, in the number of keys and in the range
  of the characters. A \<open>char\<close> is signed; the comparison with the range is one of numbers from 0 to
  127, and a negative \<open>char\<close> is in no range, as is a byte above 127.
\<close>

definition key_test :: "tcall \<Rightarrow> string \<Rightarrow> nat \<Rightarrow> u8 \<Rightarrow> u8 \<Rightarrow> string \<Rightarrow> string \<Rightarrow> 'a suite_test" where
  "key_test heading instruction n lo hi passed failed = (\<lambda>(pending, s). do {
     let s = emit [heading] s;
     let s = test_print_info (lit instruction) s;
     let s = emit [Text ''> ''] s;
     let s = keyboard_clear_buffer s;
     (buffer, pending, s) \<leftarrow> read_keys n pending s;
     let all_in_range = list_all (\<lambda>c. \<not> (c < lo \<or> hi < c)) buffer;
     if all_in_range \<and> 0 < length buffer
     then Some (Inr (pending, test_print_pass (lit passed) s))
     else Some (Inr (pending, test_print_fail (lit failed) s))
   })"

definition test_keyboard_lowercase :: "'a suite_test" where
  "test_keyboard_lowercase = key_test (Heading ''=== TEST: Teclado - Letras Minusculas ==='')
    ''Escribe el abecedario en minusculas y presiona Enter:'' 26 97 122
    ''Letras minusculas recibidas correctamente'' ''Problema con letras minusculas''"

definition test_keyboard_shift :: "'a suite_test" where
  "test_keyboard_shift = key_test (Heading ''=== TEST: Teclado - Shift ==='')
    ''Escribe 5 letras MAYUSCULAS (usando Shift) y presiona Enter:'' 5 65 90
    ''Shift funciona correctamente'' ''Problema con Shift''"

definition test_keyboard_numbers :: "'a suite_test" where
  "test_keyboard_numbers = key_test (Heading ''=== TEST: Teclado - Numeros ==='')
    ''Escribe los numeros del 0 al 9 y presiona Enter:'' 10 48 57
    ''Numeros funcionan correctamente'' ''Problema con numeros''"

text \<open>\<open>while (keyboard_getchar() != '\n') { }\<close>\<close>

partial_function (option) wait_enter :: "u8 list \<Rightarrow> 'a keyboard_scheme \<Rightarrow> (u8 list \<times> 'a keyboard_scheme) option" where
  "wait_enter pending s = Option.bind (keyboard_getchar pending s) (\<lambda>(c, pending, s).
     if c \<noteq> newline then wait_enter pending s else Some (pending, s))"

definition test_keyboard_backspace :: "'a suite_test" where
  "test_keyboard_backspace = (\<lambda>(pending, s). do {
     let s = emit [Heading ''=== TEST: Teclado - Backspace ===''] s;
     let s = test_print_info (lit ''Escribe 'ERROR' y luego borra todo con Backspace:'') s;
     let s = emit [Text ''> ''] s;
     let s = keyboard_clear_buffer s;
     let s = test_print_info (lit ''Presiona Enter cuando termines de borrar'') s;
     (pending, s) \<leftarrow> wait_enter pending s;
     Some (Inr (pending, test_print_pass (lit ''Backspace probado (verificacion visual)'') s))
   })"

section \<open>The terminal\<close>

definition test_terminal_colors :: "'a tests_scheme \<Rightarrow> 'a tests_scheme" where
  "test_terminal_colors s =
    test_print_pass (lit ''Colores mostrados (verificacion visual)'') (emit
      [Heading ''=== TEST: Terminal - Colores ==='',
       Color VGA_COLOR_BLUE, Text ''Azul '',
       Color VGA_COLOR_GREEN, Text ''Verde '',
       Color VGA_COLOR_RED, Text ''Rojo '',
       Color VGA_COLOR_YELLOW, Text ''Amarillo '',
       Color VGA_COLOR_MAGENTA, Text ''Magenta '',
       Color VGA_COLOR_CYAN, Line ''Cian'',
       Color VGA_COLOR_LIGHT_GREY] s)"

text \<open>The loop prints a line and waits, for each of the numbers in turn.\<close>

fun scroll_lines :: "nat list \<Rightarrow> 'a timer_scheme \<Rightarrow> cpu_exception + 'a timer_scheme" where
  "scroll_lines [] s = Inr s"
| "scroll_lines (i # is) s =
    (case timer_wait 50 (emit [Text ''Linea '', Dec (of_nat i), Line '' - Probando scroll del terminal''] s) of
       Inl e \<Rightarrow> Inl e
     | Inr s \<Rightarrow> scroll_lines is s)"

definition test_terminal_scroll :: "'a tests_scheme \<Rightarrow> cpu_exception + 'a tests_scheme" where
  "test_terminal_scroll s =
    (let s = emit [Heading ''=== TEST: Terminal - Scroll ===''] s;
         s = test_print_info (lit ''Llenando pantalla para probar scroll...'') s
     in map_sum id (test_print_pass (lit ''Scroll probado (verificacion visual)'')) (scroll_lines [0..<30] s))"

section \<open>The exceptions\<close>

definition test_exceptions_interactive :: "'a suite_test \<Rightarrow> 'a suite_test" where
  "test_exceptions_interactive run_exception_tests = (\<lambda>(pending, s). do {
     let s = emit [Heading ''=== TEST: Excepciones del CPU ===''] s;
     let s = test_print_info (lit ''Este test es interactivo y requiere seleccion manual'') s;
     let s = test_print_warn ([0xC2, 0xA1] @ lit ''ADVERTENCIA: Causara crash y reinicio del sistema!'') s;
     let s = emit [Write (newline # [0xC2, 0xBF] @ lit ''Ejecutar pruebas de excepciones? (s/n): '')] s;
     (response, pending, s) \<leftarrow> keyboard_getchar pending s;
     let s = emit [Line ''''] s;
     if response = 115 \<or> response = 83 then do {
       r \<leftarrow> run_exception_tests (pending, s);
       Some (map_sum id (map_prod id (test_print_pass (lit ''Pruebas de excepciones completadas''))) r)
     }
     else Some (Inr (pending, test_print_info (lit ''Pruebas de excepciones omitidas'') s))
   })"

section \<open>The suite\<close>

text \<open>The counters are of type \<open>int\<close>, which \<open>print_dec\<close> extends with its sign.\<close>

definition summary :: "u32 \<Rightarrow> u32 \<Rightarrow> tcall list" where
  "summary passed failed =
    [Line '''', Line ''====================================='', Line ''       RESUMEN DE TESTS'',
     Line ''====================================='',
     SetColor TEST_COLOR_PASS, Text ''Tests pasados: '', Dec (scast passed), Line ''''] @
    (if 0 < sint failed
     then [SetColor TEST_COLOR_FAIL, Text ''Tests fallidos: '', Dec (scast failed), Line ''''] else []) @
    [Color VGA_COLOR_LIGHT_GREY, Text ''Total: '', Dec (scast (passed + failed)), Line ''''] @
    (if failed = 0
     then [SetColor TEST_COLOR_PASS,
           Write (newline # [0xC2, 0xA1] @ lit ''Todos los tests pasaron! '' @ [0xE2, 0x9C, 0x93, newline])]
     else [SetColor TEST_COLOR_WARN, Heading ''Algunos tests fallaron.'']) @
    [Color VGA_COLOR_LIGHT_GREY]"

definition test_print_summary :: "'a tests_scheme \<Rightarrow> 'a tests_scheme" where
  "test_print_summary s = emit (summary (tests_passed s) (tests_failed s)) s"

text \<open>A test that reads no key.\<close>

definition keyless :: "('a tests_scheme \<Rightarrow> (cpu_exception + 'a tests_scheme) option) \<Rightarrow> 'a suite_test" where
  "keyless f = (\<lambda>(pending, s). map_option (map_sum id (Pair pending)) (f s))"

definition run_test_suite :: "'a suite_test \<Rightarrow> 'a suite_test" where
  "run_test_suite run_exception_tests = in_order
     [keyless (printing
        [Initialize, Color VGA_COLOR_LIGHT_CYAN, Line ''====================================='',
         Line ''   SUITE DE PRUEBAS DEL KERNEL'', Line ''====================================='',
         Color VGA_COLOR_LIGHT_GREY]),
      test_exceptions_interactive run_exception_tests,
      keyless (\<lambda>s. Some (test_timer_basic s)),
      keyless (\<lambda>s. Some (Inr (test_timer_overflow s))),
      test_keyboard_numbers,
      test_keyboard_backspace,
      keyless (\<lambda>s. Some (Inr (test_terminal_colors s))),
      keyless (\<lambda>s. Some (test_terminal_scroll s)),
      keyless run_memory_tests,
      keyless (\<lambda>s. Some (Inr (test_print_summary s)))]"

end
