(* ===== verification/Test_Suite_Props.thy ===== *)
theory Test_Suite_Props
  imports Test_Suite Memory_Tests_Props
begin

text \<open>
  The test suite against the characters typed. \<open>suite_step g f\<close> says that the test \<open>f\<close> takes from
  the characters what \<open>g\<close> says, waits for ever exactly when they do not suffice, leaves the kernel
  in order and, in a healthy kernel, fails as often as \<open>g\<close> says; such steps compose.
\<close>

section \<open>The state between two tests\<close>

definition suite_ok :: "'a shell_scheme \<Rightarrow> layout \<Rightarrow> bool" where
  "suite_ok s bs \<longleftrightarrow> shell_ready s \<and> bitmap_apart s \<and> tidy s bs \<and> stream [] s = []"

text \<open>What a test leaves behind, with the number of its failures in a healthy kernel.\<close>

definition suite_rel :: "u32 \<Rightarrow> 'a tests_scheme \<Rightarrow> layout \<Rightarrow> 'a tests_scheme \<Rightarrow> layout \<Rightarrow> bool" where
  "suite_rel k s bs s' bs' \<longleftrightarrow> suite_ok s' bs' \<and> history_lines s' = history_lines s \<and>
    (healthy s bs \<longrightarrow> bs' = bs \<and> healthy s' bs \<and> used s' = used s \<and> tests_failed s' = tests_failed s + k)"

lemma suite_rel_trans:
  "suite_rel k s bs s1 bs1 \<Longrightarrow> suite_rel l s1 bs1 s' bs' \<Longrightarrow> suite_rel (k + l) s bs s' bs'"
  by (auto simp: suite_rel_def)

lemma suite_rel_ok: "suite_rel k s bs s' bs' \<Longrightarrow> suite_ok s' bs'"
  by (simp add: suite_rel_def)

lemma suite_rel_test:
  assumes "suite_ok s bs" and "test_ok lo hi s bs s' bs'"
  shows "suite_rel 0 s bs s' bs' \<and> (\<forall>p. stream p s' = stream p s)"
  using assms by (auto simp: suite_rel_def suite_ok_def test_ok_def keeps_shell_def healthy_def)

text \<open>The parts of the state that the memory tests and the timer read.\<close>

definition other_parts where
  "other_parts s = (ram s, heap_head s, heap_initialized s, pmm_bitmap s, pmm_total_frames s, pmm_memory_base s,
    pmm_memory_size s, pmm_used_frames s, timer_ticks s, timer_frequency s)"

lemma other_parts_push [simp]: "other_parts (keyboard_buffer_push c s) = other_parts s"
  by (simp add: keyboard_buffer_push_def Let_def other_parts_def)

lemma other_parts_fields [simp]:
  "other_parts (s\<lparr>port_log := l\<rparr>) = other_parts s" "other_parts (s\<lparr>shift_pressed := b\<rparr>) = other_parts s"
  "other_parts (s\<lparr>ctrl_pressed := b\<rparr>) = other_parts s" "other_parts (s\<lparr>alt_pressed := b\<rparr>) = other_parts s"
  "other_parts (s\<lparr>caps_lock := b\<rparr>) = other_parts s" "other_parts (s\<lparr>buffer_read_pos := p\<rparr>) = other_parts s"
  "other_parts (s\<lparr>buffer_write_pos := p\<rparr>) = other_parts s"
  by (simp_all add: other_parts_def)

lemma other_parts_getchar:
  assumes "keyboard_getchar pending s = Some (c, rest, s')"
  shows "other_parts s' = other_parts s"
  by (rule getchar_keeps [OF _ _ assms])
    (simp_all add: keyboard_interrupt_handles pic_send_eoi_def outb_def handle_scancode_def take_char_def Let_def)

lemma other_parts_keep:
  assumes "other_parts s' = other_parts s" and "keyboard.more s' = keyboard.more (s :: 'a tests_scheme)"
  shows "tidy s' bs = tidy s bs" "healthy s' bs = healthy s bs" "bitmap_apart s' = bitmap_apart s"
    "timer_frequency s' = timer_frequency s" "timer_ticks s' = timer_ticks s" "used s' = used s"
    "history_lines s' = history_lines s" "tests_failed s' = tests_failed s"
proof -
  show "tests_failed s' = tests_failed s" using assms(2) by (cases s; cases s') simp
  show "history_lines s' = history_lines s" using shell_fields_of_more [OF assms(2)] by (simp add: history_lines_def)
  show "used s' = used s"
    using assms(1) by (simp add: other_parts_def used_def pmm_test_frame_def bitmap_word_def)
  then show "healthy s' bs = healthy s bs"
    using assms(1) by (simp add: other_parts_def healthy_def pmm_healthy_def pmm_ok_def free_run_def)
qed (use assms(1) in \<open>simp_all add: other_parts_def tidy_def heap_inv_def bitmap_apart_def\<close>)

lemma suite_rel_keyboard:
  assumes "suite_ok s bs" and "other_parts s' = other_parts s" and "keyboard.more s' = keyboard.more s"
    and "kb_valid s'" and "stream [] s' = []"
  shows "suite_rel 0 s bs s' bs"
proof -
  note k = other_parts_keep [OF assms(2,3)] and f = shell_fields_of_more [OF assms(3)]
  have "shell_ready s'"
    using assms(1,4) k f by (auto simp: suite_ok_def shell_ready_def shell_ok_def history_ok_def)
  then show ?thesis using assms(1,5) k by (simp add: suite_rel_def suite_ok_def)
qed

text \<open>The reader takes what an interrupt brings at once, so that the buffer is empty again.\<close>

lemma getchar_empties:
  assumes "kb_valid s" and "length (queue s) \<le> 1" and "keyboard_getchar pending s = Some (c, rest, s')"
  shows "queue s' = []"
  using assms
proof (induction pending s rule: keyboard_getchar.induct)
  case (1 pending s)
  show ?case
  proof (cases "buffer_read_pos s = buffer_write_pos s")
    case True
    then obtain sc ps where p: "pending = sc # ps" "keyboard_getchar ps (keyboard_interrupt sc s) = Some (c, rest, s')"
      using 1(4) by (subst (asm) keyboard_getchar.simps) (simp split: list.splits)
    note i = interrupt_spec [OF 1(2), of sc]
    have "queue s = []" using True queue_empty [OF 1(2)] by simp
    moreover have "length (char_of sc s) \<le> 1" by (simp add: char_of_def Let_def)
    ultimately have "length (queue (keyboard_interrupt sc s)) \<le> 1" using i(1) by simp
    then show ?thesis using 1(1) [OF True p(1) i(2)] p(2) by simp
  next
    case False
    then have q: "queue s \<noteq> []" using queue_empty [OF 1(2)] by simp
    have "s' = snd (take_char s)"
      using False 1(4) by (subst (asm) keyboard_getchar.simps) (simp add: case_prod_beta)
    moreover have "length (queue s) = 1" using q 1(3) by (cases "queue s") auto
    ultimately show ?thesis using kb_take_queue [OF 1(2) q] by (cases "queue s") auto
  qed
qed

text \<open>One character, read in a kernel whose keyboard buffer is empty.\<close>

lemma suite_getchar:
  assumes "suite_ok s bs"
  shows "case stream pending s of
      [] \<Rightarrow> keyboard_getchar pending s = None
    | c # cs \<Rightarrow> \<exists>rest s'. keyboard_getchar pending s = Some (c, rest, s') \<and> stream rest s' = cs \<and>
        suite_rel 0 s bs s' bs \<and> other_parts s' = other_parts s"
proof (cases "stream pending s")
  case Nil
  have "kb_valid s" using assms by (simp add: suite_ok_def shell_ready_def shell_ok_def)
  from getchar_stream [OF this, of pending] show ?thesis using Nil by simp
next
  case (Cons c cs)
  have v: "kb_valid s" using assms by (simp add: suite_ok_def shell_ready_def shell_ok_def)
  from getchar_stream [OF this, of pending] Cons obtain rest s'
    where g: "keyboard_getchar pending s = Some (c, rest, s')" "stream rest s' = cs" "kb_valid s'" by auto
  have "queue s = []" using assms by (simp add: suite_ok_def stream_def)
  then have "queue s' = []" using getchar_empties [OF v _ g(1)] by simp
  then have "stream [] s' = []" by (simp add: stream_def)
  from suite_rel_keyboard [OF assms other_parts_getchar [OF g(1)] getchar_more [OF g(1)] g(3) this]
  show ?thesis using g Cons other_parts_getchar [OF g(1)] by simp
qed

lemma suite_clear:
  assumes "suite_ok s bs"
  shows "suite_rel 0 s bs (keyboard_clear_buffer s) bs" "stream p (keyboard_clear_buffer s) = stream p s"
proof -
  have "queue s = []" using assms by (simp add: suite_ok_def stream_def)
  moreover have "queue (keyboard_clear_buffer s) = []" by (simp add: keyboard_clear_buffer_def queue_def ring_def)
  ultimately show st: "stream p (keyboard_clear_buffer s) = stream p s" for p
    by (simp add: stream_def) (simp add: keyboard_clear_buffer_def)
  have "kb_valid (keyboard_clear_buffer s)"
    using assms by (simp add: suite_ok_def shell_ready_def shell_ok_def kb_valid_def keyboard_clear_buffer_def KEYBOARD_BUFFER_SIZE_def)
  then show "suite_rel 0 s bs (keyboard_clear_buffer s) bs"
    by (intro suite_rel_keyboard [OF assms])
      (use st [of "[]"] assms in \<open>simp_all add: suite_ok_def\<close>, simp_all add: keyboard_clear_buffer_def other_parts_def)
qed

section \<open>Steps and their composition\<close>

text \<open>What a test makes of the characters typed: its failures, and the characters that it leaves.\<close>

type_synonym reading = "u8 list \<Rightarrow> (u32 \<times> u8 list) option"

definition then_reads :: "reading \<Rightarrow> reading \<Rightarrow> reading" where
  "then_reads g h cs = do {
     (k, cs) \<leftarrow> g cs;
     (l, cs) \<leftarrow> h cs;
     Some (k + l, cs)
   }"

abbreviation reads_nothing :: reading where "reads_nothing \<equiv> \<lambda>cs. Some (0, cs)"

lemma then_reads_nothing [simp]: "then_reads reads_nothing g = g" "then_reads g reads_nothing = g"
  by (auto simp: then_reads_def fun_eq_iff bind_split)

definition suite_step :: "reading \<Rightarrow> 'a suite_test \<Rightarrow> bool" where
  "suite_step g f \<longleftrightarrow> (\<forall>pending s bs. suite_ok s bs \<longrightarrow>
    (case g (stream pending s) of
       None \<Rightarrow> f (pending, s) = None
     | Some (k, cs) \<Rightarrow> \<exists>rest s' bs'. f (pending, s) = Some (Inr (rest, s')) \<and> suite_rel k s bs s' bs' \<and> stream rest s' = cs))"

lemma suite_stepD:
  assumes "suite_step g f" and "suite_ok s bs"
  shows "g (stream pending s) = None \<Longrightarrow> f (pending, s) = None"
    and "g (stream pending s) = Some (k, cs) \<Longrightarrow>
      \<exists>rest s' bs'. f (pending, s) = Some (Inr (rest, s')) \<and> suite_rel k s bs s' bs' \<and> stream rest s' = cs"
  using assms unfolding suite_step_def by (fastforce split: option.splits)+

lemma suite_stepI:
  assumes "\<And>pending s bs. suite_ok s bs \<Longrightarrow> g (stream pending s) = None \<Longrightarrow> f (pending, s) = None"
    and "\<And>pending s bs k cs. suite_ok s bs \<Longrightarrow> g (stream pending s) = Some (k, cs) \<Longrightarrow>
      \<exists>rest s' bs'. f (pending, s) = Some (Inr (rest, s')) \<and> suite_rel k s bs s' bs' \<and> stream rest s' = cs"
  shows "suite_step g f"
  unfolding suite_step_def using assms by (auto split: option.splits)

lemma suite_Nil: "suite_step reads_nothing (in_order [])"
  by (rule suite_stepI) (auto simp: suite_rel_def)

lemma suite_Cons:
  assumes "suite_step g f" and "suite_step h (in_order fs)"
  shows "suite_step (then_reads g h) (in_order (f # fs))"
proof (rule suite_stepI)
  fix pending and s :: "'a tests_scheme" and bs assume ok: "suite_ok s bs"
  note f = suite_stepD [OF assms(1) ok, of pending]
  show "in_order (f # fs) (pending, s) = None" if "then_reads g h (stream pending s) = None"
  proof (cases "g (stream pending s)")
    case None
    then show ?thesis using f(1) by simp
  next
    case (Some r)
    then obtain k cs where g: "g (stream pending s) = Some (k, cs)" by (cases r) simp
    obtain rest s1 bs1 where r: "f (pending, s) = Some (Inr (rest, s1))" "suite_rel k s bs s1 bs1" "stream rest s1 = cs"
      using f(2) [OF g] by blast
    have "h (stream rest s1) = None" using that g r(3) by (cases "h cs") (auto simp: then_reads_def)
    then show ?thesis using r(1) suite_stepD(1) [OF assms(2) suite_rel_ok [OF r(2)]] by simp
  qed
  fix m ds assume "then_reads g h (stream pending s) = Some (m, ds)"
  then obtain k cs l where g: "g (stream pending s) = Some (k, cs)" "h cs = Some (l, ds)" "m = k + l"
    by (auto simp: then_reads_def bind_eq_Some_conv)
  obtain rest s1 bs1 where r: "f (pending, s) = Some (Inr (rest, s1))" "suite_rel k s bs s1 bs1" "stream rest s1 = cs"
    using f(2) [OF g(1)] by blast
  from suite_stepD(2) [OF assms(2) suite_rel_ok [OF r(2)]] g(2) r(3) obtain rest' s' bs'
    where "in_order fs (rest, s1) = Some (Inr (rest', s'))" "suite_rel l s1 bs1 s' bs'" "stream rest' s' = ds" by blast
  then show "\<exists>rest s' bs'. in_order (f # fs) (pending, s) = Some (Inr (rest, s')) \<and> suite_rel m s bs s' bs' \<and> stream rest s' = ds"
    using r(1) suite_rel_trans [OF r(2)] g(3) by auto
qed

text \<open>A sound step of the kernel reads nothing.\<close>

lemma keyless_suite:
  assumes "sound_step lo hi f"
  shows "suite_step reads_nothing (keyless f)"
proof (rule suite_stepI)
  fix pending and s :: "'a tests_scheme" and bs assume ok: "suite_ok s bs"
  then have "shell_ready s" "bitmap_apart s" "tidy s bs" by (simp_all add: suite_ok_def)
  then obtain s' bs' where "f s = Some (Inr s')" "test_ok lo hi s bs s' bs'"
    using assms unfolding sound_step_def by blast
  then show "\<exists>rest s' bs'. keyless f (pending, s) = Some (Inr (rest, s')) \<and> suite_rel k s bs s' bs' \<and> stream rest s' = cs"
    if "reads_nothing (stream pending s) = Some (k, cs)" for k cs
    using that suite_rel_test [OF ok, of lo hi s' bs'] by (auto simp: keyless_def)
qed simp

lemma suite_rel_emit: "suite_ok s bs \<Longrightarrow> suite_rel 0 s bs (emit cs s) bs"
  using suite_rel_test [of s bs 0 0 "emit cs s" bs] ok_emit [of s bs cs] by (simp add: suite_ok_def)

lemma suite_ok_emit [simp]: "suite_ok (emit cs s) bs = suite_ok s bs"
  using keeps_emit [of s cs]
  by (auto simp: suite_ok_def shell_ready_machine shell_ok_def history_ok_def)

section \<open>The keyboard\<close>

text \<open>Up to \<open>n\<close> characters before Enter, and what is left, without the Enter.\<close>

fun typed_keys :: "nat \<Rightarrow> u8 list \<Rightarrow> (u8 list \<times> u8 list) option" where
  "typed_keys 0 cs = Some ([], cs)"
| "typed_keys (Suc n) [] = None"
| "typed_keys (Suc n) (c # cs) = (if c = newline then Some ([], cs) else map_option (apfst (Cons c)) (typed_keys n cs))"

lemma read_keys_spec:
  "suite_ok s bs \<Longrightarrow> (case typed_keys n (stream pending s) of
      None \<Rightarrow> read_keys n pending s = None
    | Some (ns, cs) \<Rightarrow> \<exists>rest s'. read_keys n pending s = Some (ns, rest, s') \<and> stream rest s' = cs \<and> suite_rel 0 s bs s' bs)"
proof (induction n arbitrary: pending s)
  case 0
  then show ?case by (simp add: suite_rel_def)
next
  case (Suc n)
  note g = suite_getchar [OF Suc.prems, of pending]
  show ?case
  proof (cases "stream pending s")
    case Nil
    then show ?thesis using g by simp
  next
    case (Cons c cs)
    then obtain rest s1 where s1: "keyboard_getchar pending s = Some (c, rest, s1)" "stream rest s1 = cs" "suite_rel 0 s bs s1 bs"
      using g by auto
    note ih = Suc.IH [OF suite_rel_ok [OF s1(3)], of rest]
    show ?thesis
      using ih s1 suite_rel_trans [OF s1(3), of 0] by (auto simp: Cons split: option.splits)
  qed
qed

text \<open>A test of a group of keys fails unless at least one is typed and all are in the range.\<close>

definition reads_keys :: "nat \<Rightarrow> u8 \<Rightarrow> u8 \<Rightarrow> reading" where
  "reads_keys n lo hi cs = map_option (\<lambda>(ns, cs).
     (if ns \<noteq> [] \<and> list_all (\<lambda>c. lo \<le> c \<and> c \<le> hi) ns then 0 else 1, cs)) (typed_keys n cs)"

lemma suite_rel_pass: "suite_ok s bs \<Longrightarrow> suite_rel 0 s bs (test_print_pass name s) bs \<and> stream p (test_print_pass name s) = stream p s"
  using suite_rel_test [of s bs 1 1 "test_print_pass name s" bs] ok_pass [of s bs name] by (simp add: suite_ok_def)

lemma suite_rel_fail: "suite_ok s bs \<Longrightarrow> suite_rel 1 s bs (test_print_fail name s) bs \<and> stream p (test_print_fail name s) = stream p s"
proof -
  have k: "keeps_shell s (test_print_fail name s)" "tidy (test_print_fail name s) bs = tidy s bs" by (rule keeps_fail)+
  have "used (test_print_fail name s) = used s"
    by (simp add: test_print_fail_def Let_def used_def pmm_test_frame_def bitmap_word_def)
  then have "healthy (test_print_fail name s) bs = healthy s bs"
    by (simp add: healthy_def pmm_healthy_def pmm_ok_def free_run_def) (simp add: test_print_fail_def Let_def)
  moreover have "tests_failed (test_print_fail name s) = tests_failed s + 1" by (simp add: test_print_fail_def Let_def)
  moreover assume "suite_ok s bs"
  ultimately show ?thesis
    using k \<open>used (test_print_fail name s) = used s\<close> by (simp add: suite_rel_def suite_ok_def keeps_shell_def)
qed

text \<open>What a keyboard test prints before it reads.\<close>

lemma suite_start:
  assumes "suite_ok s bs"
  shows "suite_rel 0 s bs (emit ds (keyboard_clear_buffer (emit cs s))) bs"
    "stream p (emit ds (keyboard_clear_buffer (emit cs s))) = stream p s"
proof -
  have ok: "suite_ok (emit cs s) bs" using assms by simp
  note c = suite_clear [OF ok]
  have "suite_rel 0 s bs (keyboard_clear_buffer (emit cs s)) bs"
    using suite_rel_trans [OF suite_rel_emit [OF assms] c(1)] by simp
  from suite_rel_trans [OF this suite_rel_emit [OF suite_rel_ok [OF this]]]
  show "suite_rel 0 s bs (emit ds (keyboard_clear_buffer (emit cs s))) bs" by simp
  show "stream p (emit ds (keyboard_clear_buffer (emit cs s))) = stream p s" using c(2) [of p] by simp
qed

lemma key_test_reads:
  "\<exists>cs. \<forall>pending. key_test heading instruction n lo hi passed failed (pending, s) =
    Option.bind (read_keys n pending (emit [] (keyboard_clear_buffer (emit cs s)))) (\<lambda>(ns, pending, s).
      Some (Inr (pending, if ns \<noteq> [] \<and> list_all (\<lambda>c. lo \<le> c \<and> c \<le> hi) ns then test_print_pass (lit passed) s
        else test_print_fail (lit failed) s)))"
  (is "\<exists>cs. \<forall>pending. ?f pending = ?g cs pending")
proof -
  define cs where "cs = [heading, SetColor TEST_COLOR_INFO, Text ''[INFO] '', Color VGA_COLOR_LIGHT_GREY, Write (lit instruction),
    Line '''', Text ''> '']"
  have e: "emit [Text ''> ''] (test_print_info (lit instruction) (emit [heading] s)) = emit cs s"
    by (simp add: cs_def test_print_info_def emit_def)
  have "?f pending = ?g cs pending" for pending
    unfolding key_test_def prod.case Let_def e emit_nothing
    by (rule arg_cong2 [where f = Option.bind]) (auto simp: fun_eq_iff not_less list_all_iff)
  then show ?thesis by blast
qed

lemma key_test_step: "suite_step (reads_keys n lo hi) (key_test heading instruction n lo hi passed failed)"
proof (rule suite_stepI)
  fix pending and s :: "'a tests_scheme" and bs assume ok: "suite_ok s bs"
  obtain cs where cs: "key_test heading instruction n lo hi passed failed (pending, s) =
    Option.bind (read_keys n pending (emit [] (keyboard_clear_buffer (emit cs s)))) (\<lambda>(ns, pending, s).
      Some (Inr (pending, if ns \<noteq> [] \<and> list_all (\<lambda>c. lo \<le> c \<and> c \<le> hi) ns then test_print_pass (lit passed) s
        else test_print_fail (lit failed) s)))"
    using key_test_reads [of heading instruction n lo hi passed failed s] by blast
  let ?s = "emit [] (keyboard_clear_buffer (emit cs s))"
  note st = suite_start [OF ok, where ds = "[]" and cs = cs]
  note r = read_keys_spec [OF suite_rel_ok [OF st(1)], of n pending, unfolded st(2)]
  show "key_test heading instruction n lo hi passed failed (pending, s) = None" if "reads_keys n lo hi (stream pending s) = None"
    using that r cs by (simp add: reads_keys_def)
  fix k ds assume "reads_keys n lo hi (stream pending s) = Some (k, ds)"
  then obtain ns where ns: "typed_keys n (stream pending s) = Some (ns, ds)"
    "k = (if ns \<noteq> [] \<and> list_all (\<lambda>c. lo \<le> c \<and> c \<le> hi) ns then 0 else 1)" by (auto simp: reads_keys_def)
  obtain rest s1 where s1: "read_keys n pending ?s = Some (ns, rest, s1)" "stream rest s1 = ds" "suite_rel 0 ?s bs s1 bs"
    using r ns(1) by auto
  note rel = suite_rel_trans [OF st(1) s1(3)] and ok1 = suite_rel_ok [OF s1(3)]
  show "\<exists>rest s' bs'. key_test heading instruction n lo hi passed failed (pending, s) = Some (Inr (rest, s')) \<and>
      suite_rel k s bs s' bs' \<and> stream rest s' = ds"
    using cs s1(1,2) ns(2) suite_rel_trans [OF rel] suite_rel_pass [OF ok1] suite_rel_fail [OF ok1] by fastforce
qed

text \<open>Enter, whatever comes before it.\<close>

definition reads_enter :: reading where
  "reads_enter cs = (if newline \<in> set cs then Some (0, tl (dropWhile (\<lambda>c. c \<noteq> newline) cs)) else None)"

lemma wait_enter_spec:
  "suite_ok s bs \<Longrightarrow> (if newline \<in> set (stream pending s)
    then \<exists>rest s'. wait_enter pending s = Some (rest, s') \<and> suite_rel 0 s bs s' bs \<and>
      stream rest s' = tl (dropWhile (\<lambda>c. c \<noteq> newline) (stream pending s))
    else wait_enter pending s = None)"
proof (induction "stream pending s" arbitrary: pending s)
  case Nil
  then have "keyboard_getchar pending s = None" using suite_getchar [OF Nil.prems, of pending] by simp
  then have "wait_enter pending s = None" by (subst wait_enter.simps) simp
  then show ?case using Nil.hyps [symmetric] by simp
next
  case (Cons c cs)
  obtain rest s1 where s1: "keyboard_getchar pending s = Some (c, rest, s1)" "stream rest s1 = cs" "suite_rel 0 s bs s1 bs"
    using suite_getchar [OF Cons.prems, of pending] Cons.hyps(2) by (auto split: list.splits)
  have w: "wait_enter pending s = (if c \<noteq> newline then wait_enter rest s1 else Some (rest, s1))"
    using s1(1) by (subst wait_enter.simps) simp
  show ?case
    using Cons.hyps(1) [OF s1(2) [symmetric] suite_rel_ok [OF s1(3)]] suite_rel_trans [OF s1(3), of 0] s1(2,3)
    unfolding w Cons.hyps(2) [symmetric] by (auto split: if_splits)
qed

lemma backspace_step: "suite_step reads_enter test_keyboard_backspace"
proof (rule suite_stepI)
  fix pending and s :: "'a tests_scheme" and bs assume ok: "suite_ok s bs"
  define cs where "cs = [Heading ''=== TEST: Teclado - Backspace ==='', SetColor TEST_COLOR_INFO, Text ''[INFO] '', Color VGA_COLOR_LIGHT_GREY,
    Write (lit ''Escribe 'ERROR' y luego borra todo con Backspace:''), Line '''', Text ''> '']"
  define ds where "ds = [SetColor TEST_COLOR_INFO, Text ''[INFO] '', Color VGA_COLOR_LIGHT_GREY,
    Write (lit ''Presiona Enter cuando termines de borrar''), Line '''']"
  let ?s = "emit ds (keyboard_clear_buffer (emit cs s))"
  have "test_print_info (lit ''Presiona Enter cuando termines de borrar'') (keyboard_clear_buffer (emit [Text ''> '']
      (test_print_info (lit ''Escribe 'ERROR' y luego borra todo con Backspace:'')
        (emit [Heading ''=== TEST: Teclado - Backspace ===''] s)))) = ?s"
    by (simp add: cs_def ds_def test_print_info_def emit_def)
  then have t: "test_keyboard_backspace (pending, s) = Option.bind (wait_enter pending ?s) (\<lambda>(pending, s).
      Some (Inr (pending, test_print_pass (lit ''Backspace probado (verificacion visual)'') s)))"
    by (simp only: test_keyboard_backspace_def prod.case Let_def)
  note st = suite_start [OF ok, where ds = ds and cs = cs]
  note w = wait_enter_spec [OF suite_rel_ok [OF st(1)], of pending, unfolded st(2)]
  show "test_keyboard_backspace (pending, s) = None" if "reads_enter (stream pending s) = None"
    using that w t by (auto simp: reads_enter_def split: if_splits)
  fix k rest' assume "reads_enter (stream pending s) = Some (k, rest')"
  then obtain rest s1 where s1: "wait_enter pending ?s = Some (rest, s1)" "suite_rel 0 ?s bs s1 bs" "stream rest s1 = rest'" "k = 0"
    using w by (auto simp: reads_enter_def split: if_splits)
  show "\<exists>rest s' bs'. test_keyboard_backspace (pending, s) = Some (Inr (rest, s')) \<and> suite_rel k s bs s' bs' \<and> stream rest s' = rest'"
    using t s1(1,3,4) suite_rel_trans [OF suite_rel_trans [OF st(1) s1(2)]] suite_rel_pass [OF suite_rel_ok [OF s1(2)]] by fastforce
qed

section \<open>The steps that read no key\<close>

lemma overflow_step: "sound_step 0 1 (\<lambda>s. Some (Inr (test_timer_overflow s)))"
proof -
  have "test_ok 0 1 s bs (test_timer_overflow s) bs" if "tidy s bs" for s :: "'a tests_scheme" and bs
  proof -
    obtain cs where e: "emit [Dec (timer_get_ticks (emit [Heading ''=== TEST: Timer Overflow Check ===''] s)), Line '''']
        (test_print_info (lit ''Ticks actuales: '') (emit [Heading ''=== TEST: Timer Overflow Check ===''] s)) = emit cs s"
      by (simp add: test_print_info_def emit_def)
    have t: "tidy (emit cs s) bs" using that by simp
    have "test_ok 0 1 s bs (test_print_pass name (emit cs s)) bs" for name
      using then_test_ok [OF ok_emit [OF that] ok_pass [OF t]] by (rule test_ok_weaken) simp_all
    moreover have "test_ok 0 1 s bs (emit ds (emit cs s)) bs" for ds
      using then_test_ok [OF ok_emit [OF that] ok_emit [OF t]] by (rule test_ok_weaken) simp_all
    ultimately show ?thesis unfolding test_timer_overflow_def Let_def e test_print_warn_def by simp
  qed
  then show ?thesis by (auto simp: sound_step_def)
qed

lemma colors_step: "sound_step 1 1 (\<lambda>s. Some (Inr (test_terminal_colors s)))"
proof -
  have "test_ok 1 1 s bs (test_print_pass name (emit cs s)) bs" if "tidy s bs" for s :: "'a tests_scheme" and bs cs name
    using then_test_ok [OF ok_emit [OF that] ok_pass] that by simp
  then show ?thesis unfolding sound_step_def test_terminal_colors_def by blast
qed

lemma summary_step: "sound_step 0 0 (\<lambda>s. Some (Inr (test_print_summary s)))"
  using ok_emit by (fastforce simp: sound_step_def test_print_summary_def)

lemma scroll_spec:
  "shell_ready s \<Longrightarrow> tidy s bs \<Longrightarrow> \<exists>s'. scroll_lines is s = Inr s' \<and> test_ok 0 0 s bs s' bs"
proof (induction "is" arbitrary: s)
  case Nil
  then show ?case using ok_emit [of s bs "[]"] by (simp add: emit_nothing)
next
  case (Cons i "is")
  define cs where "cs = [Text ''Linea '', Dec (of_nat i), Line '' - Probando scroll del terminal'']"
  have r: "shell_ready (emit cs s)" "tidy (emit cs s) bs" using Cons.prems keeps_ready [OF keeps_emit] by simp_all
  then obtain x where w: "timer_wait 50 (emit cs s) = Inr ((emit cs s)\<lparr>timer_ticks := x\<rparr>)"
    using timer_wait_keeps [of "emit cs s" 50] by (auto simp: shell_ready_def)
  note ok = then_test_ok [OF ok_emit [OF Cons.prems(2)] ok_ticks [OF r(2)]]
  have "shell_ready ((emit cs s)\<lparr>timer_ticks := x\<rparr>)" using keeps_ready [OF keeps_ticks r(1)] .
  moreover have "tidy ((emit cs s)\<lparr>timer_ticks := x\<rparr>) bs" using ok [of x] by (simp add: test_ok_def)
  ultimately obtain s' where "scroll_lines is ((emit cs s)\<lparr>timer_ticks := x\<rparr>) = Inr s'"
    "test_ok 0 0 ((emit cs s)\<lparr>timer_ticks := x\<rparr>) bs s' bs"
    using Cons.IH by blast
  then show ?case using w test_ok_then [OF ok [of x]] by (auto simp: cs_def)
qed

lemma scroll_step: "sound_step 1 1 (\<lambda>s. Some (test_terminal_scroll s))"
  unfolding sound_step_def
proof (intro allI impI, elim conjE)
  fix s :: "'a tests_scheme" and bs assume s: "shell_ready s" "tidy s bs"
  obtain cs where e: "test_print_info (lit ''Llenando pantalla para probar scroll...'')
      (emit [Heading ''=== TEST: Terminal - Scroll ===''] s) = emit cs s"
    by (simp add: test_print_info_def emit_def)
  have "shell_ready (emit cs s)" "tidy (emit cs s) bs" using s keeps_ready [OF keeps_emit] by simp_all
  then obtain s1 where s1: "scroll_lines [0..<30] (emit cs s) = Inr s1" "test_ok 0 0 (emit cs s) bs s1 bs"
    using scroll_spec by blast
  have "tidy s1 bs" using s1(2) by (simp add: test_ok_def)
  note ok = then_test_ok [OF then_test_ok [OF ok_emit [OF s(2)] s1(2)] ok_pass [OF this]]
  show "\<exists>s' bs'. Some (test_terminal_scroll s) = Some (Inr s') \<and> test_ok 1 1 s bs s' bs'"
    unfolding test_terminal_scroll_def Let_def e s1(1) using ok by auto
qed

section \<open>The suite\<close>

text \<open>The question about the exceptions, answered with a key other than \<open>s\<close> and \<open>S\<close>.\<close>

lemma exceptions_step:
  assumes "suite_ok s bs" and "list_all (\<lambda>c. c \<noteq> 115 \<and> c \<noteq> 83) (take 1 (stream pending s))"
  shows "case stream pending s of
      [] \<Rightarrow> test_exceptions_interactive run_exception_tests (pending, s) = None
    | c # cs \<Rightarrow> \<exists>rest s'. test_exceptions_interactive run_exception_tests (pending, s) = Some (Inr (rest, s')) \<and>
        stream rest s' = cs \<and> suite_rel 0 s bs s' bs \<and> other_parts s' = other_parts s"
proof -
  define cs where "cs = [Heading ''=== TEST: Excepciones del CPU ==='', SetColor TEST_COLOR_INFO, Text ''[INFO] '', Color VGA_COLOR_LIGHT_GREY,
    Write (lit ''Este test es interactivo y requiere seleccion manual''), Line '''', SetColor TEST_COLOR_WARN, Text ''[WARN] '',
    Color VGA_COLOR_LIGHT_GREY, Write ([0xC2, 0xA1] @ lit ''ADVERTENCIA: Causara crash y reinicio del sistema!''), Line '''',
    Write (newline # [0xC2, 0xBF] @ lit ''Ejecutar pruebas de excepciones? (s/n): '')]"
  have e: "emit [Write (newline # [0xC2, 0xBF] @ lit ''Ejecutar pruebas de excepciones? (s/n): '')]
      (test_print_warn ([0xC2, 0xA1] @ lit ''ADVERTENCIA: Causara crash y reinicio del sistema!'')
        (test_print_info (lit ''Este test es interactivo y requiere seleccion manual'')
          (emit [Heading ''=== TEST: Excepciones del CPU ===''] s))) = emit cs s"
    by (simp add: cs_def test_print_info_def test_print_warn_def emit_def)
  have ok: "suite_ok (emit cs s) bs" using assms(1) by simp
  have t: "test_exceptions_interactive run_exception_tests (pending, s) =
      Option.bind (keyboard_getchar pending (emit cs s)) (\<lambda>(response, pending, s).
        if response = 115 \<or> response = 83
        then Option.bind (run_exception_tests (pending, emit [Line ''''] s))
          (\<lambda>r. Some (map_sum id (map_prod id (test_print_pass (lit ''Pruebas de excepciones completadas''))) r))
        else Some (Inr (pending, test_print_info (lit ''Pruebas de excepciones omitidas'') (emit [Line ''''] s))))"
    unfolding test_exceptions_interactive_def prod.case Let_def e ..
  note g = suite_getchar [OF ok, of pending]
  show ?thesis
  proof (cases "stream pending s")
    case Nil
    then show ?thesis using g t by simp
  next
    case (Cons c ds)
    then have c: "c \<noteq> 115" "c \<noteq> 83" using assms(2) by simp_all
    obtain rest s1 where s1: "keyboard_getchar pending (emit cs s) = Some (c, rest, s1)" "stream rest s1 = ds"
      "suite_rel 0 (emit cs s) bs s1 bs" "other_parts s1 = other_parts (emit cs s)"
      using g Cons by auto
    obtain fs where fs: "test_print_info (lit ''Pruebas de excepciones omitidas'') (emit [Line ''''] s1) = emit fs s1"
      by (simp add: test_print_info_def emit_def)
    note rel = suite_rel_trans [OF suite_rel_trans [OF suite_rel_emit [OF assms(1)] s1(3)] suite_rel_emit [OF suite_rel_ok [OF s1(3)]]]
    have "test_exceptions_interactive run_exception_tests (pending, s) = Some (Inr (rest, emit fs s1))"
      using t s1(1) c fs by simp
    moreover have "other_parts (emit fs s1) = other_parts s" using s1(4) by (simp add: other_parts_def emit_def)
    ultimately show ?thesis using Cons s1(2) rel by auto
  qed
qed

lemma timer_basic_step:
  assumes "suite_ok s bs"
  shows "\<exists>s' k. test_timer_basic s = Inr s' \<and> suite_rel k s bs s' bs \<and> (\<forall>p. stream p s' = stream p s) \<and>
    (timer_frequency s = 100 \<and> unat (timer_ticks s) < 18446744073709551316 \<longrightarrow> k = 0)"
proof -
  let ?s = "test_print_info (lit ''Esperando 3 segundos...'') (emit [Heading ''=== TEST: Timer Basico ===''] s)"
  obtain cs where cs: "?s = emit cs s" by (simp add: test_print_info_def emit_def)
  have ok: "suite_ok (emit cs s) bs" using assms by simp
  then have f: "timer_frequency (emit cs s) \<noteq> 0" by (simp add: suite_ok_def shell_ready_def)
  then obtain x where x: "timer_wait 3000 (emit cs s) = Inr ((emit cs s)\<lparr>timer_ticks := x\<rparr>)"
    using timer_wait_keeps by blast
  let ?w = "(emit cs s)\<lparr>timer_ticks := x\<rparr>"
  have "tidy (emit cs s) bs" using ok by (simp add: suite_ok_def)
  note w = suite_rel_test [OF ok ok_ticks [OF this], of x]
  have rel: "suite_rel 0 s bs ?w bs" using suite_rel_trans [OF suite_rel_emit [OF assms]] w by fastforce
  have okw: "suite_ok ?w bs" by (rule suite_rel_ok [OF rel])
  let ?d = "x - timer_ticks s"
  have t: "test_timer_basic s = Inr (if 290 \<le> ?d \<and> ?d \<le> 310
      then test_print_pass (lit ''Timer cuenta correctamente (3 segundos)'') ?w
      else emit [Text ''  Esperado: ~300 ticks, Obtenido: '', Dec ?d, Line '' ticks'']
        (test_print_fail (lit ''Timer no cuenta correctamente'') ?w))"
    unfolding test_timer_basic_def Let_def cs x by (simp add: timer_get_ticks_def emit_def)
  have st: "stream p ?w = stream p s" for p using w by simp
  show ?thesis
  proof (cases "290 \<le> ?d \<and> ?d \<le> 310")
    case True
    then show ?thesis using t suite_rel_trans [OF rel] suite_rel_pass [OF okw] st by fastforce
  next
    case False
    have "?d = 300" if "timer_frequency s = 100" "unat (timer_ticks s) < 18446744073709551316"
    proof -
      have "wait_target 3000 (emit cs s) = timer_ticks s + 300" using that(1) by (simp add: wait_target_def emit_def)
      moreover have "timer_ticks s \<le> timer_ticks s + 300"
        using that(2) by (simp add: word_le_nat_alt unat_add_u64)
      ultimately have "timer_wait 3000 (emit cs s) = Inr ((emit cs s)\<lparr>timer_ticks := timer_ticks s + 300\<rparr>)"
        using wait_loop_ends [OF f, of "timer_ticks s + 300"] by (simp add: timer_wait_def emit_def)
      then have "(emit cs s)\<lparr>timer_ticks := x\<rparr> = (emit cs s)\<lparr>timer_ticks := timer_ticks s + 300\<rparr>" using x by simp
      then have "x = timer_ticks s + 300" by (metis timer.select_convs(1) timer.surjective timer.update_convs(1))
      then show ?thesis by simp
    qed
    then have "\<not> (timer_frequency s = 100 \<and> unat (timer_ticks s) < 18446744073709551316)" using False by auto
    moreover have "suite_rel 1 s bs (emit ds (test_print_fail name ?w)) bs \<and> stream p (emit ds (test_print_fail name ?w)) = stream p s" for ds name p
      using suite_rel_trans [OF suite_rel_trans [OF rel conjunct1 [OF suite_rel_fail [OF okw]]]
          suite_rel_emit [OF suite_rel_ok [OF conjunct1 [OF suite_rel_fail [OF okw]]]]] suite_rel_fail [OF okw] st by fastforce
    ultimately show ?thesis using t False by fastforce
  qed
qed

text \<open>What the suite takes from the characters: the answer, up to ten digits, and a line.\<close>

definition suite_input :: reading where
  "suite_input cs = (case cs of [] \<Rightarrow> None | c # cs \<Rightarrow> then_reads (reads_keys 10 48 57) reads_enter cs)"

lemma typed_keys_full: "newline \<notin> set ns \<Longrightarrow> typed_keys (length ns) (ns @ cs) = Some (ns, cs)"
  by (induction ns) auto

lemma typed_keys_enter: "newline \<notin> set ns \<Longrightarrow> length ns < n \<Longrightarrow> typed_keys n (ns @ newline # cs) = Some (ns, cs)"
proof (induction ns arbitrary: n)
  case Nil
  then show ?case by (cases n) simp_all
next
  case (Cons c ns)
  then show ?case by (cases n) simp_all
qed

text \<open>
  The instructions on the screen ask for Enter after ten digits. The test of the digits has ended
  by then, and that Enter ends the next test, before anything is typed for it.
\<close>

lemma enter_ends_next_test:
  assumes "length ns = 10" and "list_all (\<lambda>c. 48 \<le> c \<and> c \<le> 57) ns"
  shows "suite_input (c # ns @ newline # rest) = Some (0, rest)"
proof -
  have "newline \<notin> set ns" using assms(2) by (auto simp: list_all_iff)
  moreover have "ns \<noteq> []" using assms(1) by auto
  ultimately show ?thesis
    using typed_keys_full [of ns "newline # rest"] assms
    by (simp add: suite_input_def then_reads_def reads_keys_def reads_enter_def)
qed

lemma rest_of_suite:
  "suite_step (then_reads (reads_keys 10 48 57) reads_enter) (in_order
     [keyless (\<lambda>s. Some (Inr (test_timer_overflow s))), test_keyboard_numbers, test_keyboard_backspace,
      keyless (\<lambda>s. Some (Inr (test_terminal_colors s))), keyless (\<lambda>s. Some (test_terminal_scroll s)),
      keyless run_memory_tests, keyless (\<lambda>s. Some (Inr (test_print_summary s)))])"
  (is "suite_step _ ?tests")
proof -
  have "suite_step (reads_keys 10 48 57) test_keyboard_numbers"
    unfolding test_keyboard_numbers_def by (rule key_test_step)
  note steps = keyless_suite [OF overflow_step] this backspace_step keyless_suite [OF colors_step]
    keyless_suite [OF scroll_step] keyless_suite [OF run_memory_tests_step] keyless_suite [OF summary_step] suite_Nil
  have "suite_step (then_reads reads_nothing (then_reads (reads_keys 10 48 57) (then_reads reads_enter
      (then_reads reads_nothing (then_reads reads_nothing (then_reads reads_nothing (then_reads reads_nothing reads_nothing))))))) ?tests"
    by (intro suite_Cons steps)
  then show ?thesis by (simp only: then_reads_nothing)
qed

lemma suite_spec:
  assumes "suite_ok s bs" and "list_all (\<lambda>c. c \<noteq> 115 \<and> c \<noteq> 83) (take 1 (stream pending s))"
  shows "case suite_input (stream pending s) of
      None \<Rightarrow> run_test_suite run_exception_tests (pending, s) = None
    | Some (k, cs) \<Rightarrow> \<exists>rest s' bs'. run_test_suite run_exception_tests (pending, s) = Some (Inr (rest, s')) \<and>
        stream rest s' = cs \<and> suite_ok s' bs' \<and> history_lines s' = history_lines s \<and>
        (healthy s bs \<and> timer_frequency s = 100 \<and> unat (timer_ticks s) < 18446744073709551316 \<longrightarrow>
          bs' = bs \<and> used s' = used s \<and> tests_failed s' = tests_failed s + k)"
proof -
  define cs where "cs = [Initialize, Color VGA_COLOR_LIGHT_CYAN, Line ''====================================='',
         Line ''   SUITE DE PRUEBAS DEL KERNEL'', Line ''====================================='',
         Color VGA_COLOR_LIGHT_GREY]"
  define tests where "tests =
     [keyless (\<lambda>s. Some (Inr (test_timer_overflow s))), test_keyboard_numbers, test_keyboard_backspace,
      keyless (\<lambda>s. Some (Inr (test_terminal_colors s))), keyless (\<lambda>s. Some (test_terminal_scroll s)),
      keyless run_memory_tests, keyless (\<lambda>s. Some (Inr (test_print_summary s :: 'a tests_scheme)))]"
  have rest: "suite_step (then_reads (reads_keys 10 48 57) reads_enter) (in_order tests)"
    unfolding tests_def by (rule rest_of_suite)
  let ?e = "test_exceptions_interactive run_exception_tests"
  have run: "run_test_suite run_exception_tests (pending, s) = Option.bind (?e (pending, emit cs s)) (\<lambda>r. case r of
      Inl e \<Rightarrow> Some (Inl e) | Inr x \<Rightarrow> in_order (keyless (\<lambda>s. Some (test_timer_basic s)) # tests) x)"
  proof -
    have "run_test_suite run_exception_tests = in_order (keyless (printing cs) # ?e # keyless (\<lambda>s. Some (test_timer_basic s)) # tests)"
      unfolding run_test_suite_def tests_def cs_def ..
    moreover have "keyless (printing cs) (pending, s) = Some (Inr (pending, emit cs s))" by (simp add: keyless_def printing_def)
    moreover have "in_order (f # fs) x = Option.bind (f x) (\<lambda>r. case r of Inl e \<Rightarrow> Some (Inl e) | Inr x \<Rightarrow> in_order fs x)"
      for f :: "'a suite_test" and fs x by simp
    ultimately show ?thesis by simp
  qed
  have ok: "suite_ok (emit cs s) bs" using assms(1) by simp
  note x = exceptions_step [OF ok, of pending run_exception_tests, unfolded stream_emit, OF assms(2)]
  show ?thesis
  proof (cases "stream pending s")
    case Nil
    then show ?thesis using x run by (simp add: suite_input_def)
  next
    case (Cons c ds)
    then obtain p1 s1 where s1: "?e (pending, emit cs s) = Some (Inr (p1, s1))" "stream p1 s1 = ds"
      "suite_rel 0 (emit cs s) bs s1 bs" "other_parts s1 = other_parts (emit cs s)" using x by auto
    obtain s2 k where s2: "test_timer_basic s1 = Inr s2" "suite_rel k s1 bs s2 bs" "stream p1 s2 = ds"
      "timer_frequency s1 = 100 \<and> unat (timer_ticks s1) < 18446744073709551316 \<longrightarrow> k = 0"
      using timer_basic_step [OF suite_rel_ok [OF s1(3)]] s1(2) by metis
    have t: "timer_frequency s1 = timer_frequency s" "timer_ticks s1 = timer_ticks s"
      using s1(4) by (simp_all add: other_parts_def emit_def)
    have run2: "run_test_suite run_exception_tests (pending, s) = in_order tests (p1, s2)"
      using run s1(1) s2(1) by (simp add: keyless_def)
    note rel = suite_rel_trans [OF suite_rel_trans [OF suite_rel_emit [OF assms(1)] s1(3)] s2(2)]
    have input: "suite_input (stream pending s) = then_reads (reads_keys 10 48 57) reads_enter (stream p1 s2)"
      using Cons s2(3) by (simp add: suite_input_def)
    note r = suite_stepD [OF rest suite_rel_ok [OF s2(2)], of p1, folded input]
    show ?thesis
    proof (cases "suite_input (stream pending s)")
      case None
      then show ?thesis using r(1) run2 by simp
    next
      case (Some a)
      then obtain l es where i: "suite_input (stream pending s) = Some (l, es)" by (cases a) simp
      then obtain p' s' bs' where s': "in_order tests (p1, s2) = Some (Inr (p', s'))" "suite_rel l s2 bs s' bs'" "stream p' s' = es"
        using r(2) by blast
      have "suite_rel (k + l) s bs s' bs'" using suite_rel_trans [OF rel s'(2)] by simp
      then show ?thesis using i run2 s' s2(4) t by (auto simp: suite_rel_def)
    qed
  qed
qed

end
