(* ===== verification/Exception_Tests.thy ===== *)
theory Exception_Tests
  imports Test_Suite "HOL-Library.Signed_Division"
begin

text \<open>
  The tests that raise processor exceptions on purpose (\<open>exception_test.c\<close>). What the exception
  depends on beyond the C code is a parameter: the addresses that the page tables of \<open>boot.asm\<close> map
  (\<open>mapped\<close>) and the stack pointer at the instruction that moves it (\<open>stack\<close>). A test that raises
  an exception returns it on the left; its handler stops the processor (\<open>isr_handler\<close>).

  The dialogue sleeps with \<open>hlt\<close> outside of \<open>keyboard_getchar\<close>, and how long a key takes matters:
  the interrupts that end its sleeps are a list of ticks and scancodes, in the order in which they
  come. \<open>None\<close>: the list ends before the dialogue does.
\<close>

section \<open>The tests\<close>

text \<open>A store that the processor refuses when the page is not mapped.\<close>

definition checked_store :: "(u64 \<Rightarrow> bool) \<Rightarrow> u64 \<Rightarrow> (mem \<Rightarrow> mem) \<Rightarrow> 'a machine_scheme \<Rightarrow> cpu_exception + 'a machine_scheme" where
  "checked_store mapped a st s = (if mapped a then Inr (upd_ram st s) else Inl Page_Fault)"

definition error_not_caught :: tcall where
  "error_not_caught = Write (lit ''ERROR: No se captur'' @ o_acute @ lit '' la excepci'' @ o_acute @ lit ''n!'' @ [newline])"

text \<open>The announcement, the pause of a second, the instruction at fault, and what follows it.\<close>

definition provoke :: "tcall list \<Rightarrow> ('a tests_scheme \<Rightarrow> cpu_exception + 'a tests_scheme) \<Rightarrow>
    'a tests_scheme \<Rightarrow> cpu_exception + 'a tests_scheme" where
  "provoke announcement instruction s =
    (case timer_wait 1000 (emit announcement s) of
       Inl e \<Rightarrow> Inl e
     | Inr s \<Rightarrow> (case instruction s of Inl e \<Rightarrow> Inl e | Inr s \<Rightarrow> Inr (emit [error_not_caught] s)))"

definition div_int :: "u32 \<Rightarrow> u32 \<Rightarrow> cpu_exception + u32" where
  "div_int x y = (if y = 0 \<or> x = 0x80000000 \<and> y = - 1 then Inl Divide_Error else Inr (word_of_int (sint x sdiv sint y)))"

definition test_divide_by_zero :: "'a tests_scheme \<Rightarrow> cpu_exception + 'a tests_scheme" where
  "test_divide_by_zero = provoke
     [Heading ''=== TEST: Division por Cero ==='', Line ''Provocando division por cero...'']
     (\<lambda>s. map_sum id (\<lambda>z. s) (div_int 5 0))"

definition test_invalid_opcode :: "'a tests_scheme \<Rightarrow> cpu_exception + 'a tests_scheme" where
  "test_invalid_opcode = provoke
     [Heading ''=== TEST: Opcode Invalido ==='', Line ''Ejecutando instruccion UD2...'']
     (\<lambda>s. Inl Invalid_Opcode)"

definition test_page_fault :: "(u64 \<Rightarrow> bool) \<Rightarrow> 'a tests_scheme \<Rightarrow> cpu_exception + 'a tests_scheme" where
  "test_page_fault mapped = provoke
     [Heading ''=== TEST: Page Fault ==='', Line ''Accediendo a direccion invalida...'']
     (checked_store mapped 0xDEADBEEF (\<lambda>m. store32 m 0xDEADBEEF 42))"

text \<open>The selector \<open>0xFFFF\<close> names an entry of the local descriptor table, and there is none.\<close>

definition test_general_protection :: "'a tests_scheme \<Rightarrow> cpu_exception + 'a tests_scheme" where
  "test_general_protection = provoke
     [Heading ''=== TEST: General Protection Fault ==='', Line ''Cargando selector de segmento invalido...'']
     (\<lambda>s. Inl General_Protection)"

text \<open>\<open>pushq\<close> stores eight bytes below the moved stack pointer, which is then restored.\<close>

definition test_stack_fault :: "(u64 \<Rightarrow> bool) \<Rightarrow> u64 \<Rightarrow> 'a tests_scheme \<Rightarrow> cpu_exception + 'a tests_scheme" where
  "test_stack_fault mapped stack = provoke
     [Heading ''=== TEST: Stack Fault ==='', Line ''Provocando desbordamiento de stack...'']
     (checked_store mapped (stack - 0x100000 - 8) (\<lambda>m. store64 m (stack - 0x100000 - 8) 0x12345678))"

text \<open>
  The recursion without end. The stack that it consumes is not represented, so that here it runs
  for ever; the depth is an \<open>int\<close>.
\<close>

partial_function (option) recursive_overflow_simple :: "u32 \<Rightarrow> 'a machine_scheme \<Rightarrow> 'a machine_scheme option" where
  "recursive_overflow_simple recursive_depth s =
    (let recursive_depth = recursive_depth + 1;
         s = (if sint recursive_depth smod 100 = 0
              then emit [Text ''Profundidad: '', Dec (scast recursive_depth), Line ''''] s else s)
     in recursive_overflow_simple recursive_depth s)"

definition test_stack_fault_recursive :: "'a tests_scheme \<Rightarrow> (cpu_exception + 'a tests_scheme) option" where
  "test_stack_fault_recursive s =
    (case timer_wait 1000 (emit [Heading ''=== TEST: Stack Fault (Recursivo) ==='',
        Line ''Desbordamiento de stack por recursion infinita...''] s) of
       Inl e \<Rightarrow> Some (Inl e)
     | Inr s \<Rightarrow> Option.bind (recursive_overflow_simple 0 s) (\<lambda>s. Some (Inr (emit [error_not_caught] s))))"

section \<open>The dialogue\<close>

datatype wake = Tick | Key u8

primrec wake_up :: "wake \<Rightarrow> 'a keyboard_scheme \<Rightarrow> cpu_exception + 'a keyboard_scheme" where
  "wake_up Tick s = irq_handler (\<lambda>_ _. 0) 32 s"
| "wake_up (Key scancode) s = irq_handler (\<lambda>_ _. scancode) 33 s"

text \<open>The loop that waits for a digit; \<open>keyboard_getchar\<close> finds a character, so that it does not sleep.\<close>

fun choose_test :: "wake list \<Rightarrow> 'a keyboard_scheme \<Rightarrow> (cpu_exception + u8 \<times> wake list \<times> 'a keyboard_scheme) option" where
  "choose_test [] s = None"
| "choose_test (w # ws) s =
    (case wake_up w s of
       Inl e \<Rightarrow> Some (Inl e)
     | Inr s \<Rightarrow>
         if 0 < keyboard_buffer_count s then
           Option.bind (keyboard_getchar [] s) (\<lambda>(c, _, s).
             if 49 \<le> c \<and> c \<le> 55 then Some (Inr (c, ws, emit [PutChar c, Line ''''] s))
             else choose_test ws s)
         else choose_test ws s)"

text \<open>The two seconds in which any key cancels: \<open>True\<close> when one has come.\<close>

fun cancelled :: "u64 \<Rightarrow> wake list \<Rightarrow> 'a keyboard_scheme \<Rightarrow> (cpu_exception + bool \<times> wake list \<times> 'a keyboard_scheme) option" where
  "cancelled start_ticks ws s =
    (if timer_get_ticks s - start_ticks < 200 then
       if 0 < keyboard_buffer_count s
       then Some (Inr (True, ws, emit [Heading ''Prueba cancelada por el usuario.''] s))
       else (case ws of
           [] \<Rightarrow> None
         | w # ws \<Rightarrow> (case wake_up w s of Inl e \<Rightarrow> Some (Inl e) | Inr s \<Rightarrow> cancelled start_ticks ws s))
     else Some (Inr (False, ws, s)))"

declare cancelled.simps [simp del]

definition exception_menu :: "tcall list" where
  "exception_menu =
    [Heading ''====================================='', Line ''   PRUEBAS DE EXCEPCIONES DEL CPU'',
     Line ''====================================='',
     Write (lit ''ADVERTENCIA: Estas pruebas causar'' @ a_acute @ lit ''n crashes controlados'' @ [newline]),
     Write (lit ''y reiniciar'' @ a_acute @ lit ''n el sistema. '' @ [0xC2, 0xA1] @ lit ''Usar con precauci'' @ o_acute @ lit ''n!'' @
       [newline, newline]),
     Line ''Selecciona una prueba:'', Line ''1. Division por cero'', Line ''2. Opcode invalido'',
     Line ''3. Page fault'', Line ''4. General protection fault'', Line ''5. Stack fault (directo)'',
     Line ''6. Stack fault (recursivo)'', Line ''7. Cancelar'', Write (newline # lit ''Opcion: '')]"

definition run_chosen :: "(u64 \<Rightarrow> bool) \<Rightarrow> u64 \<Rightarrow> u8 \<Rightarrow> 'a tests_scheme \<Rightarrow> (cpu_exception + 'a tests_scheme) option" where
  "run_chosen mapped stack test_option s =
    (if test_option = 49 then Some (test_divide_by_zero s)
     else if test_option = 50 then Some (test_invalid_opcode s)
     else if test_option = 51 then Some (test_page_fault mapped s)
     else if test_option = 52 then Some (test_general_protection s)
     else if test_option = 53 then Some (test_stack_fault mapped stack s)
     else if test_option = 54 then test_stack_fault_recursive s
     else if test_option = 55 then Some (Inr (emit [Line ''Pruebas canceladas.''] s))
     else Some (Inr (emit [Line ''Opcion invalida.''] s)))"

definition run_exception_tests :: "(u64 \<Rightarrow> bool) \<Rightarrow> u64 \<Rightarrow> wake list \<Rightarrow> 'a tests_scheme \<Rightarrow>
    (cpu_exception + wake list \<times> 'a tests_scheme) option" where
  "run_exception_tests mapped stack ws s =
    Option.bind (choose_test ws (emit exception_menu s)) (\<lambda>r. case r of
      Inl e \<Rightarrow> Some (Inl e)
    | Inr (test_option, ws, s) \<Rightarrow>
        let s = emit [Line '''', Line ''Ejecutando prueba en 2 segundos...'',
                      Line ''Presiona cualquier tecla para cancelar...''] s;
            start_ticks = timer_get_ticks s
        in Option.bind (cancelled start_ticks ws s) (\<lambda>r. case r of
             Inl e \<Rightarrow> Some (Inl e)
           | Inr (stop, ws, s) \<Rightarrow>
               if stop then Some (Inr (ws, s))
               else map_option (map_sum id (Pair ws)) (run_chosen mapped stack test_option (emit [Line ''''] s))))"

text \<open>The entry for debugging, which nothing calls.\<close>

definition run_quick_exception_test :: "(u64 \<Rightarrow> bool) \<Rightarrow> u64 \<Rightarrow> u8 \<Rightarrow> 'a tests_scheme \<Rightarrow> (cpu_exception + 'a tests_scheme) option" where
  "run_quick_exception_test mapped stack test_num s =
    (let s = emit [Heading ''=== PRUEBA RAPIDA DE EXCEPCION ===''] s
     in if test_num = 0 then Some (test_divide_by_zero s)
        else if test_num = 1 then Some (test_invalid_opcode s)
        else if test_num = 2 then Some (test_page_fault mapped s)
        else if test_num = 3 then Some (test_general_protection s)
        else if test_num = 4 then Some (test_stack_fault mapped stack s)
        else if test_num = 5 then test_stack_fault_recursive s
        else Some (Inr (emit [Line ''Numero de prueba invalido.''] s)))"

text \<open>
  The tests as the suite runs them: \<open>timing\<close> says where among the ticks the keys to come fall, and
  the keys that the dialogue leaves are for the tests that follow.
\<close>

fun keys_of :: "wake list \<Rightarrow> u8 list" where
  "keys_of [] = []"
| "keys_of (Tick # ws) = keys_of ws"
| "keys_of (Key sc # ws) = sc # keys_of ws"

definition timed_exception_tests :: "(u64 \<Rightarrow> bool) \<Rightarrow> u64 \<Rightarrow> (u8 list \<Rightarrow> wake list) \<Rightarrow> 'a suite_test" where
  "timed_exception_tests mapped stack timing = (\<lambda>(pending, s).
    map_option (map_sum id (map_prod keys_of id)) (run_exception_tests mapped stack (timing pending) s))"

end
