(* ===== verification/Boot_Claims.thy ===== *)
theory Boot_Claims
  imports Memory_Tests_Claims Multiboot_Claims Test_Suite_Props Exception_Tests
begin

text \<open>
  The boot sequence from the entry of \<open>kernel_main\<close> to the shell: what each step leaves alone,
  the state that it hands to the shell, and the run of the whole kernel over the characters typed,
  with its test suite and without.
\<close>

section \<open>What the steps leave alone\<close>

text \<open>\<open>memory.more\<close> is the state of the drivers and of the shell, \<open>timer.more\<close> that of the keyboard and above.\<close>

lemma memory_more_fields:
  assumes "memory.more s' = memory.more (s :: 'a timer_scheme)"
  shows "interrupts_on s' = interrupts_on s" "timer.more s' = timer.more s"
  using assms by (cases s; cases s'; simp)+

lemma detect_more: "memory_detect mbi s = Some s' \<Longrightarrow> memory.more s' = memory.more s"
proof -
  have mmap: "memory.more s' = memory.more s" if "mmap_loop tag p s = Some s'" for tag p and s s' :: "'a memory_scheme"
    by (rule mmap_loop.raw_induct [OF _ that, where P = "\<lambda>tag p s s'. memory.more s' = memory.more s"])
      (fastforce simp: add_entry_def Let_def split: if_splits)
  have tag: "memory.more s' = memory.more s" if "process_tag tag s = Some s'" for tag and s s' :: "'a memory_scheme"
    using that
    by (auto simp: process_tag_def add_mmap_def add_meminfo_def emit_string_def Let_def Option.bind_eq_Some_conv
        dest!: mmap split: if_splits)
  have loop: "memory.more s' = memory.more s" if "tag_loop p limit s = Some s'" for p limit and s s' :: "'a memory_scheme"
    by (rule tag_loop.raw_induct [OF _ that, where P = "\<lambda>p limit s s'. memory.more s' = memory.more s"])
      (fastforce simp: Option.bind_eq_Some_conv dest!: tag split: if_splits)
  assume "memory_detect mbi s = Some s'"
  then show ?thesis
    by (auto simp: memory_detect_def Let_def Option.bind_eq_Some_conv dest!: loop split: if_splits)
qed

text \<open>The dump of the boot information prints, and returns on the same structures as \<open>memory_detect\<close>.\<close>

lemma emit_emit: "emit ds (emit cs s) = emit (cs @ ds) s"
  by (simp add: emit_def)

lemma debug_tag_prints:
  assumes "tag_type (ram s) tag \<in> {MULTIBOOT_TAG_TYPE_CMDLINE, MULTIBOOT_TAG_TYPE_BOOT_LOADER_NAME} \<longrightarrow>
    strlen (ram s) (tag + 8) \<noteq> None"
  shows "\<exists>cs. debug_tag tag s = Some (emit cs s)"
proof (cases "tag_type (ram s) tag \<in> {MULTIBOOT_TAG_TYPE_CMDLINE, MULTIBOOT_TAG_TYPE_BOOT_LOADER_NAME}")
  case True
  then obtain n where "strlen (ram s) (tag + 8) = Some n" using assms by auto
  then have "\<exists>cs. emit_string prefix (tag + 8) s = Some (emit cs s)" for prefix
    by (simp add: emit_string_def) (rule exI, rule refl)
  then show ?thesis using True by (auto simp: debug_tag_def Let_def)
next
  case False
  then have "debug_tag tag s \<in> range (\<lambda>cs. Some (emit cs s))"
    by (simp add: debug_tag_def Let_def)
  then show ?thesis by blast
qed

lemma debug_loop_prints:
  "tag_chain (ram s) limit p ts \<Longrightarrow> \<exists>n cs. debug_loop p limit k s = Some (n, emit cs s)"
proof (induction ts arbitrary: p s k)
  case Nil
  then have "debug_loop p limit k s = Some (k, emit [] s)" by (subst debug_loop.simps) auto
  then show ?case by blast
next
  case (Cons tq ts)
  obtain qs where tq: "tq = (p, qs)" using Cons.prems by (cases tq) simp
  define heading where "heading = [Text ''      Tag '', Dec (scast k), Text '': tipo=0x'',
                     Hex (ucast (tag_type (ram s) p)), Write (lit '', tama'' @ [0xC3, 0xB1] @ lit ''o=''),
                     Dec (ucast (tag_size (ram s) p)), Line '''']"
  obtain cs where tag: "debug_tag p (emit heading s) = Some (emit cs (emit heading s))"
    using debug_tag_prints [of "emit heading s" p] Cons.prems by (auto simp: tq)
  have "tag_chain (ram (emit cs (emit heading s))) limit (p + tag_step (tag_size (ram s) p)) ts"
    using Cons.prems by (simp add: tq)
  from Cons.IH [OF this, of "k + 1"] obtain n cs' where
    "debug_loop (p + tag_step (tag_size (ram s) p)) limit (k + 1) (emit cs (emit heading s)) =
      Some (n, emit cs' (emit cs (emit heading s)))" by blast
  then have "debug_loop p limit k s = Some (n, emit (heading @ cs @ cs') s)"
    using Cons.prems tag by (subst debug_loop.simps) (simp add: tq Let_def heading_def emit_emit)
  then show ?case by blast
qed

lemma debug_prints:
  assumes "mbi = 0 \<or> mbi AND 7 \<noteq> 0 \<or> signature \<noteq> MULTIBOOT2_BOOTLOADER_MAGIC \<or>
    tag_chain (ram s) (ucast mbi + ucast (load32 (ram s) (ucast mbi))) (ucast (mbi + 8)) ts"
  shows "\<exists>cs. debug_multiboot_info signature mbi s = Some (emit cs s)"
proof (cases "mbi = 0 \<or> mbi AND 7 \<noteq> 0 \<or> signature \<noteq> MULTIBOOT2_BOOTLOADER_MAGIC")
  case True
  then have "debug_multiboot_info signature mbi s \<in> range (\<lambda>cs. Some (emit cs s))"
    by (auto simp: debug_multiboot_info_def Let_def emit_emit)
  then show ?thesis by blast
next
  case False
  let ?limit = "ucast mbi + ucast (load32 (ram s) (ucast mbi))"
  have "\<exists>cs k. debug_multiboot_info signature mbi s =
      Option.bind (debug_loop (ucast (mbi + 8)) ?limit 0 (emit cs s)) (\<lambda>(n, s). Some (emit (k n) s))"
    using False by (simp add: debug_multiboot_info_def Let_def emit_emit del: bind.simps) (rule exI, rule exI, rule refl)
  then obtain cs k where d: "debug_multiboot_info signature mbi s =
      Option.bind (debug_loop (ucast (mbi + 8)) ?limit 0 (emit cs s)) (\<lambda>(n, s). Some (emit (k n) s))" by blast
  obtain n ds where "debug_loop (ucast (mbi + 8)) ?limit 0 (emit cs s) = Some (n, emit ds (emit cs s))"
    using debug_loop_prints [of "emit cs s" ?limit "ucast (mbi + 8)" ts 0] assms False by auto
  then have "debug_multiboot_info signature mbi s = Some (emit (cs @ ds @ k n) s)"
    using d by (simp add: emit_emit)
  then show ?thesis by blast
qed

section \<open>The devices\<close>

lemma timer_more_ports [simp]:
  "timer.more (outb port v s) = timer.more s" "timer.more (irq_clear_mask dev i s) = timer.more s"
  "timer.more (pic_remap dev s) = timer.more s" "timer.more (sti s) = timer.more s" "timer.more (emit cs s) = timer.more s"
  by (simp_all add: outb_def inb_def irq_clear_mask_def pic_remap_def sti_def emit_def Let_def)

lemma machine_part_ports [simp]:
  "machine_part (outb port v s) = machine_part s" "machine_part (irq_clear_mask dev i s) = machine_part s"
  by (simp_all add: outb_def inb_def irq_clear_mask_def machine_part_def Let_def)

lemma interrupts_on_simps [simp]:
  "interrupts_on (emit cs s) = interrupts_on s" "interrupts_on (irq_clear_mask dev i s) = interrupts_on s"
  by (simp_all add: emit_def irq_clear_mask_def inb_def Let_def)

text \<open>The parts of the state that the keyboard and the shell read.\<close>

definition user_part where
  "user_part s = (shift_pressed s, caps_lock s, keyboard_buffer s, buffer_read_pos s, buffer_write_pos s, kernel.more s)"

lemma user_part_timer: "timer.more s' = timer.more (s :: 'a kernel_scheme) \<Longrightarrow> user_part s' = user_part s"
  by (cases s; cases s') (simp add: user_part_def)

lemma user_part_ports [simp]: "user_part (pic_remap dev s) = user_part s" "user_part (sti s) = user_part s"
  by (rule user_part_timer, simp)+

lemma user_part_gates [simp]:
  "user_part (idt_set_gate num h sel flags s) = user_part s" "user_part (idt_install a s) = user_part s"
proof -
  have "user_part (fold (\<lambda>i s. s\<lparr>idt := (idt s)[i := empty_gate]\<rparr>) is s) = user_part s" for "is" and s :: "'a kernel_scheme"
    by (induction "is" arbitrary: s) (simp_all add: user_part_def)
  then show "user_part (idt_install a s) = user_part s"
    by (simp add: idt_install_def Let_def) (simp add: user_part_def)
  show "user_part (idt_set_gate num h sel flags s) = user_part s"
    by (simp add: user_part_def idt_set_gate_def)
qed

lemma user_part_isr [simp]: "user_part (isr_install dev isr_addr irq_addr s) = user_part s"
proof -
  have "user_part (fold (\<lambda>i. idt_set_gate (num i) (addr i) sel flags) is s) = user_part s"
    for num :: "nat \<Rightarrow> u8" and addr sel flags "is" and s :: "'a kernel_scheme"
    by (induction "is" arbitrary: s) simp_all
  then show ?thesis by (simp add: isr_install_def Let_def)
qed

text \<open>The static buffers, before the shell is initialised.\<close>

definition buffers_ok :: "'a shell_scheme \<Rightarrow> bool" where
  "buffers_ok s \<longleftrightarrow> kb_valid s \<and> length (shell_buffer s) = 256 \<and> length (parse_buffer s) = 256 \<and>
    length (shell_history s) = 10 \<and> (\<forall>a \<in> set (shell_history s). length a = 256 \<and> 0 \<in> set a)"

lemma user_part_fields:
  assumes "user_part s' = user_part s"
  shows "buffers_ok s' = buffers_ok s" "stream p s' = stream p s"
  using assms
  by (cases s; cases s'; simp add: user_part_def buffers_ok_def kb_valid_def stream_def queue_def)+

lemma shell_init_history:
  assumes "buffers_ok s"
  shows "shell_ok (shell_init s)" "history_lines (shell_init s) = []" "stream p (shell_init s) = stream p s"
    "machine_part (shell_init s) = machine_part s" "interrupts_on (shell_init s) = interrupts_on s"
    "idt (shell_init s) = idt s"
  using assms
  by (simp_all add: shell_init_def Let_def buffers_ok_def shell_ok_def history_ok_def history_lines_def) (simp add: emit_def)

lemma timer_install_spec:
  assumes "f \<noteq> 0"
  shows "\<exists>s'. timer_install dev f s = Inr s' \<and> timer_frequency s' = f \<and> timer.more s' = timer.more s \<and>
    interrupts_on s' = interrupts_on s \<and> ram s' = ram s \<and> heap_head s' = heap_head s \<and> heap_initialized s' = heap_initialized s \<and>
    bitmap_place s' = bitmap_place s"
  using assms by (simp add: timer_install_def Let_def irq_clear_mask_def inb_def outb_def bitmap_place_def)

lemma keyboard_install_keeps [simp]:
  "timer.more (keyboard_install dev s) = timer.more s" "machine_part (keyboard_install dev s) = machine_part s"
  "interrupts_on (keyboard_install dev s) = interrupts_on s"
  by (simp_all add: keyboard_install_def)

lemma print_info_emits: "\<exists>cs. memory_print_info s = emit cs s"
proof -
  have "memory_print_info s \<in> range (\<lambda>cs. emit cs s)"
    by (simp add: memory_print_info_def pmm_print_stats_def Let_def emit_emit)
  then show ?thesis by blast
qed

text \<open>The bitmap's place is fixed by \<open>pmm_init\<close> from the memory map.\<close>

lemma fold_mem_info: "(\<And>i s. mem_info (f i s) = mem_info s) \<Longrightarrow> mem_info (fold f is s) = mem_info s"
  by (induction "is" arbitrary: s) simp_all

lemma mem_info_gates [simp]:
  "mem_info (idt_set_gate num h sel flags s) = mem_info s" "mem_info (idt_install a s) = mem_info s"
  "mem_info (isr_install dev isr_addr irq_addr s) = mem_info s"
  by (simp_all add: idt_set_gate_def idt_install_def isr_install_def pic_remap_def sti_def outb_def inb_def Let_def fold_mem_info)

lemma bitmap_place_heap_init [simp]: "bitmap_place (heap_init s) = bitmap_place s"
  by (simp add: bitmap_place_def heap_init_def Let_def emit_def)

lemma boot_devices_spec:
  assumes "buffers_ok s" and "length (idt s) = 256"
  shows "\<exists>s'. boot_devices env mb ms s = Inr s' \<and> shell_ready s' \<and> history_lines s' = [] \<and> interrupts_on s' \<and>
    timer_frequency s' = 100 \<and> (\<forall>p. stream p s' = stream p s) \<and>
    (\<forall>i < 32. gate_to (env_isr_addr env i) 0x08 0x8E (idt s' ! i)) \<and>
    (\<forall>i < 16. gate_to (env_irq_addr env i) 0x08 0x8E (idt s' ! (32 + i))) \<and>
    (bitmap_clear ms (entries (mem_info s)) \<longrightarrow> bitmap_apart s')"
proof -
  define s1 where "s1 = emit [Line ''[OK] IDT inicializada''] (idt_install (env_idt_addr env) s)"
  define s2 where "s2 = isr_install (env_device env) (env_isr_addr env) (env_irq_addr env) s1"
  define s3 where "s3 = emit [Line ''[OK] ISRs instalados (excepciones)'', Line ''[OK] IRQs instalados (hardware)'',
                   Line ''[OK] PIC remapeado'', Line ''[OK] Interrupciones habilitadas''] s2"
  define s4 where "s4 = pmm_init mb ms s3"
  define s5 where "s5 = emit [Line ''[OK] Heap del kernel inicializado''] (heap_init s4)"
  have "length (idt s1) = 256"
    using idt_install_clears [OF assms(2)] by (simp add: s1_def emit_def)
  from isr_install_spec [OF this, of "env_device env" "env_isr_addr env" "env_irq_addr env"]
  have gates: "(\<forall>i < 32. gate_to (env_isr_addr env i) 0x08 0x8E (idt s2 ! i)) \<and>
      (\<forall>i < 16. gate_to (env_irq_addr env i) 0x08 0x8E (idt s2 ! (32 + i)))" and on: "interrupts_on s2"
    unfolding s2_def Let_def by blast+
  have "memory.more s5 = memory.more s2" by (simp add: s5_def s4_def s3_def)
  note more5 = memory_more_fields [OF this]
  have heap5: "\<exists>bs. tidy s5 bs" using heap_init_keeps(2) [of s4] by (simp add: s5_def)
  obtain s6 where s6: "timer_install (env_device env) 100 s5 = Inr s6" "timer_frequency s6 = 100"
    "timer.more s6 = timer.more s5" "interrupts_on s6 = interrupts_on s5" "ram s6 = ram s5"
    "heap_head s6 = heap_head s5" "heap_initialized s6 = heap_initialized s5" "bitmap_place s6 = bitmap_place s5"
    using timer_install_spec [of 100 "env_device env" s5] by auto
  define s7 where "s7 = emit [Line ''[OK] Teclado PS/2 inicializado'']
    (keyboard_install (env_device env) (emit [Line ''[OK] Timer PIT configurado (100 Hz)''] s6))"
  have s7: "timer.more s7 = timer.more s2" "machine_part s7 = machine_part s6" "interrupts_on s7"
    using s6 more5 on by (simp_all add: s7_def)
  have "user_part s7 = user_part s2" by (rule user_part_timer [OF s7(1)])
  moreover have "user_part s2 = user_part (idt_install (env_idt_addr env) s)"
    unfolding s2_def s1_def user_part_isr by (rule user_part_timer) simp
  ultimately have "user_part s7 = user_part s" by simp
  note u = user_part_fields [OF this]
  have idt7: "idt s7 = idt s2" using s7(1) by (cases s7; cases s2) simp
  note i = shell_init_history [OF assms(1) [folded u(1)]]
  obtain cs where cs: "memory_print_info (shell_init s7) = emit cs (shell_init s7)" using print_info_emits by blast
  have heap6: "\<exists>bs. tidy s6 bs" using heap5 s6 by (simp add: tidy_def heap_inv_def)
  have "mem_info s3 = mem_info s" by (simp add: s3_def s2_def s1_def)
  then have "bitmap_place s6 = (find_location ((ms div PAGE_SIZE + 31) div 32 * 4) (entries (mem_info s)), ms div PAGE_SIZE)"
    using pmm_init_place [of mb ms s3] s6(8) by (simp add: s5_def s4_def)
  then have "bitmap_clear ms (entries (mem_info s)) \<Longrightarrow> bitmap_apart s6" by (rule bitmap_clear_apart [rotated])
  moreover have "machine_part (shell_init s7) = machine_part s6" using i(4) s7(2) by simp
  ultimately have apart: "bitmap_clear ms (entries (mem_info s)) \<Longrightarrow> bitmap_apart (shell_init s7)"
    using bitmap_apart_machine by blast
  have "boot_devices env mb ms s = Inr (emit cs (shell_init s7))"
    unfolding boot_devices_def Let_def
    by (simp add: s1_def [symmetric] s2_def [symmetric] s3_def [symmetric] s4_def [symmetric] s5_def [symmetric]
        s6(1) s7_def [symmetric] cs)
  moreover have "shell_ready (shell_init s7)"
    using i heap6 s6(2) s7(2) by (simp add: shell_ready_machine tidy_def heap_inv_def machine_part_def)
  moreover have "timer_frequency (shell_init s7) = 100"
    using i(4) s7(2) s6(2) by (simp add: machine_part_def)
  moreover have "idt (emit cs (shell_init s7)) = idt s2" using i(6) idt7 by (simp add: emit_def)
  moreover have "timer_frequency (emit cs (shell_init s7)) = timer_frequency (shell_init s7)" by (simp add: emit_def)
  ultimately show ?thesis
    using gates i u s7(3) apart keeps_emit [of "shell_init s7" cs] unfolding keeps_shell_def by auto
qed

section \<open>The run of the kernel\<close>

lemma getchar_ready:
  assumes "shell_ready s" and "stream pending s = c # cs"
  shows "\<exists>rest s'. keyboard_getchar pending s = Some (c, rest, s') \<and> stream rest s' = cs \<and>
    shell_ready s' \<and> history_lines s' = history_lines s \<and> bitmap_apart s' = bitmap_apart s"
proof -
  have "kb_valid s" using assms(1) by (simp add: shell_ready_def shell_ok_def)
  from getchar_stream [OF this, of pending] obtain rest s' where g: "keyboard_getchar pending s = Some (c, rest, s')"
    "stream rest s' = cs" "kb_valid s'" unfolding assms(2) by auto
  note f = shell_fields_of_more [OF getchar_more [OF g(1)]]
  have m: "machine_part s' = machine_part s" by (rule getchar_keeps [OF _ _ g(1)]) simp_all
  have "shell_ready s'" "history_lines s' = history_lines s"
    using assms(1) g(3) f by (simp_all add: shell_ready_machine m shell_ok_def history_ok_def history_lines_def)
  then show ?thesis using g bitmap_apart_machine [OF m] by blast
qed

text \<open>The size of the region that \<open>choose_memory\<close> gives to the frame allocator.\<close>

definition chosen_size :: "memory_map_entry list \<Rightarrow> u64" where
  "chosen_size es =
    (let (memory_size, memory_base) = fold larger_region es (0, 0)
     in if memory_base = 0 \<or> memory_size < 2 * 1024 * 1024 then 64 * 1024 * 1024 else memory_size)"

lemma choose_memory_emits: "\<exists>mb cs. choose_memory s = (mb, chosen_size (entries (mem_info s)), emit cs s)"
proof -
  have "snd (snd (choose_memory s)) \<in> range (\<lambda>cs. emit cs s)"
    by (simp add: choose_memory_def case_prod_beta Let_def emit_emit)
  moreover have "fst (snd (choose_memory s)) = chosen_size (entries (mem_info s))"
    by (simp add: choose_memory_def chosen_size_def find_available_memory_region_def memory_get_info_def case_prod_beta Let_def)
  ultimately show ?thesis by (cases "choose_memory s") auto
qed

text \<open>The memory map that \<open>memory_detect\<close> finds in the tags \<open>ts\<close>.\<close>

definition detected_map :: "u32 \<Rightarrow> mem \<Rightarrow> (u64 \<times> u64 list) list \<Rightarrow> memory_map_entry list" where
  "detected_map mbi m ts = (if mbi = 0 then [] else take 256 (concat (map (map_of_tag m) ts)))"

text \<open>The bitmap for that map, where \<open>pmm_init\<close> puts it, is clear of the heap.\<close>

definition detected_clear :: "u32 \<Rightarrow> mem \<Rightarrow> (u64 \<times> u64 list) list \<Rightarrow> bool" where
  "detected_clear mbi m ts = (let es = detected_map mbi m ts in bitmap_clear (chosen_size es) es)"

lemma detect_returns:
  assumes "mbi AND 7 = 0" and "mbi = 0 \<or> tag_chain (ram s) (ucast mbi + ucast (load32 (ram s) (ucast mbi))) (ucast (mbi + 8)) ts"
  shows "\<exists>s'. memory_detect mbi s = Some s' \<and> memory.more s' = memory.more s \<and>
    entries (mem_info s') = detected_map mbi (ram s) ts"
proof (cases "mbi = 0")
  case True
  then show ?thesis by (simp add: memory_detect_def Let_def detected_map_def)
next
  case False
  then obtain s' where "memory_detect mbi s = Some s'" "entries (mem_info s') = detected_map mbi (ram s) ts"
    using memory_detect_spec [OF _ assms(1), of s ts] assms(2) by (auto simp: detected_map_def memory_get_info_def)
  then show ?thesis using detect_more by blast
qed

lemma buffers_more:
  assumes "memory.more s' = memory.more s"
  shows "buffers_ok s' = buffers_ok s" "stream p s' = stream p s" "idt s' = idt s"
proof -
  note m = memory_more_fields [OF assms]
  show "buffers_ok s' = buffers_ok s" "stream p s' = stream p s"
    using user_part_fields [OF user_part_timer [OF m(2)]] by simp_all
  show "idt s' = idt s" using m(2) by (cases s; cases s') simp
qed

text \<open>What \<open>kernel_main\<close> does from the question on, whether to run the tests.\<close>

definition after_prompt ::
  "'a test_suite \<Rightarrow> 'a memtest \<Rightarrow> u8 list \<Rightarrow> 'a shell_scheme \<Rightarrow> 'a shell_scheme outcome option" where
  "after_prompt suite memtest pending s =
    Option.bind (keyboard_getchar pending (emit boot_prompt s)) (\<lambda>(response, pending, s).
      let s = emit [Write [newline, newline]] s
      in Option.bind
           (if response = 115 \<or> response = 83
            then map_option (map_sum id (map_prod id
                   (emit [Write (newline # lit ''Tests completados.'' @ [newline, newline])])))
                   (suite pending s)
            else Some (Inr (pending, s)))
           (\<lambda>r. case r of
              Inl e \<Rightarrow> Some (Fault e)
            | Inr (pending, s) \<Rightarrow> map_option (case_sum Fault Halted) (shell_run memtest pending s)))"

text \<open>Up to the question.\<close>

lemma kernel_reaches_prompt:
  assumes "buffers_ok s" and "length (idt s) = 256" and "mbi AND 7 = 0"
    and "mbi = 0 \<or> tag_chain (ram s) (ucast mbi + ucast (load32 (ram s) (ucast mbi))) (ucast (mbi + 8)) ts"
  shows "\<exists>s1. kernel_main env suite memtest MULTIBOOT2_BOOTLOADER_MAGIC mbi pending s =
      after_prompt suite memtest pending s1 \<and>
    shell_ready s1 \<and> history_lines s1 = [] \<and> (\<forall>p. stream p s1 = stream p s) \<and>
    (detected_clear mbi (ram s) ts \<longrightarrow> bitmap_apart s1)"
proof -
  obtain cs where d: "debug_multiboot_info MULTIBOOT2_BOOTLOADER_MAGIC mbi (emit kernel_banner s) = Some (emit cs (emit kernel_banner s))"
    using debug_prints [of mbi MULTIBOOT2_BOOTLOADER_MAGIC "emit kernel_banner s" ts] assms(4) by auto
  define s2 where "s2 = emit [Color VGA_COLOR_LIGHT_GREEN, Line ''[OK] Modo largo activado (64-bit)'',
                         Line ''[OK] Paginacion configurada'', Line ''[OK] Terminal VGA inicializado'',
                         Line ''[..] Detectando memoria...''] (emit [Line ''''] (emit cs (emit kernel_banner s)))"
  have "ram s2 = ram s" and m2: "memory.more s2 = memory.more s" by (simp_all add: s2_def)
  then obtain s3 where s3: "memory_detect mbi s2 = Some s3" "memory.more s3 = memory.more s"
    "entries (mem_info s3) = detected_map mbi (ram s) ts"
    using detect_returns [OF assms(3), of s2 ts] assms(4) by auto
  define ms where "ms = chosen_size (entries (mem_info s3))"
  obtain mb ds where c: "choose_memory s3 = (mb, ms, emit ds s3)" using choose_memory_emits ms_def by blast
  have "memory.more (emit ds s3) = memory.more s" using s3(2) by simp
  note b = buffers_more [OF this]
  obtain s1 where s1: "boot_devices env mb ms (emit ds s3) = Inr s1" "shell_ready s1" "history_lines s1 = []"
    "\<forall>p. stream p s1 = stream p s"
    "detected_clear mbi (ram s) ts \<Longrightarrow> bitmap_apart s1"
    using boot_devices_spec [of "emit ds s3" env mb ms] assms(1,2) b
    by (auto simp: detected_clear_def ms_def s3(3) Let_def)
  have "kernel_main env suite memtest MULTIBOOT2_BOOTLOADER_MAGIC mbi pending s =
      after_prompt suite memtest pending s1"
    unfolding kernel_main_def after_prompt_def d Option.bind.simps Let_def s2_def [symmetric]
    by (simp add: assms(3) s3(1) c s1(1))
  then show ?thesis using s1(2-5) by blast
qed

section \<open>Properties\<close>


lemma boot_shell_buffers: "buffers_ok boot_shell" "length (idt boot_shell) = 256"
proof -
  show "buffers_ok boot_shell"
    using boot_shell_ok(1) by (simp add: shell_ok_def history_ok_def buffers_ok_def boot_shell_simps)
  show "length (idt boot_shell) = 256" by (simp add: boot_shell_def kernel.defs boot_kernel_simps)
qed

definition boot_env_0 :: boot_env where
  "boot_env_0 = \<lparr>env_device = \<lambda>_ _. 0, env_idt_addr = 0x150000, env_isr_addr = \<lambda>i. 0x100000 + of_nat i,
    env_irq_addr = \<lambda>i. 0x200000 + of_nat i\<rparr>"


text \<open>
  C9: The whole kernel, from the boot loader to \<open>halt\<close>. With the right signature and an aligned
  pointer that is null or leads to a well-formed structure, the kernel boots and asks whether to
  run the tests; after any answer but \<open>s\<close> and \<open>S\<close> it is the shell over the characters that
  follow, with the memory tests as its command \<open>memtest\<close> where the memory map keeps the frame bitmap
  clear of the heap: it halts, with interrupts off, exactly when the session does, and otherwise
  runs for ever. With interrupts taken where the code waits for them it never faults, and it never returns
  to the boot loader.
\<close>

theorem kernel_boots_to_shell:
  assumes "buffers_ok s" and "length (idt s) = 256" and "mbi AND 7 = 0"
    and "mbi = 0 \<or> tag_chain (ram s) (ucast mbi + ucast (load32 (ram s) (ucast mbi))) (ucast (mbi + 8)) ts"
    and "stream pending s = c # cs" and "c \<noteq> 115" and "c \<noteq> 83"
    and "detected_clear mbi (ram s) ts \<or> (\<forall>l \<in> set (typed_lines cs). take 1 (tokens l) \<noteq> [lit ''memtest''])"
  shows "case shell_session (typed_lines cs) [] of
      None \<Rightarrow> kernel_main env suite shell_cmd_memtest MULTIBOOT2_BOOTLOADER_MAGIC mbi pending s = None
    | Some ls \<Rightarrow> \<exists>s'. kernel_main env suite shell_cmd_memtest MULTIBOOT2_BOOTLOADER_MAGIC mbi pending s = Some (Halted s') \<and>
        \<not> interrupts_on s' \<and> history_lines s' = ls"
proof -
  obtain s1 where s1: "kernel_main env suite shell_cmd_memtest MULTIBOOT2_BOOTLOADER_MAGIC mbi pending s =
      after_prompt suite shell_cmd_memtest pending s1"
    "shell_ready s1" "history_lines s1 = []" "stream pending s1 = c # cs" "detected_clear mbi (ram s) ts \<Longrightarrow> bitmap_apart s1"
    using kernel_reaches_prompt [OF assms(1-4), of env suite shell_cmd_memtest pending] assms(5) by auto
  have p: "shell_ready (emit boot_prompt s1)" "history_lines (emit boot_prompt s1) = []"
    "stream pending (emit boot_prompt s1) = c # cs" "bitmap_apart (emit boot_prompt s1) = bitmap_apart s1"
    using keeps_emit [of s1 boot_prompt] s1(2-4) by (simp_all add: keeps_shell_def)
  obtain rest s2 where s2: "keyboard_getchar pending (emit boot_prompt s1) = Some (c, rest, s2)" "stream rest s2 = cs"
    "shell_ready s2" "history_lines s2 = []" "bitmap_apart s2 = bitmap_apart s1"
    using getchar_ready [OF p(1,3)] p(2,4) by auto
  define s3 where "s3 = emit shell_greeting (emit [Write [newline, newline]] s2)"
  have k: "keeps_shell s2 s3" by (simp add: s3_def)
  have "kernel_main env suite shell_cmd_memtest MULTIBOOT2_BOOTLOADER_MAGIC mbi pending s =
      map_option (case_sum Fault Halted) (shell_loop shell_cmd_memtest rest s3)"
    using s1(1) s2(1) assms(6,7) by (simp add: after_prompt_def shell_run_def s3_def)
  moreover have s3: "shell_ready s3" "history_lines s3 = []" "stream rest s3 = cs" "bitmap_apart s3 = bitmap_apart s1"
    using k s2 by (simp_all add: keeps_shell_def)
  moreover have "bitmap_apart s3 \<or> (\<forall>l \<in> set (typed_lines (stream rest s3)). take 1 (tokens l) \<noteq> [lit ''memtest''])"
    using s3(3,4) s1(5) assms(8) by auto
  ultimately show ?thesis
    using memtest_session [of s3 rest] by (auto split: option.splits)
qed

text \<open>The keys \<open>n\<close>, then \<open>memtest\<close>, Enter, \<open>halt\<close>, Enter.\<close>

text \<open>The state in which the boot loader leaves the kernel, with the counters of the tests.\<close>

definition loaded_tests :: tests where
  "loaded_tests = shell.extend boot_shell \<lparr>tests_passed = 0, tests_failed = 0\<rparr>"

lemma extend_buffers: "buffers_ok (shell.extend s x) = buffers_ok s" "idt (shell.extend s x) = idt s"
  by (cases s; simp add: shell.defs buffers_ok_def kb_valid_def)+

lemma loaded_tests:
  "buffers_ok loaded_tests" "length (idt loaded_tests) = 256" "stream pending loaded_tests = typed False False pending"
  using boot_shell_buffers boot_stream by (simp_all add: loaded_tests_def extend_shell extend_buffers)

lemma mbi_clear: "detected_clear 0x1000 mbi_ram [(0x1008, [0x1018])]"
  by (simp add: detected_clear_def detected_map_def map_of_tag_def tag_types mbi_loads bitmap_clear_def chosen_size_def
      larger_region_def MULTIBOOT_MEMORY_AVAILABLE_def PAGE_SIZE_def)

theorem kernel_boots_to_shell_witness:
  "\<exists>s'. kernel_main boot_env_0 (\<lambda>p s. Some (Inr (p, s))) shell_cmd_memtest MULTIBOOT2_BOOTLOADER_MAGIC 0x1000
      (0x31 # memtest_keys) (loaded_tests\<lparr>ram := mbi_ram\<rparr>) = Some (Halted s') \<and>
    \<not> interrupts_on s' \<and> history_lines s' = [lit ''memtest'', lit ''halt'']"
proof -
  let ?s = "loaded_tests\<lparr>ram := mbi_ram\<rparr>"
  have m: "memory.more ?s = memory.more loaded_tests" by simp
  have chain: "(0x1000 :: u32) = 0 \<or> tag_chain (ram ?s) (ucast (0x1000 :: u32) + ucast (load32 (ram ?s) (ucast (0x1000 :: u32))))
      (ucast (0x1000 + 8 :: u32)) [(0x1008, [0x1018])]"
    using mbi_chain by (simp add: mbi_loads)
  have "typed False False (0x31 # memtest_keys) = 110 # typed False False memtest_keys"
    by (simp add: key_char_def scancode_to_ascii_def lit_def)
  then have st: "stream (0x31 # memtest_keys) ?s = 110 # lit ''memtest'' @ newline # lit ''halt'' @ [newline]"
    unfolding buffers_more(2) [OF m] loaded_tests(3) memtest_halt(1) .
  have b: "buffers_ok ?s" "length (idt ?s) = 256" using loaded_tests(1,2) buffers_more [OF m] by simp_all
  have clear: "detected_clear 0x1000 (ram ?s) [(0x1008, [0x1018])]" using mbi_clear by simp
  show ?thesis
    using kernel_boots_to_shell [OF b _ chain st _ _ disjI1 [OF clear], of boot_env_0 "\<lambda>p s. Some (Inr (p, s))"]
    unfolding memtest_halt(2) memtest_halt_session by simp
qed




text \<open>
  With a wrong signature or a pointer that is not aligned the kernel prints and returns to
  the boot loader; it touches nothing but the screen.
\<close>

theorem kernel_rejects_loader:
  assumes "signature \<noteq> MULTIBOOT2_BOOTLOADER_MAGIC \<or> mbi AND 7 \<noteq> 0"
  shows "\<exists>cs. kernel_main env suite memtest signature mbi pending s = Some (Returned (emit cs s))"
proof -
  obtain cs where "debug_multiboot_info signature mbi (emit kernel_banner s) = Some (emit cs (emit kernel_banner s))"
    using debug_prints [of mbi signature "emit kernel_banner s"] assms by auto
  then have "kernel_main env suite memtest signature mbi pending s \<in> range (\<lambda>cs. Some (Returned (emit cs s)))"
    using assms by (auto simp: kernel_main_def Let_def emit_emit)
  then show ?thesis by blast
qed

theorem kernel_rejects_loader_witness:
  "\<exists>cs. kernel_main boot_env_0 (\<lambda>p s. Some (Inr (p, s))) (\<lambda>s. Some (Inr s)) 0x2BADB002 0x1000 [] boot_shell = Some (Returned (emit cs boot_shell))"
  by (rule kernel_rejects_loader) (simp add: MULTIBOOT2_BOOTLOADER_MAGIC_def)

end
