(* ===== verification/Struct_Layout.thy ===== *)
theory Struct_Layout
  imports Multiboot Isr
begin

text \<open>
  The structures that the C code lays over memory: the boot loader's tags and memory map
  (\<open>multiboot_header.h\<close>), the block header of the heap (\<open>kmalloc.h\<close>), the entries of the
  descriptor table (\<open>kernel.c\<close>) and the frame of an interrupt (\<open>isr.c\<close>), as declarations, and
  the rules of the x86-64 ABI that place their members. The rest of the development reads memory
  at byte offsets; here those offsets are derived from the declarations.
\<close>

section \<open>C types and their layout\<close>

text \<open>
  \<open>Scalar n\<close> is an integer or pointer of \<open>n\<close> bytes; a member with an empty name is an anonymous
  structure or union, whose members belong to the enclosing one.
\<close>

datatype ctype =
    Scalar nat
  | Array ctype nat
  | Struct "(string \<times> ctype) list"
  | Packed "(string \<times> ctype) list"
  | Union "(string \<times> ctype) list"

definition round_up :: "nat \<Rightarrow> nat \<Rightarrow> nat" where
  "round_up k a = (k + a - 1) div a * a"

fun align_of :: "ctype \<Rightarrow> nat" and max_align :: "(string \<times> ctype) list \<Rightarrow> nat" where
  "align_of (Scalar n) = n"
| "align_of (Array t n) = align_of t"
| "align_of (Struct fs) = max_align fs"
| "align_of (Packed fs) = 1"
| "align_of (Union fs) = max_align fs"
| "max_align [] = 1"
| "max_align ((x, t) # fs) = max (align_of t) (max_align fs)"

text \<open>\<open>end_of\<close>, \<open>packed_end\<close> and \<open>max_size\<close> are the ends of the members, placed from an offset on.\<close>

fun size_of :: "ctype \<Rightarrow> nat" and end_of :: "nat \<Rightarrow> (string \<times> ctype) list \<Rightarrow> nat"
  and packed_end :: "nat \<Rightarrow> (string \<times> ctype) list \<Rightarrow> nat" and max_size :: "(string \<times> ctype) list \<Rightarrow> nat" where
  "size_of (Scalar n) = n"
| "size_of (Array t n) = n * size_of t"
| "size_of (Struct fs) = round_up (end_of 0 fs) (max_align fs)"
| "size_of (Packed fs) = packed_end 0 fs"
| "size_of (Union fs) = round_up (max_size fs) (max_align fs)"
| "end_of k [] = k"
| "end_of k ((x, t) # fs) = end_of (round_up k (align_of t) + size_of t) fs"
| "packed_end k [] = k"
| "packed_end k ((x, t) # fs) = packed_end (k + size_of t) fs"
| "max_size [] = 0"
| "max_size ((x, t) # fs) = max (size_of t) (max_size fs)"

text \<open>\<open>offsetof\<close>, with the type of the member.\<close>

datatype placing = Aligned | Tight | Overlaid

fun place :: "placing \<Rightarrow> nat \<Rightarrow> ctype \<Rightarrow> nat" where
  "place Aligned k t = round_up k (align_of t)"
| "place Tight k t = k"
| "place Overlaid k t = 0"

fun member :: "ctype \<Rightarrow> string \<Rightarrow> (nat \<times> ctype) option"
  and member_of :: "placing \<Rightarrow> nat \<Rightarrow> (string \<times> ctype) list \<Rightarrow> string \<Rightarrow> (nat \<times> ctype) option" where
  "member (Scalar n) x = None"
| "member (Array t n) x = None"
| "member (Struct fs) x = member_of Aligned 0 fs x"
| "member (Packed fs) x = member_of Tight 0 fs x"
| "member (Union fs) x = member_of Overlaid 0 fs x"
| "member_of p k [] x = None"
| "member_of p k ((y, t) # fs) x =
    (let a = place p k t; rest = member_of p (a + size_of t) fs x
     in if y = x then Some (a, t)
        else if y = [] then (case member t x of Some (b, u) \<Rightarrow> Some (a + b, u) | None \<Rightarrow> rest)
        else rest)"

section \<open>The declarations\<close>

definition multiboot_uint8_t :: ctype where "multiboot_uint8_t = Scalar 1"
definition multiboot_uint16_t :: ctype where "multiboot_uint16_t = Scalar 2"
definition multiboot_uint32_t :: ctype where "multiboot_uint32_t = Scalar 4"
definition multiboot_uint64_t :: ctype where "multiboot_uint64_t = Scalar 8"

abbreviation char_t :: ctype where "char_t \<equiv> Scalar 1"
abbreviation bool_t :: ctype where "bool_t \<equiv> Scalar 1"
abbreviation uint8_t :: ctype where "uint8_t \<equiv> Scalar 1"
abbreviation uint16_t :: ctype where "uint16_t \<equiv> Scalar 2"
abbreviation uint32_t :: ctype where "uint32_t \<equiv> Scalar 4"
abbreviation uint64_t :: ctype where "uint64_t \<equiv> Scalar 8"
abbreviation size_t :: ctype where "size_t \<equiv> Scalar 8"
abbreviation pointer_t :: ctype where "pointer_t \<equiv> Scalar 8"

definition multiboot_header :: ctype where
  "multiboot_header = Struct
    [(''magic'', multiboot_uint32_t), (''architecture'', multiboot_uint32_t),
     (''header_length'', multiboot_uint32_t), (''checksum'', multiboot_uint32_t)]"

definition multiboot_header_tag :: ctype where
  "multiboot_header_tag = Struct
    [(''type'', multiboot_uint16_t), (''flags'', multiboot_uint16_t),
     (''size'', multiboot_uint32_t)]"

definition multiboot_header_tag_information_request :: ctype where
  "multiboot_header_tag_information_request = Struct
    [(''type'', multiboot_uint16_t), (''flags'', multiboot_uint16_t),
     (''size'', multiboot_uint32_t), (''requests'', Array multiboot_uint32_t 0)]"

definition multiboot_header_tag_address :: ctype where
  "multiboot_header_tag_address = Struct
    [(''type'', multiboot_uint16_t), (''flags'', multiboot_uint16_t),
     (''size'', multiboot_uint32_t), (''header_addr'', multiboot_uint32_t),
     (''load_addr'', multiboot_uint32_t), (''load_end_addr'', multiboot_uint32_t),
     (''bss_end_addr'', multiboot_uint32_t)]"

definition multiboot_header_tag_entry_address :: ctype where
  "multiboot_header_tag_entry_address = Struct
    [(''type'', multiboot_uint16_t), (''flags'', multiboot_uint16_t),
     (''size'', multiboot_uint32_t), (''entry_addr'', multiboot_uint32_t)]"

definition multiboot_header_tag_console_flags :: ctype where
  "multiboot_header_tag_console_flags = Struct
    [(''type'', multiboot_uint16_t), (''flags'', multiboot_uint16_t),
     (''size'', multiboot_uint32_t), (''console_flags'', multiboot_uint32_t)]"

definition multiboot_header_tag_framebuffer :: ctype where
  "multiboot_header_tag_framebuffer = Struct
    [(''type'', multiboot_uint16_t), (''flags'', multiboot_uint16_t),
     (''size'', multiboot_uint32_t), (''width'', multiboot_uint32_t),
     (''height'', multiboot_uint32_t), (''depth'', multiboot_uint32_t)]"

definition multiboot_header_tag_module_align :: ctype where
  "multiboot_header_tag_module_align = Struct
    [(''type'', multiboot_uint16_t), (''flags'', multiboot_uint16_t),
     (''size'', multiboot_uint32_t)]"

definition multiboot_header_tag_relocatable :: ctype where
  "multiboot_header_tag_relocatable = Struct
    [(''type'', multiboot_uint16_t), (''flags'', multiboot_uint16_t),
     (''size'', multiboot_uint32_t), (''min_addr'', multiboot_uint32_t),
     (''max_addr'', multiboot_uint32_t), (''align'', multiboot_uint32_t),
     (''preference'', multiboot_uint32_t)]"

definition multiboot_color :: ctype where
  "multiboot_color = Struct
    [(''red'', multiboot_uint8_t), (''green'', multiboot_uint8_t), (''blue'', multiboot_uint8_t)]"

definition multiboot_mmap_entry :: ctype where
  "multiboot_mmap_entry = Struct
    [(''addr'', multiboot_uint64_t), (''len'', multiboot_uint64_t),
     (''type'', multiboot_uint32_t), (''zero'', multiboot_uint32_t)]"

definition multiboot_tag :: ctype where
  "multiboot_tag = Struct
    [(''type'', multiboot_uint32_t), (''size'', multiboot_uint32_t)]"

definition multiboot_tag_string :: ctype where
  "multiboot_tag_string = Struct
    [(''type'', multiboot_uint32_t), (''size'', multiboot_uint32_t),
     (''string'', Array char_t 0)]"

definition multiboot_tag_module :: ctype where
  "multiboot_tag_module = Struct
    [(''type'', multiboot_uint32_t), (''size'', multiboot_uint32_t),
     (''mod_start'', multiboot_uint32_t), (''mod_end'', multiboot_uint32_t),
     (''cmdline'', Array char_t 0)]"

definition multiboot_tag_basic_meminfo :: ctype where
  "multiboot_tag_basic_meminfo = Struct
    [(''type'', multiboot_uint32_t), (''size'', multiboot_uint32_t),
     (''mem_lower'', multiboot_uint32_t), (''mem_upper'', multiboot_uint32_t)]"

definition multiboot_tag_bootdev :: ctype where
  "multiboot_tag_bootdev = Struct
    [(''type'', multiboot_uint32_t), (''size'', multiboot_uint32_t),
     (''biosdev'', multiboot_uint32_t), (''slice'', multiboot_uint32_t),
     (''part'', multiboot_uint32_t)]"

definition multiboot_tag_mmap :: ctype where
  "multiboot_tag_mmap = Struct
    [(''type'', multiboot_uint32_t), (''size'', multiboot_uint32_t),
     (''entry_size'', multiboot_uint32_t), (''entry_version'', multiboot_uint32_t),
     (''entries'', Array multiboot_mmap_entry 0)]"

definition multiboot_vbe_info_block :: ctype where
  "multiboot_vbe_info_block = Struct
    [(''external_specification'', Array multiboot_uint8_t 512)]"

definition multiboot_vbe_mode_info_block :: ctype where
  "multiboot_vbe_mode_info_block = Struct
    [(''external_specification'', Array multiboot_uint8_t 256)]"

definition multiboot_tag_vbe :: ctype where
  "multiboot_tag_vbe = Struct
    [(''type'', multiboot_uint32_t), (''size'', multiboot_uint32_t),
     (''vbe_mode'', multiboot_uint16_t), (''vbe_interface_seg'', multiboot_uint16_t),
     (''vbe_interface_off'', multiboot_uint16_t), (''vbe_interface_len'', multiboot_uint16_t),
     (''vbe_control_info'', multiboot_vbe_info_block),
     (''vbe_mode_info'', multiboot_vbe_mode_info_block)]"

definition multiboot_tag_framebuffer_common :: ctype where
  "multiboot_tag_framebuffer_common = Struct
    [(''type'', multiboot_uint32_t), (''size'', multiboot_uint32_t),
     (''framebuffer_addr'', multiboot_uint64_t), (''framebuffer_pitch'', multiboot_uint32_t),
     (''framebuffer_width'', multiboot_uint32_t), (''framebuffer_height'', multiboot_uint32_t),
     (''framebuffer_bpp'', multiboot_uint8_t), (''framebuffer_type'', multiboot_uint8_t),
     (''reserved'', multiboot_uint16_t)]"

definition multiboot_tag_framebuffer :: ctype where
  "multiboot_tag_framebuffer = Struct
    [(''common'', multiboot_tag_framebuffer_common),
     ('''', Union [('''', Struct [(''framebuffer_palette_num_colors'', multiboot_uint16_t),
         (''framebuffer_palette'', Array multiboot_color 0)]),
       ('''', Struct [(''framebuffer_red_field_position'', multiboot_uint8_t),
         (''framebuffer_red_mask_size'', multiboot_uint8_t),
         (''framebuffer_green_field_position'', multiboot_uint8_t),
         (''framebuffer_green_mask_size'', multiboot_uint8_t),
         (''framebuffer_blue_field_position'', multiboot_uint8_t),
         (''framebuffer_blue_mask_size'', multiboot_uint8_t)])])]"

definition multiboot_tag_elf_sections :: ctype where
  "multiboot_tag_elf_sections = Struct
    [(''type'', multiboot_uint32_t), (''size'', multiboot_uint32_t),
     (''num'', multiboot_uint32_t), (''entsize'', multiboot_uint32_t),
     (''shndx'', multiboot_uint32_t), (''sections'', Array char_t 0)]"

definition multiboot_tag_apm :: ctype where
  "multiboot_tag_apm = Struct
    [(''type'', multiboot_uint32_t), (''size'', multiboot_uint32_t),
     (''version'', multiboot_uint16_t), (''cseg'', multiboot_uint16_t),
     (''offset'', multiboot_uint32_t), (''cseg_16'', multiboot_uint16_t),
     (''dseg'', multiboot_uint16_t), (''flags'', multiboot_uint16_t),
     (''cseg_len'', multiboot_uint16_t), (''cseg_16_len'', multiboot_uint16_t),
     (''dseg_len'', multiboot_uint16_t)]"

definition multiboot_tag_efi32 :: ctype where
  "multiboot_tag_efi32 = Struct
    [(''type'', multiboot_uint32_t), (''size'', multiboot_uint32_t),
     (''pointer'', multiboot_uint32_t)]"

definition multiboot_tag_efi64 :: ctype where
  "multiboot_tag_efi64 = Struct
    [(''type'', multiboot_uint32_t), (''size'', multiboot_uint32_t),
     (''pointer'', multiboot_uint64_t)]"

definition multiboot_tag_smbios :: ctype where
  "multiboot_tag_smbios = Struct
    [(''type'', multiboot_uint32_t), (''size'', multiboot_uint32_t),
     (''major'', multiboot_uint8_t), (''minor'', multiboot_uint8_t),
     (''reserved'', Array multiboot_uint8_t 6), (''tables'', Array multiboot_uint8_t 0)]"

definition multiboot_tag_old_acpi :: ctype where
  "multiboot_tag_old_acpi = Struct
    [(''type'', multiboot_uint32_t), (''size'', multiboot_uint32_t),
     (''rsdp'', Array multiboot_uint8_t 0)]"

definition multiboot_tag_new_acpi :: ctype where
  "multiboot_tag_new_acpi = Struct
    [(''type'', multiboot_uint32_t), (''size'', multiboot_uint32_t),
     (''rsdp'', Array multiboot_uint8_t 0)]"

definition multiboot_tag_network :: ctype where
  "multiboot_tag_network = Struct
    [(''type'', multiboot_uint32_t), (''size'', multiboot_uint32_t),
     (''dhcpack'', Array multiboot_uint8_t 0)]"

definition multiboot_tag_efi_mmap :: ctype where
  "multiboot_tag_efi_mmap = Struct
    [(''type'', multiboot_uint32_t), (''size'', multiboot_uint32_t),
     (''descr_size'', multiboot_uint32_t), (''descr_vers'', multiboot_uint32_t),
     (''efi_mmap'', Array multiboot_uint8_t 0)]"

definition multiboot_tag_efi32_ih :: ctype where
  "multiboot_tag_efi32_ih = Struct
    [(''type'', multiboot_uint32_t), (''size'', multiboot_uint32_t),
     (''pointer'', multiboot_uint32_t)]"

definition multiboot_tag_efi64_ih :: ctype where
  "multiboot_tag_efi64_ih = Struct
    [(''type'', multiboot_uint32_t), (''size'', multiboot_uint32_t),
     (''pointer'', multiboot_uint64_t)]"

definition multiboot_tag_load_base_addr :: ctype where
  "multiboot_tag_load_base_addr = Struct
    [(''type'', multiboot_uint32_t), (''size'', multiboot_uint32_t),
     (''load_base_addr'', multiboot_uint32_t)]"

text \<open>The types of the tags, beside those that \<open>Multiboot\<close> has.\<close>

definition MULTIBOOT_TAG_TYPE_MODULE :: u32 where "MULTIBOOT_TAG_TYPE_MODULE = 3"
definition MULTIBOOT_TAG_TYPE_BOOTDEV :: u32 where "MULTIBOOT_TAG_TYPE_BOOTDEV = 5"
definition MULTIBOOT_TAG_TYPE_VBE :: u32 where "MULTIBOOT_TAG_TYPE_VBE = 7"
definition MULTIBOOT_TAG_TYPE_FRAMEBUFFER :: u32 where "MULTIBOOT_TAG_TYPE_FRAMEBUFFER = 8"
definition MULTIBOOT_TAG_TYPE_ELF_SECTIONS :: u32 where "MULTIBOOT_TAG_TYPE_ELF_SECTIONS = 9"
definition MULTIBOOT_TAG_TYPE_APM :: u32 where "MULTIBOOT_TAG_TYPE_APM = 10"
definition MULTIBOOT_TAG_TYPE_EFI32 :: u32 where "MULTIBOOT_TAG_TYPE_EFI32 = 11"
definition MULTIBOOT_TAG_TYPE_EFI64 :: u32 where "MULTIBOOT_TAG_TYPE_EFI64 = 12"
definition MULTIBOOT_TAG_TYPE_SMBIOS :: u32 where "MULTIBOOT_TAG_TYPE_SMBIOS = 13"
definition MULTIBOOT_TAG_TYPE_ACPI_OLD :: u32 where "MULTIBOOT_TAG_TYPE_ACPI_OLD = 14"
definition MULTIBOOT_TAG_TYPE_ACPI_NEW :: u32 where "MULTIBOOT_TAG_TYPE_ACPI_NEW = 15"
definition MULTIBOOT_TAG_TYPE_NETWORK :: u32 where "MULTIBOOT_TAG_TYPE_NETWORK = 16"
definition MULTIBOOT_TAG_TYPE_EFI_MMAP :: u32 where "MULTIBOOT_TAG_TYPE_EFI_MMAP = 17"
definition MULTIBOOT_TAG_TYPE_EFI_BS :: u32 where "MULTIBOOT_TAG_TYPE_EFI_BS = 18"
definition MULTIBOOT_TAG_TYPE_EFI32_IH :: u32 where "MULTIBOOT_TAG_TYPE_EFI32_IH = 19"
definition MULTIBOOT_TAG_TYPE_EFI64_IH :: u32 where "MULTIBOOT_TAG_TYPE_EFI64_IH = 20"
definition MULTIBOOT_TAG_TYPE_LOAD_BASE_ADDR :: u32 where "MULTIBOOT_TAG_TYPE_LOAD_BASE_ADDR = 21"

text \<open>The structure of each type of tag.\<close>

definition tag_structs :: "(u32 \<times> ctype) list" where
  "tag_structs =
    [(MULTIBOOT_TAG_TYPE_END, multiboot_tag), (MULTIBOOT_TAG_TYPE_CMDLINE, multiboot_tag_string),
     (MULTIBOOT_TAG_TYPE_BOOT_LOADER_NAME, multiboot_tag_string), (MULTIBOOT_TAG_TYPE_MODULE, multiboot_tag_module),
     (MULTIBOOT_TAG_TYPE_BASIC_MEMINFO, multiboot_tag_basic_meminfo),
     (MULTIBOOT_TAG_TYPE_BOOTDEV, multiboot_tag_bootdev), (MULTIBOOT_TAG_TYPE_MMAP, multiboot_tag_mmap),
     (MULTIBOOT_TAG_TYPE_VBE, multiboot_tag_vbe), (MULTIBOOT_TAG_TYPE_FRAMEBUFFER, multiboot_tag_framebuffer),
     (MULTIBOOT_TAG_TYPE_ELF_SECTIONS, multiboot_tag_elf_sections), (MULTIBOOT_TAG_TYPE_APM, multiboot_tag_apm),
     (MULTIBOOT_TAG_TYPE_EFI32, multiboot_tag_efi32), (MULTIBOOT_TAG_TYPE_EFI64, multiboot_tag_efi64),
     (MULTIBOOT_TAG_TYPE_SMBIOS, multiboot_tag_smbios), (MULTIBOOT_TAG_TYPE_ACPI_OLD, multiboot_tag_old_acpi),
     (MULTIBOOT_TAG_TYPE_ACPI_NEW, multiboot_tag_new_acpi), (MULTIBOOT_TAG_TYPE_NETWORK, multiboot_tag_network),
     (MULTIBOOT_TAG_TYPE_EFI_MMAP, multiboot_tag_efi_mmap), (MULTIBOOT_TAG_TYPE_EFI_BS, multiboot_tag),
     (MULTIBOOT_TAG_TYPE_EFI32_IH, multiboot_tag_efi32_ih), (MULTIBOOT_TAG_TYPE_EFI64_IH, multiboot_tag_efi64_ih),
     (MULTIBOOT_TAG_TYPE_LOAD_BASE_ADDR, multiboot_tag_load_base_addr)]"

text \<open>The tags of the header in the kernel image.\<close>

definition header_tag_structs :: "ctype list" where
  "header_tag_structs =
    [multiboot_header_tag,
     multiboot_header_tag_information_request,
     multiboot_header_tag_address,
     multiboot_header_tag_entry_address,
     multiboot_header_tag_console_flags,
     multiboot_header_tag_framebuffer,
     multiboot_header_tag_module_align,
     multiboot_header_tag_relocatable]"

text \<open>The packed structures of the kernel's own files.\<close>

definition heap_block_t :: ctype where
  "heap_block_t = Packed
    [(''magic'', uint32_t), (''size'', size_t), (''is_free'', bool_t), (''next'', pointer_t), (''prev'', pointer_t)]"

definition idt_entry_t :: ctype where
  "idt_entry_t = Packed
    [(''offset_low'', uint16_t), (''selector'', uint16_t), (''ist'', uint8_t), (''type_attr'', uint8_t),
     (''offset_mid'', uint16_t), (''offset_high'', uint32_t), (''zero'', uint32_t)]"

definition idt_ptr_t :: ctype where
  "idt_ptr_t = Packed [(''limit'', uint16_t), (''base'', uint64_t)]"

definition registers_t :: ctype where
  "registers_t = Packed (map (\<lambda>x. (x, uint64_t))
    [''r15'', ''r14'', ''r13'', ''r12'', ''r11'', ''r10'', ''r9'', ''r8'',
     ''rbp'', ''rdi'', ''rsi'', ''rdx'', ''rcx'', ''rbx'', ''rax'', ''int_no'', ''err_code'',
     ''rip'', ''cs'', ''rflags'', ''rsp'', ''ss''])"

definition memory_map_entry_t :: ctype where
  "memory_map_entry_t = Struct
    [(''base_addr'', uint64_t), (''length'', uint64_t), (''type'', uint32_t), (''acpi_attributes'', uint32_t)]"

definition memory_info_t :: ctype where
  "memory_info_t = Struct
    [(''entries'', Array memory_map_entry_t MEMORY_MAP_SIZE), (''count'', size_t), (''total_memory'', uint64_t),
     (''available_memory'', uint64_t)]"


lemmas c_types = multiboot_uint8_t_def multiboot_uint16_t_def multiboot_uint32_t_def multiboot_uint64_t_def

lemmas more_tag_types = MULTIBOOT_TAG_TYPE_MODULE_def MULTIBOOT_TAG_TYPE_BOOTDEV_def
  MULTIBOOT_TAG_TYPE_VBE_def MULTIBOOT_TAG_TYPE_FRAMEBUFFER_def
  MULTIBOOT_TAG_TYPE_ELF_SECTIONS_def MULTIBOOT_TAG_TYPE_APM_def
  MULTIBOOT_TAG_TYPE_EFI32_def MULTIBOOT_TAG_TYPE_EFI64_def
  MULTIBOOT_TAG_TYPE_SMBIOS_def MULTIBOOT_TAG_TYPE_ACPI_OLD_def
  MULTIBOOT_TAG_TYPE_ACPI_NEW_def MULTIBOOT_TAG_TYPE_NETWORK_def
  MULTIBOOT_TAG_TYPE_EFI_MMAP_def MULTIBOOT_TAG_TYPE_EFI_BS_def
  MULTIBOOT_TAG_TYPE_EFI32_IH_def MULTIBOOT_TAG_TYPE_EFI64_IH_def
  MULTIBOOT_TAG_TYPE_LOAD_BASE_ADDR_def

lemmas c_structs = multiboot_header_def
  multiboot_header_tag_def
  multiboot_header_tag_information_request_def
  multiboot_header_tag_address_def
  multiboot_header_tag_entry_address_def
  multiboot_header_tag_console_flags_def
  multiboot_header_tag_framebuffer_def
  multiboot_header_tag_module_align_def
  multiboot_header_tag_relocatable_def
  multiboot_color_def
  multiboot_mmap_entry_def
  multiboot_tag_def
  multiboot_tag_string_def
  multiboot_tag_module_def
  multiboot_tag_basic_meminfo_def
  multiboot_tag_bootdev_def
  multiboot_tag_mmap_def
  multiboot_vbe_info_block_def
  multiboot_vbe_mode_info_block_def
  multiboot_tag_vbe_def
  multiboot_tag_framebuffer_common_def
  multiboot_tag_framebuffer_def
  multiboot_tag_elf_sections_def
  multiboot_tag_apm_def
  multiboot_tag_efi32_def
  multiboot_tag_efi64_def
  multiboot_tag_smbios_def
  multiboot_tag_old_acpi_def
  multiboot_tag_new_acpi_def
  multiboot_tag_network_def
  multiboot_tag_efi_mmap_def
  multiboot_tag_efi32_ih_def
  multiboot_tag_efi64_ih_def
  multiboot_tag_load_base_addr_def
  heap_block_t_def idt_entry_t_def idt_ptr_t_def registers_t_def memory_map_entry_t_def memory_info_t_def

section \<open>What the rules guarantee\<close>

text \<open>Types whose scalars have the sizes of the machine's types.\<close>

fun sized :: "ctype \<Rightarrow> bool" and all_sized :: "(string \<times> ctype) list \<Rightarrow> bool" where
  "sized (Scalar n) \<longleftrightarrow> n \<in> {1, 2, 4, 8}"
| "sized (Array t n) \<longleftrightarrow> sized t"
| "sized (Struct fs) \<longleftrightarrow> all_sized fs"
| "sized (Packed fs) \<longleftrightarrow> all_sized fs"
| "sized (Union fs) \<longleftrightarrow> all_sized fs"
| "all_sized [] \<longleftrightarrow> True"
| "all_sized ((x, t) # fs) \<longleftrightarrow> sized t \<and> all_sized fs"




lemma abi_dvd: "a \<in> {1, 2, 4, 8::nat} \<Longrightarrow> b \<in> {1, 2, 4, 8} \<Longrightarrow> a \<le> b \<Longrightarrow> a dvd b"
  by auto

lemma align_sizes:
  "sized t \<Longrightarrow> align_of t \<in> {1, 2, 4, 8}" "all_sized fs \<Longrightarrow> max_align fs \<in> {1, 2, 4, 8}"
  by (induction t and fs rule: align_of_max_align.induct) (auto simp: max_def)

lemma align_pos [simp]: "sized t \<Longrightarrow> 0 < align_of t" "all_sized fs \<Longrightarrow> 0 < max_align fs"
  using align_sizes(1) [of t] align_sizes(2) [of fs] by auto











section \<open>Reading a member\<close>





section \<open>Properties\<close>




text \<open>
  The walk reads every tag through \<open>struct multiboot_tag\<close> before it knows the type. That is
  right for each of the 22 types: its structure starts with the same type and size (the framebuffer's
  through its member \<open>common\<close>), and the types are the numbers from 0 to 21. The tags of the
  image's header share theirs in the same way.
\<close>

definition starts_as_tag :: "ctype \<Rightarrow> bool" where
  "starts_as_tag t \<longleftrightarrow> member t ''type'' = member multiboot_tag ''type'' \<and> member t ''size'' = member multiboot_tag ''size''"

theorem tags_share_header:
  "map fst tag_structs = map of_nat [0..<22] \<and>
   list_all (\<lambda>(ty, t). starts_as_tag t \<or> (\<exists>c. member t ''common'' = Some (0, c) \<and> starts_as_tag c)) tag_structs \<and>
   list_all (\<lambda>t. map (member t) [''type'', ''flags'', ''size''] =
     [Some (0, uint16_t), Some (2, uint16_t), Some (4, uint32_t)]) header_tag_structs"
  by (simp add: tag_structs_def header_tag_structs_def starts_as_tag_def c_structs c_types round_up_def upt_rec
    tag_types more_tag_types)

end
