(* ===== verification/Test_Suite_Claims.thy ===== *)
theory Test_Suite_Claims
  imports Test_Suite_Props Exception_Tests Memory_Tests_Claims
begin

text \<open>
  What the test suite guarantees, whatever is typed, and what the tests of the processor exceptions
  end in.
\<close>

section \<open>The suite\<close>






section \<open>The exceptions\<close>



lemma eoi_keeps [simp]:
  "timer_ticks (pic_send_eoi i s) = timer_ticks s" "timer_frequency (pic_send_eoi i s) = timer_frequency s"
  "ram (pic_send_eoi i s) = ram s" "buffer_read_pos (pic_send_eoi i t) = buffer_read_pos t"
  "buffer_write_pos (pic_send_eoi i t) = buffer_write_pos t"
  by (simp_all add: pic_send_eoi_def outb_def Let_def)










end
