(* ===== verification/Spec2Isabelle.thy ===== *)
theory Spec2Isabelle
  imports Heap_Claims Pmm_Claims Cstring_Claims Terminal_Claims Keyboard_Claims Interrupt_Claims Keyboard_Race Multiboot_Claims Boot_Claims Struct_Layout Test_Suite_Claims
begin

text \<open>
  AlvOS-x64 is a small 64-bit kernel in C: a VGA text terminal, memory detection from the
  multiboot structure, a bitmap allocator for page frames, a first-fit heap, interrupts with a
  timer and a keyboard, and a shell. This development models all of its C code, the test
  suites included, and verifies it from the primitives of \<open>string.c\<close> up to the run of \<open>kernel_main\<close>
  over the keys typed.

  \<^bold>\<open>The state.\<close> The kernel is single-threaded, and its state is the static variables of its files
  and RAM. Each component extends the record of the components below it: \<open>machine\<close> (RAM and the
  calls made to the terminal), \<open>heap\<close>, \<open>memory\<close>, \<open>ports\<close>, \<open>timer\<close>, \<open>keyboard\<close>, \<open>kernel\<close>,
  \<open>shell\<close>, \<open>tests\<close>. An operation is a function on the record of its component, polymorphic in the rest, so
  that it cannot touch what is above it. RAM is a function from 64-bit addresses to bytes; integers
  are words of their C width and wrap. The heap, the frame bitmap and the multiboot structure live
  in RAM, byte by byte; static arrays that no pointer leaves are lists.

  \<^bold>\<open>Errors and loops.\<close> A processor exception is a value of \<open>cpu_exception\<close> on the left of a sum; a write past a static
  array is \<open>None\<close>. Loops with a bound are functions with a measure, counted loops are \<open>for_u64\<close>.
  A loop that walks pointers or sizes found in RAM, or waits for input, is a
  \<open>partial_function (option)\<close>, where \<open>None\<close> says that it never ends; that it ends on well-formed
  data is a theorem each time. There is no fuel.

  \<^bold>\<open>Interrupts.\<close> They are delivered where the code sleeps: the scancodes of the keyboard interrupts
  to come are the argument \<open>pending\<close> of \<open>keyboard_getchar\<close>, and \<open>timer_wait\<close> sleeps for ticks.
  A tick that comes earlier, during the boot, is treated by \<open>early_tick_faults\<close>. That delivering
  them there loses nothing is justified for the shared buffer of the keyboard: \<open>Keyboard_Race\<close>
  verifies the read with interrupts at any point.

  \<^bold>\<open>Theories and sources.\<close>
  \<^item> \<open>Prelude\<close>: word lemmas, counted loops, loads and stores with their frame laws (locales
    \<open>mem_cell\<close> and \<open>two_cells\<close>, interpreted on 8, 32 and 64 bits).
  \<^item> \<open>Cstring\<close>, \<open>Cstring_Claims\<close>: \<open>string.c\<close>, related to byte lists.
  \<^item> \<open>Terminal\<close>, \<open>Terminal_Props\<close>, \<open>Terminal_Claims\<close>: \<open>terminal.c\<close>, \<open>terminal.h\<close>. The other
    components append their calls to \<open>console\<close>; \<open>run_calls\<close> gives them their effect. The driver
    refines a screen of 25 rows with a cursor (\<open>screen_of\<close>).
  \<^item> \<open>Kmalloc\<close>: \<open>kmalloc.c\<close>, \<open>kmalloc.h\<close>. \<open>Heap_Layout\<close> relates the block list in RAM to a list of
    sizes and flags and the pointer operations to first fit, splitting and coalescing on it;
    \<open>Heap_Props\<close> lifts this to the operations; \<open>Heap_State\<close> shows that the list is determined by
    the set of the allocated blocks (\<open>layout_unique\<close>), so that released blocks leave no trace; \<open>Heap_Client\<close> is the step relation of a
    well-behaved client with its invariant; \<open>Heap_Claims\<close> has the properties.
  \<^item> \<open>Multiboot\<close>, \<open>Multiboot_Claims\<close>: the detection of memory (\<open>memory.c\<close>, \<open>memory.h\<close>,
    \<open>multiboot_header.h\<close>), against the list of tags.
  \<^item> \<open>Struct_Layout\<close>: the structures that the code lays over memory, as C types with the layout
    rules of the ABI, and the reads of the other theories derived from them.
  \<^item> \<open>Pmm\<close>: the frame allocator of \<open>memory.c\<close>. \<open>Frame_Map\<close> has the locale \<open>frame_map\<close>, the
    bitmap's interface, and the set of used frames; \<open>Pmm_Props\<close> and \<open>Pmm_Init\<close> verify the
    operations and the initialisation on that set; \<open>Pmm_Claims\<close> has the properties, over the states
    that any sequence of calls reaches.
  \<^item> \<open>Pic\<close>, \<open>Timer\<close>, \<open>Keyboard\<close>, \<open>Isr\<close>: \<open>isr.c\<close>, \<open>timer.c\<close>, \<open>keyboard.c\<close>, \<open>panic.c\<close> and the
    descriptor table of \<open>kernel.c\<close>. \<open>Keyboard\<close> has the locale \<open>bounded_fifo\<close>, interpreted on the
    ring buffer. \<open>Keyboard_Claims\<close>: the characters that a sequence of scancodes stands for reach
    the reader in order. \<open>Interrupt_Claims\<close>: gates, masks, acknowledgement, waits.
    \<open>Keyboard_Race\<close>: the blocking read taken apart into its accesses, with interrupts between any
    two of them (the relation \<open>run\<close>).
  \<^item> \<open>Heap_Print\<close>, \<open>Shell\<close>: the reports of \<open>kmalloc.c\<close> and \<open>memory.c\<close>; \<open>shell.c\<close>, \<open>shell.h\<close>.
    \<open>Shell_Parse\<close>: the in-place parser against the words of a line. \<open>Shell_Lines\<close>: line editor and
    history against operations on lists. \<open>Shell_Session\<close>: the locale \<open>line_interpreter\<close>,
    interpreted on the main loop for every command \<open>memtest\<close> that keeps what the shell needs (locale
    \<open>memtest_command\<close>), so that the shell refines a session over the lines typed.
  \<^item> \<open>Memory_Tests\<close>, \<open>Memory_Tests_Props\<close>, \<open>Memory_Tests_Claims\<close>: \<open>memory_tests.c\<close>, a client of both
    allocators, with the reports of \<open>test_suite.c\<close>; what the tests show of the allocators, that the
    command is a \<open>memtest_command\<close>, and the shell as a whole.
  \<^item> \<open>Test_Suite\<close>, \<open>Exception_Tests\<close>: \<open>test_suite.c\<close> and \<open>exception_test.c\<close>. \<open>Test_Suite_Props\<close> describes
    a test by what it takes from the characters typed (\<open>reading\<close>) and composes such steps;
    \<open>Test_Suite_Claims\<close> has the properties.
  \<^item> \<open>Kernel_Main\<close>, \<open>Boot_Claims\<close>: the boot sequence of \<open>kernel.c\<close>, from the boot loader to \<open>halt\<close>.

  \<^bold>\<open>Bounds.\<close> \<open>heap_client\<close> requests at most 2 GiB at a time, since \<open>align_up\<close> truncates sizes to 32
  bits (\<open>kmalloc_truncates\<close>). The frame allocator is verified for regions that do not wrap around
  the address space, with reserved regions that do not overlap. The command \<open>memtest\<close> is verified
  where the frame bitmap does not overlap the heap, which \<open>bitmap_clear_of_heap\<close> bounds.

  \<^bold>\<open>Parameters.\<close> What a port returns (\<open>device\<close>), the address of the descriptor table and of the
  stubs of \<open>interrupts.asm\<close> (\<open>boot_env\<close>), and, for the exception tests, the addresses that the page
  tables map, the stack pointer, and when the keys come between the ticks. The shell takes its
  command \<open>memtest\<close> and the kernel its test suite as arguments, since the tests extend the state of
  the shell; the properties of the whole shell and of the kernel have \<open>shell_cmd_memtest\<close> and
  \<open>run_test_suite\<close> in their place. About the exception tests, which end in a stopped processor, the
  suite's properties assume nothing: they exclude the answer that starts them, and
  \<open>exception_tests_raise\<close> says what they end in.

  \<^bold>\<open>Not modelled.\<close> The assembly files (start-up, paging, interrupt stubs) and the linker script are
  not C. \<open>vmm.c\<close>, \<open>vmm.h\<close> and \<open>kernel.h\<close> are empty. Interrupts between two arbitrary instructions are interleaved with
  the read of the keyboard only, and the sizes of the stack and of the kernel image are not represented.
\<close>

section \<open>The physical memory manager and the heap\<close>

text \<open>
  C34: Nothing reserves the heap region in the bitmap. On a machine with 128 MiB, where the kernel
  calls \<open>pmm_init\<close> with the region at 1 MiB, the first frame that \<open>pmm_alloc_frame\<close> hands out is
  the one at \<open>HEAP_START\<close>, which holds the first block header of the heap.
\<close>

theorem pmm_hands_out_heap:
  assumes "entries (mem_info s) = map_128M"
  shows "fst (pmm_alloc_frame (pmm_init 0x100000 0x7EE0000 s)) = HEAP_START"
proof -
  note i = init_128M [OF assms]
  let ?s = "pmm_init 0x100000 0x7EE0000 s"
  show ?thesis
    using i(1)
  proof (cases rule: alloc_frame_cases)
    case full
    have "600 \<in> used ?s" unfolding full(2) i(2) by simp
    then show ?thesis by (simp add: i(4))
  next
    case (frame k s')
    have "\<not> 512 < k" using frame(4) i(4) [of 512] by (meson lessThan_iff less_irrefl subsetD)
    then have "k = 512" using frame(3) by (simp add: i(4))
    then show ?thesis using frame(1) by (simp add: i(3) HEAP_START_def)
  qed
qed

theorem pmm_hands_out_heap_witness:
  "fst (pmm_alloc_frame (pmm_init 0x100000 0x7EE0000 boot_memory)) = HEAP_START"
  by (rule pmm_hands_out_heap) (simp add: boot_memory_def)

end
